(* ===== verification/Prelude.thy ===== *)
theory Prelude
  imports Main "HOL-Library.AList"
begin

text \<open>
  Shared vocabulary of the development.

  A Go map is an association list with distinct keys. The order of the list stands for the
  unspecified iteration order of the map, so a statement that holds for every list holds for
  every order in which the program may visit the entries. \<^verbatim>\<open>m[k] = v\<close> is
  \<open>AList.update k v m\<close>, \<^verbatim>\<open>delete(m, k)\<close> is \<open>AList.delete k m\<close>
  and \<^verbatim>\<open>v, ok := m[k]\<close> is a case distinction on \<open>map_of m k\<close>.
  A Go \<^verbatim>\<open>map[K]struct{}\<close> (a set) is a distinct list.

  An instant (\<^verbatim>\<open>time.Time\<close>) and a duration are an \<open>int\<close> number of
  nanoseconds; the instant 0 is the zero \<^verbatim>\<open>time.Time\<close>.
\<close>

type_synonym time = int
type_synonym duration = int
type_synonym ('k, 'v) gomap = "('k \<times> 'v) list"

named_theorems inv_intros \<open>operations keep the invariants\<close>

definition second :: duration where
  "second = 1000000000"

definition isZero :: "time \<Rightarrow> bool" where
  "isZero t \<longleftrightarrow> t = 0"

subsection \<open>Maps as association lists\<close>

definition gomap :: "('k, 'v) gomap \<Rightarrow> bool" where
  "gomap m \<longleftrightarrow> distinct (map fst m)"

lemma gomap_Nil [simp, intro]: "gomap []"
  by (simp add: gomap_def)

lemma gomap_update [simp, intro]: "gomap m \<Longrightarrow> gomap (AList.update k v m)"
  by (simp add: gomap_def distinct_update)

lemma gomap_delete [simp, intro]: "gomap m \<Longrightarrow> gomap (AList.delete k m)"
  by (simp add: gomap_def distinct_delete)

lemma gomap_filter [simp, intro]: "gomap m \<Longrightarrow> gomap (filter P m)"
  by (simp add: gomap_def distinct_map_filter)

lemma map_of_update_gomap [simp]: "map_of (AList.update k v m) k' = (if k' = k then Some v else map_of m k')"
  by (simp add: update_conv')

lemma map_of_delete_gomap [simp]: "map_of (AList.delete k m) k' = (if k' = k then None else map_of m k')"
  by (simp add: delete_conv')

lemma map_of_eq_Some_iff_gomap: "gomap m \<Longrightarrow> map_of m k = Some v \<longleftrightarrow> (k, v) \<in> set m"
  by (simp add: gomap_def)

lemma gomap_set_update:
  assumes "gomap m"
  shows "set (AList.update k v m) = {p \<in> set m. fst p \<noteq> k} \<union> {(k, v)}"
proof -
  have *: "p \<in> set (AList.update k v m) \<longleftrightarrow> p \<in> {p \<in> set m. fst p \<noteq> k} \<union> {(k, v)}" for p
    using map_of_eq_Some_iff_gomap [OF gomap_update [OF assms], of k v "fst p" "snd p"]
      map_of_eq_Some_iff_gomap [OF assms, of "fst p" "snd p"]
    by (cases p) (auto split: if_splits)
  show ?thesis using * by blast
qed

lemma set_delete_gomap: "set (AList.delete k m) = {p \<in> set m. fst p \<noteq> k}"
  by (auto simp: AList.delete_eq)

lemma map_of_filter_gomap:
  "gomap m \<Longrightarrow> map_of (filter P m) k =
     (case map_of m k of None \<Rightarrow> None | Some v \<Rightarrow> if P (k, v) then Some v else None)"
  by (induction m)
    (auto simp: gomap_def split: option.splits dest: map_of_SomeD intro: rev_image_eqI)

lemma dom_map_of_gomap: "dom (map_of m) = fst ` set m"
  by (rule dom_map_of_conv_image_fst)

subsection \<open>Suffixes of lists\<close>

text \<open>\<^verbatim>\<open>out[len(out)-limit:]\<close>: the last \<open>n\<close> elements.\<close>

definition last_n :: "nat \<Rightarrow> 'a list \<Rightarrow> 'a list" where
  "last_n n xs = drop (length xs - n) xs"

lemma length_last_n [simp]: "length (last_n n xs) = min n (length xs)"
  by (simp add: last_n_def)

lemma last_n_all: "length xs \<le> n \<Longrightarrow> last_n n xs = xs"
  by (simp add: last_n_def)

lemma last_n_suffix: "\<exists>ys. xs = ys @ last_n n xs"
  unfolding last_n_def by (metis append_take_drop_id)

end
