(* ===== verification/Go_Strings.thy ===== *)
theory Go_Strings
  imports Prelude "HOL-Library.Char_ord" "HOL-Library.List_Lexorder" "HOL-Library.Sublist"
begin

text \<open>
  The part of Go's \<^verbatim>\<open>strings\<close> package the program uses, on Go strings as byte
  sequences (\<open>string\<close>, one \<open>char\<close> per byte).

  White space (\<^verbatim>\<open>TrimSpace\<close>, \<^verbatim>\<open>Fields\<close>) is Go's: the six ASCII
  characters and the UTF-8 encodings of the other runes for which
  \<^verbatim>\<open>unicode.IsSpace\<close> holds. Case mapping (\<^verbatim>\<open>ToUpper\<close>,
  \<^verbatim>\<open>ToLower\<close>, \<^verbatim>\<open>EqualFold\<close>) maps the ASCII letters and leaves every
  other byte alone: it is Go's on every string whose non-ASCII runes have no case, so on every
  ASCII string, which callsigns, commands, scopes and record types are.
  The order on strings is bytewise lexicographic, as Go's \<^verbatim>\<open><\<close> is.
\<close>

abbreviation byte :: "char \<Rightarrow> nat" where
  "byte c \<equiv> of_char c"

lemma byte_less_256: "byte c < 256"
  by (rule nat_of_char_less_256)

lemma byte_inject: "byte c = byte d \<longleftrightarrow> c = d"
  by (rule of_char_eq_iff)

subsection \<open>Case mapping\<close>

definition upper_byte :: "char \<Rightarrow> char" where
  "upper_byte c = (if 97 \<le> byte c \<and> byte c \<le> 122 then char_of (byte c - 32) else c)"

definition lower_byte :: "char \<Rightarrow> char" where
  "lower_byte c = (if 65 \<le> byte c \<and> byte c \<le> 90 then char_of (byte c + 32) else c)"

definition ToUpper :: "string \<Rightarrow> string" where
  "ToUpper s = map upper_byte s"

definition ToLower :: "string \<Rightarrow> string" where
  "ToLower s = map lower_byte s"

definition EqualFold :: "string \<Rightarrow> string \<Rightarrow> bool" where
  "EqualFold s t \<longleftrightarrow> ToLower s = ToLower t"

lemma byte_upper_byte:
  "byte (upper_byte c) = (if 97 \<le> byte c \<and> byte c \<le> 122 then byte c - 32 else byte c)"
  by (auto simp: upper_byte_def)

lemma byte_lower_byte:
  "byte (lower_byte c) = (if 65 \<le> byte c \<and> byte c \<le> 90 then byte c + 32 else byte c)"
  by (auto simp: lower_byte_def)

lemma upper_upper_byte [simp]: "upper_byte (upper_byte c) = upper_byte c"
  by (auto simp add: byte_inject [symmetric] byte_upper_byte simp del: of_char_eq_iff)

lemma lower_lower_byte [simp]: "lower_byte (lower_byte c) = lower_byte c"
  by (auto simp add: byte_inject [symmetric] byte_lower_byte simp del: of_char_eq_iff)

lemma lower_upper_byte [simp]: "lower_byte (upper_byte c) = lower_byte c"
  by (auto simp add: byte_inject [symmetric] byte_lower_byte byte_upper_byte simp del: of_char_eq_iff)

lemma upper_lower_byte [simp]: "upper_byte (lower_byte c) = upper_byte c"
  by (auto simp add: byte_inject [symmetric] byte_lower_byte byte_upper_byte simp del: of_char_eq_iff)

lemma upper_byte_eq_other:
  "\<not> (65 \<le> byte d \<and> byte d \<le> 90) \<Longrightarrow> \<not> (97 \<le> byte d \<and> byte d \<le> 122) \<Longrightarrow>
     upper_byte c = d \<longleftrightarrow> c = d"
  by (auto simp add: byte_inject [symmetric] byte_upper_byte simp del: of_char_eq_iff split: if_splits)

lemma ToUpper_simps [simp]:
  "ToUpper [] = []" "ToUpper (c # s) = upper_byte c # ToUpper s" "ToUpper (s @ t) = ToUpper s @ ToUpper t"
  by (simp_all add: ToUpper_def)

lemma ToLower_simps [simp]:
  "ToLower [] = []" "ToLower (c # s) = lower_byte c # ToLower s" "ToLower (s @ t) = ToLower s @ ToLower t"
  by (simp_all add: ToLower_def)

lemma length_ToUpper [simp]: "length (ToUpper s) = length s"
  by (simp add: ToUpper_def)

lemma length_ToLower [simp]: "length (ToLower s) = length s"
  by (simp add: ToLower_def)

lemma ToUpper_eq_Nil [simp]: "ToUpper s = [] \<longleftrightarrow> s = []"
  by (simp add: ToUpper_def)

lemma ToLower_eq_Nil [simp]: "ToLower s = [] \<longleftrightarrow> s = []"
  by (simp add: ToLower_def)

lemma ToUpper_ToUpper [simp]: "ToUpper (ToUpper s) = ToUpper s"
  by (simp add: ToUpper_def)

lemma ToLower_ToLower [simp]: "ToLower (ToLower s) = ToLower s"
  by (simp add: ToLower_def)

lemma ToLower_ToUpper [simp]: "ToLower (ToUpper s) = ToLower s"
  by (simp add: ToLower_def ToUpper_def)

lemma ToUpper_ToLower [simp]: "ToUpper (ToLower s) = ToUpper s"
  by (simp add: ToLower_def ToUpper_def)

lemma rev_ToUpper: "rev (ToUpper s) = ToUpper (rev s)"
  by (simp add: ToUpper_def rev_map)

lemma rev_ToLower: "rev (ToLower s) = ToLower (rev s)"
  by (simp add: ToLower_def rev_map)

lemma drop_ToUpper: "drop n (ToUpper s) = ToUpper (drop n s)"
  by (simp add: ToUpper_def drop_map)

lemma drop_ToLower: "drop n (ToLower s) = ToLower (drop n s)"
  by (simp add: ToLower_def drop_map)

lemma EqualFold_refl [simp]: "EqualFold s s"
  by (simp add: EqualFold_def)

text \<open>Upper-case strings are equal as soon as they are equal under folding.\<close>

lemma EqualFold_iff_ToUpper: "EqualFold s t \<longleftrightarrow> ToUpper s = ToUpper t"
  by (metis EqualFold_def ToLower_ToUpper ToUpper_ToLower)

lemma EqualFold_upper: "ToUpper s = s \<Longrightarrow> ToUpper t = t \<Longrightarrow> EqualFold s t \<longleftrightarrow> s = t"
  by (simp add: EqualFold_iff_ToUpper)

subsection \<open>White space\<close>

definition sp1 :: "nat \<Rightarrow> bool" where
  "sp1 b \<longleftrightarrow> 9 \<le> b \<and> b \<le> 13 \<or> b = 32"

definition sp2 :: "nat \<Rightarrow> nat \<Rightarrow> bool" where \<comment> \<open>U+0085, U+00A0\<close>
  "sp2 b c \<longleftrightarrow> b = 0xC2 \<and> (c = 0x85 \<or> c = 0xA0)"

definition sp3 :: "nat \<Rightarrow> nat \<Rightarrow> nat \<Rightarrow> bool" where
  \<comment> \<open>U+1680; U+2000 to U+200A, U+2028, U+2029, U+202F; U+205F; U+3000\<close>
  "sp3 b c d \<longleftrightarrow>
     b = 0xE1 \<and> c = 0x9A \<and> d = 0x80
   \<or> b = 0xE2 \<and> c = 0x80 \<and> (0x80 \<le> d \<and> d \<le> 0x8A \<or> d = 0xA8 \<or> d = 0xA9 \<or> d = 0xAF)
   \<or> b = 0xE2 \<and> c = 0x81 \<and> d = 0x9F
   \<or> b = 0xE3 \<and> c = 0x80 \<and> d = 0x80"

text \<open>The number of bytes of the white-space rune a string starts with, 0 if it starts with none.\<close>

fun space_len :: "string \<Rightarrow> nat" where
  "space_len [] = 0"
| "space_len [a] = (if sp1 (byte a) then 1 else 0)"
| "space_len [a, b] = (if sp1 (byte a) then 1 else if sp2 (byte a) (byte b) then 2 else 0)"
| "space_len (a # b # c # s) =
     (if sp1 (byte a) then 1 else if sp2 (byte a) (byte b) then 2
      else if sp3 (byte a) (byte b) (byte c) then 3 else 0)"

text \<open>The same for the rune a reversed string starts with.\<close>

fun space_len_rev :: "string \<Rightarrow> nat" where
  "space_len_rev [] = 0"
| "space_len_rev [a] = (if sp1 (byte a) then 1 else 0)"
| "space_len_rev [a, b] = (if sp1 (byte a) then 1 else if sp2 (byte b) (byte a) then 2 else 0)"
| "space_len_rev (a # b # c # s) =
     (if sp1 (byte a) then 1 else if sp2 (byte b) (byte a) then 2
      else if sp3 (byte c) (byte b) (byte a) then 3 else 0)"

lemmas sp_defs = sp1_def sp2_def sp3_def

lemma space_len_decr: "0 < space_len s \<Longrightarrow> length s - space_len s < length s"
  by (cases s) auto

lemma space_len_rev_decr: "0 < space_len_rev s \<Longrightarrow> length s - space_len_rev s < length s"
  by (cases s) auto

function trim_left :: "string \<Rightarrow> string" where
  "trim_left s = (if space_len s = 0 then s else trim_left (drop (space_len s) s))"
  by pat_completeness auto
termination
  by (relation "measure length") (auto intro: space_len_decr)

function trim_left_rev :: "string \<Rightarrow> string" where
  "trim_left_rev s = (if space_len_rev s = 0 then s else trim_left_rev (drop (space_len_rev s) s))"
  by pat_completeness auto
termination
  by (relation "measure length") (auto intro: space_len_rev_decr)

declare trim_left.simps [simp del] trim_left_rev.simps [simp del]

definition trim_right :: "string \<Rightarrow> string" where
  "trim_right s = rev (trim_left_rev (rev s))"

definition TrimSpace :: "string \<Rightarrow> string" where
  "TrimSpace s = trim_right (trim_left s)"

lemma space_len_sp1: "sp1 (byte a) \<Longrightarrow> space_len (a # s) = 1"
  by (cases "a # s" rule: space_len.cases) auto

lemma space_len_rev_sp1: "sp1 (byte a) \<Longrightarrow> space_len_rev (a # s) = 1"
  by (cases "a # s" rule: space_len_rev.cases) auto

lemma space_len_append: "0 < space_len s \<Longrightarrow> space_len (s @ t) = space_len s"
proof (induction s rule: space_len.induct)
  case (3 a b)
  then show ?case by (cases t) (auto split: if_splits)
qed (auto simp: space_len_sp1 split: if_splits)

lemma space_len_rev_append: "0 < space_len_rev s \<Longrightarrow> space_len_rev (s @ t) = space_len_rev s"
proof (induction s rule: space_len_rev.induct)
  case (3 a b)
  then show ?case by (cases t) (auto split: if_splits)
qed (auto simp: space_len_rev_sp1 split: if_splits)

lemma space_len_prefix_0: "prefix s t \<Longrightarrow> space_len t = 0 \<Longrightarrow> space_len s = 0"
  by (metis bot_nat_0.not_eq_extremum prefix_def space_len_append)

lemma sp1_upper_byte [simp]: "sp1 (byte (upper_byte c)) = sp1 (byte c)"
  by (auto simp: sp_defs byte_upper_byte)

lemma sp2_upper_byte [simp]: "sp2 (byte (upper_byte c)) (byte (upper_byte d)) = sp2 (byte c) (byte d)"
  by (auto simp: sp_defs byte_upper_byte)

lemma sp3_upper_byte [simp]:
  "sp3 (byte (upper_byte c)) (byte (upper_byte d)) (byte (upper_byte e)) = sp3 (byte c) (byte d) (byte e)"
  by (auto simp: sp_defs byte_upper_byte)

lemma sp1_lower_byte [simp]: "sp1 (byte (lower_byte c)) = sp1 (byte c)"
  by (auto simp: sp_defs byte_lower_byte)

lemma sp2_lower_byte [simp]: "sp2 (byte (lower_byte c)) (byte (lower_byte d)) = sp2 (byte c) (byte d)"
  by (auto simp: sp_defs byte_lower_byte)

lemma sp3_lower_byte [simp]:
  "sp3 (byte (lower_byte c)) (byte (lower_byte d)) (byte (lower_byte e)) = sp3 (byte c) (byte d) (byte e)"
  by (auto simp: sp_defs byte_lower_byte)

lemma space_len_ToUpper [simp]: "space_len (ToUpper s) = space_len s"
  by (induction s rule: space_len.induct) simp_all

lemma space_len_rev_ToUpper [simp]: "space_len_rev (ToUpper s) = space_len_rev s"
  by (induction s rule: space_len_rev.induct) simp_all

lemma space_len_ToLower [simp]: "space_len (ToLower s) = space_len s"
  by (induction s rule: space_len.induct) simp_all

lemma space_len_rev_ToLower [simp]: "space_len_rev (ToLower s) = space_len_rev s"
  by (induction s rule: space_len_rev.induct) simp_all

subsection \<open>Trimming\<close>

lemma space_len_trim_left [simp]: "space_len (trim_left s) = 0"
  by (induction s rule: trim_left.induct) (subst trim_left.simps, simp)

lemma space_len_rev_trim_left_rev [simp]: "space_len_rev (trim_left_rev s) = 0"
  by (induction s rule: trim_left_rev.induct) (subst trim_left_rev.simps, simp)

lemma trim_left_id: "space_len s = 0 \<Longrightarrow> trim_left s = s"
  by (simp add: trim_left.simps)

lemma trim_left_rev_id: "space_len_rev s = 0 \<Longrightarrow> trim_left_rev s = s"
  by (simp add: trim_left_rev.simps)

lemma suffix_trim_left: "suffix (trim_left s) s"
proof (induction s rule: trim_left.induct)
  case (1 s)
  then show ?case
    by (cases "space_len s = 0") (auto simp: trim_left.simps [of s] intro: suffix_order.trans suffix_drop)
qed

lemma suffix_trim_left_rev: "suffix (trim_left_rev s) s"
proof (induction s rule: trim_left_rev.induct)
  case (1 s)
  then show ?case
    by (cases "space_len_rev s = 0")
      (auto simp: trim_left_rev.simps [of s] intro: suffix_order.trans suffix_drop)
qed

lemma prefix_trim_right: "prefix (trim_right s) s"
  using suffix_trim_left_rev [of "rev s"] by (simp add: trim_right_def suffix_to_prefix)

lemma trim_left_ToUpper: "trim_left (ToUpper s) = ToUpper (trim_left s)"
proof (induction s rule: trim_left.induct)
  case (1 s)
  then show ?case
    by (cases "space_len s = 0") (simp_all add: trim_left.simps [of s] trim_left.simps [of "ToUpper s"] drop_ToUpper)
qed

lemma trim_left_rev_ToUpper: "trim_left_rev (ToUpper s) = ToUpper (trim_left_rev s)"
proof (induction s rule: trim_left_rev.induct)
  case (1 s)
  then show ?case
    by (cases "space_len_rev s = 0")
      (simp_all add: trim_left_rev.simps [of s] trim_left_rev.simps [of "ToUpper s"] drop_ToUpper)
qed

lemma trim_left_ToLower: "trim_left (ToLower s) = ToLower (trim_left s)"
proof (induction s rule: trim_left.induct)
  case (1 s)
  then show ?case
    by (cases "space_len s = 0") (simp_all add: trim_left.simps [of s] trim_left.simps [of "ToLower s"] drop_ToLower)
qed

lemma trim_left_rev_ToLower: "trim_left_rev (ToLower s) = ToLower (trim_left_rev s)"
proof (induction s rule: trim_left_rev.induct)
  case (1 s)
  then show ?case
    by (cases "space_len_rev s = 0")
      (simp_all add: trim_left_rev.simps [of s] trim_left_rev.simps [of "ToLower s"] drop_ToLower)
qed

lemma TrimSpace_ToUpper: "TrimSpace (ToUpper s) = ToUpper (TrimSpace s)"
  by (simp add: TrimSpace_def trim_right_def trim_left_ToUpper trim_left_rev_ToUpper rev_ToUpper)

lemma TrimSpace_ToLower: "TrimSpace (ToLower s) = ToLower (TrimSpace s)"
  by (simp add: TrimSpace_def trim_right_def trim_left_ToLower trim_left_rev_ToLower rev_ToLower)

lemma space_len_TrimSpace [simp]: "space_len (TrimSpace s) = 0"
  using space_len_prefix_0 [OF prefix_trim_right] by (simp add: TrimSpace_def)

lemma space_len_rev_TrimSpace [simp]: "space_len_rev (rev (TrimSpace s)) = 0"
  by (simp add: TrimSpace_def trim_right_def)

lemma TrimSpace_id: "space_len s = 0 \<Longrightarrow> space_len_rev (rev s) = 0 \<Longrightarrow> TrimSpace s = s"
  by (simp add: TrimSpace_def trim_right_def trim_left_id trim_left_rev_id)

lemma TrimSpace_TrimSpace [simp]: "TrimSpace (TrimSpace s) = TrimSpace s"
  by (rule TrimSpace_id) simp_all

lemma TrimSpace_Nil [simp]: "TrimSpace [] = []"
  by (rule TrimSpace_id) simp_all

lemma sublist_TrimSpace: "sublist (TrimSpace s) s"
  unfolding TrimSpace_def
  by (meson prefix_imp_sublist prefix_trim_right sublist_order.order_trans suffix_imp_sublist suffix_trim_left)

lemma length_TrimSpace: "length (TrimSpace s) \<le> length s"
  using sublist_TrimSpace by (rule sublist_length_le)

lemma set_TrimSpace: "set (TrimSpace s) \<subseteq> set s"
  using sublist_TrimSpace by (rule set_mono_sublist)

subsection \<open>Fields, Join and the other string operations\<close>

text \<open>\<^verbatim>\<open>strings.Fields\<close>: the maximal runs of bytes that are not white space.\<close>

function Fields_from :: "string \<Rightarrow> string \<Rightarrow> string list" where
  "Fields_from acc s =
     (if s = [] then (if acc = [] then [] else [rev acc])
      else if space_len s = 0 then Fields_from (hd s # acc) (tl s)
      else (if acc = [] then [] else [rev acc]) @ Fields_from [] (drop (space_len s) s))"
  by pat_completeness auto
termination
  by (relation "measure (\<lambda>(acc, s). length s)") (auto intro: space_len_decr)

declare Fields_from.simps [simp del]

definition Fields :: "string \<Rightarrow> string list" where
  "Fields s = Fields_from [] s"

text \<open>\<^verbatim>\<open>strings.Join\<close> with a one-byte separator.\<close>

fun Join :: "string list \<Rightarrow> char \<Rightarrow> string" where
  "Join [] c = []"
| "Join [s] c = s"
| "Join (s # t # ss) c = s @ c # Join (t # ss) c"

text \<open>\<^verbatim>\<open>strings.ReplaceAll\<close> of one byte by another.\<close>

definition ReplaceAll :: "string \<Rightarrow> char \<Rightarrow> char \<Rightarrow> string" where
  "ReplaceAll s a b = map (\<lambda>c. if c = a then b else c) s"

text \<open>
  \<^verbatim>\<open>strings.FieldsFunc\<close> for a predicate on single bytes: split around the bytes where it
  holds, dropping empty pieces.
\<close>

fun FieldsFunc_from :: "(char \<Rightarrow> bool) \<Rightarrow> string \<Rightarrow> string \<Rightarrow> string list" where
  "FieldsFunc_from p acc [] = (if acc = [] then [] else [rev acc])"
| "FieldsFunc_from p acc (c # s) =
     (if p c then (if acc = [] then [] else [rev acc]) @ FieldsFunc_from p [] s
      else FieldsFunc_from p (c # acc) s)"

definition FieldsFunc :: "string \<Rightarrow> (char \<Rightarrow> bool) \<Rightarrow> string list" where
  "FieldsFunc s p = FieldsFunc_from p [] s"

text \<open>\<^verbatim>\<open>strings.Split\<close> with a one-byte separator: empty pieces are kept.\<close>

fun Split_from :: "string \<Rightarrow> string \<Rightarrow> char \<Rightarrow> string list" where
  "Split_from acc [] d = [rev acc]"
| "Split_from acc (c # s) d =
     (if c = d then rev acc # Split_from [] s d else Split_from (c # acc) s d)"

definition Split :: "string \<Rightarrow> char \<Rightarrow> string list" where
  "Split s d = Split_from [] s d"

text \<open>\<^verbatim>\<open>strings.Cut\<close> with a one-byte separator: \<open>None\<close> when it does not occur.\<close>

fun Cut :: "string \<Rightarrow> char \<Rightarrow> (string \<times> string) option" where
  "Cut [] d = None"
| "Cut (c # s) d =
     (if c = d then Some ([], s) else map_option (\<lambda>(a, b). (c # a, b)) (Cut s d))"

text \<open>\<^verbatim>\<open>strings.TrimRight\<close> with a set of cut bytes.\<close>

definition TrimRight :: "string \<Rightarrow> char set \<Rightarrow> string" where
  "TrimRight s cs = rev (dropWhile (\<lambda>c. c \<in> cs) (rev s))"

definition HasPrefix :: "string \<Rightarrow> string \<Rightarrow> bool" where
  "HasPrefix s p \<longleftrightarrow> take (length p) s = p"

definition CutPrefix :: "string \<Rightarrow> string \<Rightarrow> string option" where
  "CutPrefix s p = (if HasPrefix s p then Some (drop (length p) s) else None)"

text \<open>\<^verbatim>\<open>strings.Contains\<close>.\<close>

fun Contains :: "string \<Rightarrow> string \<Rightarrow> bool" where
  "Contains [] t = (t = [])"
| "Contains (c # s) t = (HasPrefix (c # s) t \<or> Contains s t)"

text \<open>\<^verbatim>\<open>%d\<close> of a non-negative number and \<^verbatim>\<open>hex.EncodeToString\<close>.\<close>

definition digit :: "nat \<Rightarrow> char" where
  "digit n = char_of (if n < 10 then 48 + n else 87 + n)"

fun dec_nat :: "nat \<Rightarrow> string" where
  "dec_nat n = (if n < 10 then [digit n] else dec_nat (n div 10) @ [digit (n mod 10)])"

declare dec_nat.simps [simp del]

definition dec_int :: "int \<Rightarrow> string" where
  "dec_int i = (if i < 0 then CHR ''-'' # dec_nat (nat (- i)) else dec_nat (nat i))"

definition hex_encode :: "string \<Rightarrow> string" where
  "hex_encode s = concat (map (\<lambda>c. [digit (byte c div 16), digit (byte c mod 16)]) s)"

subsection \<open>Facts on fields\<close>

text \<open>A string in which no white-space rune starts anywhere.\<close>

fun nosp :: "string \<Rightarrow> bool" where
  "nosp [] = True"
| "nosp (c # s) = (space_len (c # s) = 0 \<and> nosp s)"

lemma nosp_prefix: "nosp (s @ t) \<Longrightarrow> nosp s"
proof (induction s)
  case (Cons c s)
  then show ?case using space_len_prefix_0 [of "c # s" "c # s @ t"] by (simp add: prefix_def)
qed simp

lemma nosp_space_len: "nosp s \<Longrightarrow> space_len s = 0"
  by (cases s) auto

lemma nosp_ToUpper [simp]: "nosp (ToUpper s) = nosp s"
proof (induction s)
  case (Cons c s)
  then show ?case using space_len_ToUpper [of "c # s"] by simp
qed simp

lemma space_len_blank: "s \<noteq> [] \<Longrightarrow> space_len s = 0 \<Longrightarrow> space_len (s @ CHR '' '' # t) = 0"
proof (induction s rule: space_len.induct)
  case (2 a)
  then show ?case by (cases t) (auto simp: sp_defs split: if_splits)
next
  case (3 a b)
  then show ?case by (cases t) (auto simp: sp_defs split: if_splits)
qed (auto split: if_splits)

lemma Fields_from_Nil [simp]: "Fields_from acc [] = (if acc = [] then [] else [rev acc])"
  by (simp add: Fields_from.simps)

lemma Fields_from_blank [simp]:
  "Fields_from acc (CHR '' '' # t) = (if acc = [] then [] else [rev acc]) @ Fields_from [] t"
proof -
  have "space_len (CHR '' '' # t) = 1" by (rule space_len_sp1) (simp add: sp1_def)
  then show ?thesis by (simp add: Fields_from.simps [of acc])
qed

lemma Fields_from_nosp_blank:
  "nosp s \<Longrightarrow> Fields_from acc (s @ CHR '' '' # t) = Fields_from (rev s @ acc) (CHR '' '' # t)"
proof (induction s arbitrary: acc)
  case (Cons c s)
  have "space_len ((c # s) @ CHR '' '' # t) = 0"
    by (rule space_len_blank) (use Cons.prems in simp_all)
  with Cons show ?case by (subst Fields_from.simps) simp
qed simp

lemma Fields_from_nosp: "nosp s \<Longrightarrow> Fields_from acc s = (if acc = [] \<and> s = [] then [] else [rev acc @ s])"
proof (induction s arbitrary: acc)
  case (Cons c s)
  then show ?case by (subst Fields_from.simps) simp
qed simp

lemma Fields_blank_append:
  "nosp s \<Longrightarrow> Fields (s @ CHR '' '' # t) = (if s = [] then [] else [s]) @ Fields t"
  by (simp add: Fields_def Fields_from_nosp_blank)

lemma Fields_nosp: "nosp s \<Longrightarrow> Fields s = (if s = [] then [] else [s])"
  by (simp add: Fields_def Fields_from_nosp)

text \<open>Splitting what was joined gives the pieces back.\<close>

lemma Fields_Join: "list_all (\<lambda>s. nosp s \<and> s \<noteq> []) ss \<Longrightarrow> Fields (Join ss (CHR '' '')) = ss"
  by (induction ss "CHR '' ''" rule: Join.induct)
    (simp_all add: Fields_nosp Fields_blank_append)

lemma nosp_iff: "nosp s \<longleftrightarrow> (\<forall>k < length s. space_len (drop k s) = 0)"
proof (induction s)
  case (Cons c s)
  have "(\<forall>k < length (c # s). space_len (drop k (c # s)) = 0) \<longleftrightarrow>
      space_len (c # s) = 0 \<and> (\<forall>k < length s. space_len (drop k s) = 0)"
    by (auto simp: less_Suc_eq_0_disj)
  with Cons show ?case by simp
qed simp

lemma nosp_of_context:
  "\<forall>k < length s. space_len (drop k s @ t) = 0 \<Longrightarrow> nosp s"
  unfolding nosp_iff by (meson prefixI space_len_prefix_0)

lemma Fields_from_sound:
  "\<forall>k < length acc. space_len (drop k (rev acc) @ s) = 0 \<Longrightarrow>
     f \<in> set (Fields_from acc s) \<Longrightarrow> nosp f \<and> f \<noteq> [] \<and> set f \<subseteq> set acc \<union> set s"
proof (induction acc s rule: Fields_from.induct)
  case (1 acc s)
  have acc: "nosp (rev acc)"
    using nosp_of_context [of "rev acc" s] "1.prems"(1) by simp
  consider "s = []" | "s \<noteq> []" "space_len s = 0" | "s \<noteq> []" "space_len s \<noteq> 0" by blast
  then show ?case
  proof cases
    case 1
    with "1.prems" acc show ?thesis by (auto split: if_splits)
  next
    case 2
    have "\<forall>k < length (hd s # acc). space_len (drop k (rev (hd s # acc)) @ tl s) = 0"
      using "1.prems"(1) 2 by (auto simp: less_Suc_eq)
    with "1.IH"(1) 2 "1.prems"(2) show ?thesis
      by (fastforce simp: Fields_from.simps [of acc s] dest: list.set_sel)
  next
    case 3
    have "set (drop (space_len s) s) \<subseteq> set s" by (rule set_drop_subset)
    with "1.IH"(2) 3 "1.prems"(2) acc show ?thesis
      by (auto simp: Fields_from.simps [of acc s] split: if_splits)
  qed
qed

lemma Fields_sound: "f \<in> set (Fields s) \<Longrightarrow> nosp f \<and> f \<noteq> [] \<and> set f \<subseteq> set s"
  using Fields_from_sound [of "[]" s f] by (simp add: Fields_def)

text \<open>Joining the fields and splitting again changes nothing: \<^verbatim>\<open>Tail\<close> is a normal form.\<close>

lemma Fields_Join_Fields: "Fields (Join (Fields s) (CHR '' '')) = Fields s"
  by (rule Fields_Join) (auto simp: list_all_iff dest: Fields_sound)

lemma nosp_suffix: "nosp (s @ t) \<Longrightarrow> nosp t"
  by (induction s) auto

lemma nosp_space_len_rev:
  assumes "nosp s"
  shows "space_len_rev (rev s) = 0"
proof (rule ccontr)
  assume a: "space_len_rev (rev s) \<noteq> 0"
  then obtain r t where "rev s = r @ t" "r = take (space_len_rev (rev s)) (rev s)"
    by (metis append_take_drop_id)
  then have s: "s = rev t @ rev r" by (metis rev_append rev_rev_ident)
  then have "nosp (rev r)" using nosp_suffix assms by blast
  moreover have "\<not> nosp (rev (take (space_len_rev x) x))" if "space_len_rev x \<noteq> 0" for x
    using that by (induction x rule: space_len_rev.induct) (auto split: if_splits)
  ultimately show False using a \<open>r = _\<close> by metis
qed

lemma nosp_TrimSpace: "nosp s \<Longrightarrow> TrimSpace s = s"
  by (simp add: TrimSpace_id nosp_space_len nosp_space_len_rev)

lemma FieldsFunc_from_sound:
  "f \<in> set (FieldsFunc_from p acc s) \<Longrightarrow> \<forall>c \<in> set acc. \<not> p c \<Longrightarrow>
     f \<noteq> [] \<and> (\<forall>c \<in> set f. \<not> p c)"
  by (induction p acc s rule: FieldsFunc_from.induct) (auto split: if_splits)

lemma FieldsFunc_from_sep:
  "\<forall>c \<in> set s. \<not> p c \<Longrightarrow> p d \<Longrightarrow>
     FieldsFunc_from p acc (s @ d # t) =
       (if acc = [] \<and> s = [] then [] else [rev acc @ s]) @ FieldsFunc_from p [] t"
  by (induction s arbitrary: acc) auto

lemma FieldsFunc_from_nosep:
  "\<forall>c \<in> set s. \<not> p c \<Longrightarrow>
     FieldsFunc_from p acc s = (if acc = [] \<and> s = [] then [] else [rev acc @ s])"
  by (induction s arbitrary: acc) auto

lemma FieldsFunc_Join:
  "list_all (\<lambda>s. s \<noteq> [] \<and> (\<forall>c \<in> set s. \<not> p c)) ss \<Longrightarrow> p d \<Longrightarrow> FieldsFunc (Join ss d) p = ss"
  unfolding FieldsFunc_def
  by (induction ss d rule: Join.induct)
    (simp_all add: FieldsFunc_from_nosep FieldsFunc_from_sep)

subsection \<open>Facts on the other operations\<close>

lemma Cut_Some_iff: "Cut s d = Some (a, b) \<longleftrightarrow> s = a @ d # b \<and> d \<notin> set a"
proof (induction s arbitrary: a)
  case (Cons c s)
  then show ?case by (cases a) auto
qed simp

lemma Cut_None_iff: "Cut s d = None \<longleftrightarrow> d \<notin> set s"
  by (induction s) auto

lemma HasPrefix_iff: "HasPrefix s p \<longleftrightarrow> prefix p s"
  unfolding HasPrefix_def prefix_def by (metis append_eq_conv_conj append_take_drop_id)

lemma Contains_iff: "Contains s t \<longleftrightarrow> sublist t s"
  by (induction s) (auto simp: HasPrefix_iff sublist_Cons_right)

lemma TrimRight_prefix: "prefix (TrimRight s cs) s"
  unfolding TrimRight_def
  by (metis rev_rev_ident suffix_dropWhile suffix_to_prefix)

lemma length_Join_Cons: "ss \<noteq> [] \<Longrightarrow> Join (s # ss) c = s @ c # Join ss c"
  by (cases ss) auto

lemma Join_snoc: "ss \<noteq> [] \<Longrightarrow> Join (ss @ [s]) c = Join ss c @ c # s"
  by (induction ss c rule: Join.induct) auto

lemma Join_append: "ss \<noteq> [] \<Longrightarrow> ts \<noteq> [] \<Longrightarrow> Join (ss @ ts) c = Join ss c @ c # Join ts c"
  by (induction ss c rule: Join.induct) (auto simp: length_Join_Cons)

lemma set_Join: "set (Join ss c) \<subseteq> (\<Union> (set ` set ss)) \<union> {c}"
  by (induction ss c rule: Join.induct) auto

lemma byte_digit: "n < 16 \<Longrightarrow> byte (digit n) = (if n < 10 then 48 + n else 87 + n)"
  by (simp add: digit_def)

lemma digit_inject: "a < 16 \<Longrightarrow> b < 16 \<Longrightarrow> digit a = digit b \<longleftrightarrow> a = b"
  by (auto simp add: byte_inject [symmetric] byte_digit simp del: of_char_eq_iff split: if_splits)

lemma hex_encode_inject: "hex_encode s = hex_encode t \<longleftrightarrow> s = t"
proof (induction s arbitrary: t)
  case Nil
  then show ?case by (cases t) (auto simp: hex_encode_def)
next
  case (Cons c s)
  show ?case
  proof (cases t)
    case Nil
    then show ?thesis by (simp add: hex_encode_def)
  next
    case (Cons d u)
    have "byte c div 16 < 16" "byte d div 16 < 16" "byte c mod 16 < 16" "byte d mod 16 < 16"
      using byte_less_256 [of c] byte_less_256 [of d] by linarith+
    moreover have "byte c div 16 = byte d div 16 \<and> byte c mod 16 = byte d mod 16 \<longleftrightarrow> c = d"
      by (metis byte_inject mod_div_decomp)
    ultimately show ?thesis
      using Cons.IH [of u] Cons by (auto simp: hex_encode_def digit_inject)
  qed
qed

end
