(* ===== verification/Go_Runes.thy ===== *)
theory Go_Runes
  imports Go_Strings
begin

text \<open>
  Runes and UTF-8 as Go has them: \<open>decode_rune\<close> is one step of \<^verbatim>\<open>range\<close> over a
  string (an invalid byte reads as U+FFFD of width 1), \<open>encode_rune\<close> is
  \<^verbatim>\<open>WriteRune\<close> and the conversion \<^verbatim>\<open>string(rune)\<close> (an invalid rune is
  written as U+FFFD). Decoding inverts encoding on every valid rune, whatever follows.
\<close>

definition cont :: "nat \<Rightarrow> nat \<Rightarrow> nat \<Rightarrow> bool" where
  "cont lo hi b \<longleftrightarrow> lo \<le> b \<and> b \<le> hi"

definition runeError :: nat where
  "runeError = 0xFFFD"

text \<open>The first rune of a non-empty string and its width in bytes.\<close>

definition decode_rune :: "string \<Rightarrow> nat \<times> nat" where
  "decode_rune s =
     (let b = (\<lambda>i. if i < length s then byte (s ! i) else 0);
          b0 = b 0
      in if b0 < 0x80 then (b0, 1)
         else if 0xC2 \<le> b0 \<and> b0 \<le> 0xDF \<and> cont 0x80 0xBF (b 1)
         then ((b0 - 0xC0) * 64 + (b 1 - 0x80), 2)
         else if 0xE0 \<le> b0 \<and> b0 \<le> 0xEF
              \<and> cont (if b0 = 0xE0 then 0xA0 else 0x80) (if b0 = 0xED then 0x9F else 0xBF) (b 1)
              \<and> cont 0x80 0xBF (b 2)
         then ((b0 - 0xE0) * 4096 + (b 1 - 0x80) * 64 + (b 2 - 0x80), 3)
         else if 0xF0 \<le> b0 \<and> b0 \<le> 0xF4
              \<and> cont (if b0 = 0xF0 then 0x90 else 0x80) (if b0 = 0xF4 then 0x8F else 0xBF) (b 1)
              \<and> cont 0x80 0xBF (b 2) \<and> cont 0x80 0xBF (b 3)
         then ((b0 - 0xF0) * 262144 + (b 1 - 0x80) * 4096 + (b 2 - 0x80) * 64 + (b 3 - 0x80), 4)
         else (runeError, 1))"

definition encode_rune :: "nat \<Rightarrow> string" where
  "encode_rune r =
     (if r < 0x80 then [char_of r]
      else if r < 0x800 then [char_of (0xC0 + r div 64), char_of (0x80 + r mod 64)]
      else if 0x110000 \<le> r \<or> 0xD800 \<le> r \<and> r \<le> 0xDFFF then [CHR 0xEF, CHR 0xBF, CHR 0xBD]
      else if r < 0x10000 then [char_of (0xE0 + r div 4096), char_of (0x80 + r div 64 mod 64), char_of (0x80 + r mod 64)]
      else [char_of (0xF0 + r div 262144), char_of (0x80 + r div 4096 mod 64), char_of (0x80 + r div 64 mod 64),
            char_of (0x80 + r mod 64)])"

lemma decode_rune_width: "1 \<le> snd (decode_rune s)"
  by (simp add: decode_rune_def Let_def)

lemma byte_char_of: "n < 256 \<Longrightarrow> byte (char_of n) = n"
  by simp

lemma decode_ascii: "byte c < 0x80 \<Longrightarrow> decode_rune (c # s) = (byte c, 1)"
  by (simp add: decode_rune_def)

definition valid_rune :: "nat \<Rightarrow> bool" where
  "valid_rune r \<longleftrightarrow> r < 0x110000 \<and> \<not> (0xD800 \<le> r \<and> r \<le> 0xDFFF)"

lemma encode_rune_length: "1 \<le> length (encode_rune r) \<and> length (encode_rune r) \<le> 4"
  by (simp add: encode_rune_def)

lemma encode_rune_nonempty [simp]: "encode_rune r \<noteq> []"
  using encode_rune_length [of r] by auto

lemma decode_rune_2:
  "0xC2 \<le> byte c0 \<Longrightarrow> byte c0 \<le> 0xDF \<Longrightarrow> cont 0x80 0xBF (byte c1) \<Longrightarrow>
   decode_rune (c0 # c1 # s) = ((byte c0 - 0xC0) * 64 + (byte c1 - 0x80), 2)"
  by (simp add: decode_rune_def)

lemma decode_rune_3:
  "0xE0 \<le> byte c0 \<Longrightarrow> byte c0 \<le> 0xEF \<Longrightarrow>
   cont (if byte c0 = 0xE0 then 0xA0 else 0x80) (if byte c0 = 0xED then 0x9F else 0xBF) (byte c1) \<Longrightarrow> cont 0x80 0xBF (byte c2) \<Longrightarrow>
   decode_rune (c0 # c1 # c2 # s) = ((byte c0 - 0xE0) * 4096 + (byte c1 - 0x80) * 64 + (byte c2 - 0x80), 3)"
  by (simp add: decode_rune_def)

lemma decode_rune_4:
  "0xF0 \<le> byte c0 \<Longrightarrow> byte c0 \<le> 0xF4 \<Longrightarrow>
   cont (if byte c0 = 0xF0 then 0x90 else 0x80) (if byte c0 = 0xF4 then 0x8F else 0xBF) (byte c1) \<Longrightarrow>
   cont 0x80 0xBF (byte c2) \<Longrightarrow> cont 0x80 0xBF (byte c3) \<Longrightarrow>
   decode_rune (c0 # c1 # c2 # c3 # s) =
     ((byte c0 - 0xF0) * 262144 + (byte c1 - 0x80) * 4096 + (byte c2 - 0x80) * 64 + (byte c3 - 0x80), 4)"
  by (simp add: decode_rune_def)

text \<open>The base-64 digits of a rune.\<close>

lemma digits64: "r = r div 64 * 64 + r mod 64" "r = r div 4096 * 4096 + r div 64 mod 64 * 64 + r mod 64"
  "r = r div 262144 * 262144 + r div 4096 mod 64 * 4096 + r div 64 mod 64 * 64 + r mod (64 :: nat)"
proof -
  have d: "r div 4096 = r div 64 div 64" "r div 262144 = r div 64 div 64 div 64"
    using div_mult2_eq [of r 64 64] div_mult2_eq [of r 4096 64] by simp_all
  note e = div_mult_mod_eq [of r 64] div_mult_mod_eq [of "r div 64" 64] div_mult_mod_eq [of "r div 64 div 64" 64]
  show "r = r div 64 * 64 + r mod 64" by (rule e(1) [symmetric])
  show "r = r div 4096 * 4096 + r div 64 mod 64 * 64 + r mod 64" unfolding d using e(1,2) by linarith
  show "r = r div 262144 * 262144 + r div 4096 mod 64 * 4096 + r div 64 mod 64 * 64 + r mod 64"
    unfolding d using e by linarith
qed

lemma decode_encode_rune:
  assumes "valid_rune r"
  shows "decode_rune (encode_rune r @ s) = (r, length (encode_rune r))"
proof -
  consider "r < 0x80" | "0x80 \<le> r" "r < 0x800" | "0x800 \<le> r" "r < 0x10000" | "0x10000 \<le> r" "r < 0x110000"
    using assms unfolding valid_rune_def by linarith
  then show ?thesis
  proof cases
    case 1
    then show ?thesis by (simp add: encode_rune_def decode_rune_def)
  next
    case 2
    have b: "2 \<le> r div 64" "r div 64 < 32" "r mod 64 < 64" using 2 by auto
    have e: "encode_rune r = [char_of (0xC0 + r div 64), char_of (0x80 + r mod 64)]" using 2 by (simp add: encode_rune_def)
    have y: "byte (char_of (0xC0 + r div 64)) = 0xC0 + r div 64" "byte (char_of (0x80 + r mod 64)) = 0x80 + r mod 64"
      using b by (intro byte_char_of; linarith)+
    show ?thesis unfolding e append.simps
      by (subst decode_rune_2) (use b digits64(1) [of r] in \<open>simp_all only: y cont_def, auto\<close>)
  next
    case 3
    have b: "r div 4096 < 16" "r div 64 mod 64 < 64" "r mod 64 < 64" using 3 by auto
    have lo: "0x20 \<le> r div 64 mod 64" if "r div 4096 = 0" using that 3 b digits64(2) [of r] by linarith
    have hi: "r div 64 mod 64 < 0x20" if "r div 4096 = 13" using that assms b digits64(2) [of r] unfolding valid_rune_def by linarith
    have e: "encode_rune r = [char_of (0xE0 + r div 4096), char_of (0x80 + r div 64 mod 64), char_of (0x80 + r mod 64)]"
      using 3 assms by (auto simp: encode_rune_def valid_rune_def)
    have y: "byte (char_of (0xE0 + r div 4096)) = 0xE0 + r div 4096"
      "byte (char_of (0x80 + r div 64 mod 64)) = 0x80 + r div 64 mod 64" "byte (char_of (0x80 + r mod 64)) = 0x80 + r mod 64"
      using b by (intro byte_char_of; linarith)+
    show ?thesis unfolding e append.simps
      by (subst decode_rune_3) (use b lo hi digits64(2) [of r] in \<open>simp_all only: y cont_def, auto\<close>)
  next
    case 4
    define p q m n where pqmn: "p = r div 262144" "q = r div 4096 mod 64" "m = r div 64 mod 64" "n = r mod 64"
    have b: "p < 5" "q < 64" "m < 64" "n < 64" using 4 unfolding pqmn by auto
    have r: "r = p * 262144 + q * 4096 + m * 64 + n" using digits64(3) [of r] unfolding pqmn .
    have lo: "0x10 \<le> q" if "p = 0" using that 4 b r by linarith
    have hi: "q < 0x10" if "p = 4" using that 4 b r by linarith
    have e: "encode_rune r = [char_of (0xF0 + p), char_of (0x80 + q), char_of (0x80 + m), char_of (0x80 + n)]"
      using 4 by (simp add: encode_rune_def pqmn)
    have y: "byte (char_of (0xF0 + p)) = 0xF0 + p" "byte (char_of (0x80 + q)) = 0x80 + q"
      "byte (char_of (0x80 + m)) = 0x80 + m" "byte (char_of (0x80 + n)) = 0x80 + n"
      using b by (intro byte_char_of; linarith)+
    have "cont (if 0xF0 + p = 0xF0 then 0x90 else 0x80) (if 0xF0 + p = 0xF4 then 0x8F else 0xBF) (0x80 + q)"
      using b(1,2) lo hi by (auto simp: cont_def)
    then show ?thesis unfolding e append.simps
      by (subst decode_rune_4) (use b(1,3,4) r in \<open>simp_all only: y cont_def, simp_all\<close>)
  qed
qed

end
