(* ===== verification/Session_Assembler.thy ===== *)
theory Session_Assembler
  imports Go_Runes
begin

text \<open>
  \<^verbatim>\<open>internal/session/assembler.go\<close>: lines from a stream of chunks, and the removal of
  control characters.

  Shown: the cap on lines and buffer, that the lines do not depend on how the stream is cut into
  chunks (up to empty lines), and that no control byte gets through.
\<close>

definition MaxLine :: nat where
  "MaxLine = 512"

record line_assembler =
  la_max :: nat
  la_buf :: string
  la_overflow :: bool

definition NewLineAssembler :: "int \<Rightarrow> line_assembler" where
  "NewLineAssembler mx = \<lparr>la_max = (if mx \<le> 0 then MaxLine else nat mx), la_buf = [], la_overflow = False\<rparr>"

definition eoln :: "char \<Rightarrow> bool" where
  "eoln c \<longleftrightarrow> c = CHR 0x0D \<or> c = CHR 0x0A"

definition reset :: "line_assembler \<Rightarrow> line_assembler" where
  "reset a = a\<lparr>la_buf := [], la_overflow := False\<rparr>"

definition put_byte :: "line_assembler \<Rightarrow> char \<Rightarrow> line_assembler" where
  "put_byte a c =
     (if la_overflow a then a
      else if length (la_buf a) \<ge> la_max a then a\<lparr>la_overflow := True\<rparr>
      else a\<lparr>la_buf := la_buf a @ [c]\<rparr>)"

fun Feed :: "line_assembler \<Rightarrow> string \<Rightarrow> string list \<times> line_assembler" where
  "Feed a [] = ([], a)"
| "Feed a [c] = (if eoln c then ([la_buf a], reset a) else ([], put_byte a c))"
| "Feed a (c # d # s) =
     (if eoln c then
        (if eoln d \<and> d \<noteq> c
         then (let (out, a') = Feed (reset a) s in (la_buf a # out, a'))
         else (let (out, a') = Feed (reset a) (d # s) in (la_buf a # out, a')))
      else Feed (put_byte a c) (d # s))"

definition Pending :: "line_assembler \<Rightarrow> bool" where
  "Pending a \<longleftrightarrow> length (la_buf a) > 0 \<or> la_overflow a"

subsection \<open>Control characters\<close>

function sanitise :: "string \<Rightarrow> string" where
  "sanitise [] = []"
| "sanitise (c # s) =
     (let (r, w) = decode_rune (c # s); rest = sanitise (drop w (c # s))
      in if r = 9 then CHR '' '' # rest
         else if r < 0x20 \<or> r = 0x7F then rest
         else encode_rune r @ rest)"
  by pat_completeness auto
termination
proof (relation "measure length", goal_cases)
  case (2 c s x r w)
  then have "1 \<le> w" using decode_rune_width [of "c # s"] by (metis snd_conv)
  then show ?case by simp
qed simp

declare sanitise.simps(2) [simp del]

subsection \<open>The cap\<close>

definition asm_ok :: "line_assembler \<Rightarrow> bool" where
  "asm_ok a \<longleftrightarrow> length (la_buf a) \<le> la_max a"

lemma reset_sel [simp]: "la_buf (reset a) = []" "la_overflow (reset a) = False" "la_max (reset a) = la_max a" "reset (reset a) = reset a"
  by (simp_all add: reset_def)

lemma put_byte_ok: "asm_ok a \<Longrightarrow> asm_ok (put_byte a c) \<and> la_max (put_byte a c) = la_max a"
  by (auto simp: put_byte_def asm_ok_def)

lemma Feed_ok:
  "asm_ok a \<Longrightarrow> asm_ok (snd (Feed a s)) \<and> la_max (snd (Feed a s)) = la_max a \<and> (\<forall>l \<in> set (fst (Feed a s)). length l \<le> la_max a)"
proof (induction a s rule: Feed.induct)
  case (2 a c)
  then show ?case using put_byte_ok [of a c] by (auto simp: asm_ok_def)
next
  case (3 a c d s)
  have r: "asm_ok (reset a)" by (simp add: asm_ok_def)
  show ?case
    using 3 r put_byte_ok [OF "3.prems", of c] "3.prems" by (auto simp: Let_def split_def asm_ok_def)
qed simp

subsection \<open>Chunks\<close>

text \<open>What a caller that ignores empty lines sees: the other lines and the final state.\<close>

definition seen_lines :: "string list \<times> line_assembler \<Rightarrow> string list \<times> line_assembler" where
  "seen_lines p = (filter (\<lambda>l. l \<noteq> []) (fst p), snd p)"

lemma Feed_eoln:
  "eoln c \<Longrightarrow> Feed a (c # s) =
     (let s' = (case s of [] \<Rightarrow> [] | d # s'' \<Rightarrow> if eoln d \<and> d \<noteq> c then s'' else s);
          (out, a') = Feed (reset a) s' in (la_buf a # out, a'))"
  by (cases s) (auto simp: Let_def)

lemma Feed_byte: "\<not> eoln c \<Longrightarrow> Feed a (c # s) = Feed (put_byte a c) s"
  by (cases s) auto

text \<open>At the start of a line a terminator only makes empty lines.\<close>

lemma seen_leading_eoln: "eoln c \<Longrightarrow> seen_lines (Feed (reset a) (c # s)) = seen_lines (Feed (reset a) s)"
proof (induction s arbitrary: c rule: length_induct)
  case (1 s)
  show ?case
  proof (cases s)
    case Nil
    then show ?thesis using 1 by (simp add: seen_lines_def)
  next
    case (Cons d s')
    show ?thesis
    proof (cases "eoln d \<and> d \<noteq> c")
      case True
      have "seen_lines (Feed (reset a) (c # s)) = seen_lines (Feed (reset a) s')"
        using True 1(2) by (simp add: Cons Let_def split_def seen_lines_def)
      also have "\<dots> = seen_lines (Feed (reset a) (d # s'))" using 1(1) True Cons by simp
      finally show ?thesis by (simp add: Cons)
    next
      case False
      then show ?thesis using 1(2) by (auto simp: Cons Let_def split_def seen_lines_def)
    qed
  qed
qed

lemma seen_Cons: "seen_lines (let (out, a') = p in (l # out, a')) = (if l = [] then seen_lines p else (l # fst (seen_lines p), snd p))"
  by (auto simp: seen_lines_def split_def)

lemma Feed_append:
  "seen_lines (Feed a (x @ y)) =
     (fst (seen_lines (Feed a x)) @ fst (seen_lines (Feed (snd (Feed a x)) y)), snd (seen_lines (Feed (snd (Feed a x)) y)))"
proof (induction a x rule: Feed.induct)
  case (1 a)
  then show ?case by (simp add: seen_lines_def)
next
  case (2 a c)
  show ?case
  proof (cases "eoln c")
    case False
    then show ?thesis by (simp add: Feed_byte seen_lines_def)
  next
    case True
    have "seen_lines (Feed a (c # y)) = (if la_buf a = [] then seen_lines (Feed (reset a) y)
        else (la_buf a # fst (seen_lines (Feed (reset a) y)), snd (seen_lines (Feed (reset a) y))))"
    proof (cases y)
      case Nil
      then show ?thesis using True by (simp add: seen_lines_def)
    next
      case (Cons d y')
      show ?thesis
      proof (cases "eoln d \<and> d \<noteq> c")
        case pair: True
        then have "seen_lines (Feed (reset a) y) = seen_lines (Feed (reset a) y')"
          by (simp add: Cons seen_leading_eoln)
        then show ?thesis using pair True by (auto simp: Cons Let_def split_def seen_lines_def)
      next
        case False
        then show ?thesis using True by (auto simp: Cons Let_def split_def seen_lines_def)
      qed
    qed
    then show ?thesis using True by (auto simp: seen_lines_def)
  qed
next
  case (3 a c d s)
  then show ?case by (auto simp: Let_def split_def seen_lines_def)
qed

fun FeedAll :: "line_assembler \<Rightarrow> string list \<Rightarrow> string list \<times> line_assembler" where
  "FeedAll a [] = ([], a)"
| "FeedAll a (c # cs) = (let (out, a) = Feed a c; (out', a) = FeedAll a cs in (out @ out', a))"

lemma FeedAll_concat: "seen_lines (FeedAll a cs) = seen_lines (Feed a (concat cs))"
proof (induction cs arbitrary: a)
  case (Cons c cs)
  have "seen_lines (Feed a (c @ concat cs)) =
      (fst (seen_lines (Feed a c)) @ fst (seen_lines (FeedAll (snd (Feed a c)) cs)), snd (seen_lines (FeedAll (snd (Feed a c)) cs)))"
    using Feed_append [of a c "concat cs"] Cons by simp
  then show ?case by (simp add: seen_lines_def split_def Let_def)
qed (simp add: seen_lines_def)

text \<open>
  C35: how the bytes are cut into packets does not matter. Fed chunk by chunk, the
  assembler yields the same non-empty lines and ends in the same state as on the whole stream; no
  line and no buffer is ever longer than the cap.
\<close>

theorem Feed_chunks:
  assumes "length (la_buf a) \<le> la_max a"
  shows "filter (\<lambda>l. l \<noteq> '''') (fst (FeedAll a cs)) = filter (\<lambda>l. l \<noteq> '''') (fst (Feed a (concat cs)))
    \<and> snd (FeedAll a cs) = snd (Feed a (concat cs))
    \<and> length (la_buf (snd (FeedAll a cs))) \<le> la_max a
    \<and> (\<forall>l \<in> set (fst (FeedAll a cs)). length l \<le> la_max a)"
proof -
  have e: "filter (\<lambda>l. l \<noteq> '''') (fst (FeedAll a cs)) = filter (\<lambda>l. l \<noteq> '''') (fst (Feed a (concat cs)))"
    "snd (FeedAll a cs) = snd (Feed a (concat cs))"
    using FeedAll_concat [of a cs] by (simp_all add: seen_lines_def)
  have ok: "asm_ok (snd (Feed a (concat cs)))" "la_max (snd (Feed a (concat cs))) = la_max a"
    "\<forall>l \<in> set (fst (Feed a (concat cs))). length l \<le> la_max a"
    using Feed_ok [of a "concat cs"] assms by (simp_all add: asm_ok_def)
  have "length l \<le> la_max a" if "l \<in> set (fst (FeedAll a cs))" for l
  proof (cases "l = ''''")
    case False
    then have "l \<in> set (filter (\<lambda>l. l \<noteq> '''') (fst (Feed a (concat cs))))" using that by (simp add: e(1) [symmetric])
    then show ?thesis using ok(3) by simp
  qed simp
  with e ok show ?thesis by (simp add: asm_ok_def)
qed

theorem Feed_chunks_witness:
  "filter (\<lambda>l. l \<noteq> '''') (fst (FeedAll (NewLineAssembler 0) [''hel'', ''lo'' @ [CHR 0x0D], [CHR 0x0A] @ ''x'' @ [CHR 0x0A]])) = [''hello'', ''x'']"
proof -
  have "length (la_buf (NewLineAssembler 0)) \<le> la_max (NewLineAssembler 0)" by code_simp
  moreover have "filter (\<lambda>l. l \<noteq> '''') (fst (Feed (NewLineAssembler 0) (concat [''hel'', ''lo'' @ [CHR 0x0D], [CHR 0x0A] @ ''x'' @ [CHR 0x0A]]))) = [''hello'', ''x'']"
    by code_simp
  ultimately show ?thesis using Feed_chunks by metis
qed

subsection \<open>What sanitise lets through\<close>

definition visible :: "char \<Rightarrow> bool" where
  "visible c \<longleftrightarrow> 0x20 \<le> byte c \<and> byte c \<noteq> 0x7F"

lemma encode_rune_visible: "0x20 \<le> r \<Longrightarrow> r \<noteq> 0x7F \<Longrightarrow> c \<in> set (encode_rune r) \<Longrightarrow> visible c"
proof -
  assume r: "0x20 \<le> r" "r \<noteq> 0x7F" and c: "c \<in> set (encode_rune r)"
  consider "r < 0x80" | "0x80 \<le> r" "r < 0x800" | "0x800 \<le> r" "0x110000 \<le> r \<or> 0xD800 \<le> r \<and> r \<le> 0xDFFF"
    | "0x800 \<le> r" "r < 0x10000" "\<not> (0xD800 \<le> r \<and> r \<le> 0xDFFF)" | "0x10000 \<le> r" "r < 0x110000" by linarith
  then show ?thesis
  proof cases
    case 1
    then show ?thesis using r c by (simp add: encode_rune_def visible_def)
  next
    case 2
    then have "r div 64 < 32" "r mod 64 < 64" by auto
    then show ?thesis using c 2 by (auto simp: encode_rune_def visible_def byte_char_of)
  next
    case 3
    then show ?thesis using c by (auto simp: encode_rune_def visible_def)
  next
    case 4
    then have "r div 4096 < 16" "r div 64 mod 64 < 64" "r mod 64 < 64" by auto
    then show ?thesis using c 4 by (auto simp: encode_rune_def visible_def byte_char_of)
  next
    case 5
    then have "r div 262144 < 5" "r div 4096 mod 64 < 64" "r div 64 mod 64 < 64" "r mod 64 < 64" by auto
    then show ?thesis using c 5 by (auto simp: encode_rune_def visible_def byte_char_of)
  qed
qed

lemma sanitise_visible: "c \<in> set (sanitise s) \<Longrightarrow> visible c"
proof (induction s rule: sanitise.induct)
  case (2 b s)
  obtain r w where d: "decode_rune (b # s) = (r, w)" by fastforce
  have IH: "c \<in> set (sanitise (drop w (b # s))) \<Longrightarrow> visible c"
    by (rule "2.IH" [OF d [symmetric] refl])
  consider "r = 9" | "r \<noteq> 9" "r < 0x20 \<or> r = 0x7F" | "0x20 \<le> r" "r \<noteq> 0x7F" by linarith
  then show ?case
  proof cases
    case 3
    then have "c \<in> set (encode_rune r) \<or> c \<in> set (sanitise (drop w (b # s)))"
      using 2(2) d by (auto simp: sanitise.simps)
    then show ?thesis using IH encode_rune_visible [OF 3] by blast
  qed (use 2(2) d IH in \<open>auto simp: sanitise.simps visible_def\<close>)
qed simp

lemma sanitise_ascii: "list_all (\<lambda>c. visible c \<and> byte c < 0x80) s \<Longrightarrow> sanitise s = s"
proof (induction s)
  case (Cons c s)
  then have d: "decode_rune (c # s) = (byte c, 1)" "byte c \<noteq> 9" "\<not> byte c < 0x20" "byte c \<noteq> 0x7F" "byte c < 0x80"
    by (auto simp: decode_ascii visible_def)
  then have "encode_rune (byte c) = [c]" by (simp add: encode_rune_def)
  with d Cons show ?case by (simp add: sanitise.simps Let_def)
qed simp

text \<open>
  Whatever bytes a user sends, the sanitised line holds no control byte (nothing below
  0x20, no DEL), so no CR, LF or Ctrl-A can reach the hub or the wire through a session; printable
  ASCII is unchanged.
\<close>

theorem sanitise_safe:
  "(\<forall>c \<in> set (sanitise s). 0x20 \<le> byte c \<and> byte c \<noteq> 0x7F)
   \<and> (list_all (\<lambda>c. 0x20 \<le> byte c \<and> byte c < 0x7F) t \<longrightarrow> sanitise t = t)"
proof (intro conjI ballI impI)
  show "sanitise t = t" if "list_all (\<lambda>c. 0x20 \<le> byte c \<and> byte c < 0x7F) t"
    by (rule sanitise_ascii) (use that in \<open>auto simp: list_all_iff visible_def\<close>)
qed (auto dest: sanitise_visible simp: visible_def)

theorem sanitise_safe_witness:
  "sanitise ''G8 hi'' = ''G8 hi'' \<and> list_all (\<lambda>c. 0x20 \<le> byte c) (sanitise (''a'' @ [CHR 0x0D, CHR 0x01, CHR 0xFF]))"
proof -
  have "list_all (\<lambda>c. 0x20 \<le> byte c \<and> byte c < 0x7F) ''G8 hi''" by code_simp
  then show ?thesis using sanitise_safe [of "''a'' @ [CHR 0x0D, CHR 0x01, CHR 0xFF]" "''G8 hi''"] by (simp add: list_all_iff)
qed

end
