(* ===== verification/Chat_Model.thy ===== *)
theory Chat_Model
  imports Go_Strings
begin

text \<open>
  The data of \<^verbatim>\<open>internal/chat\<close>: users, nodes, messages and events
  (\<^verbatim>\<open>model.go\<close>, \<^verbatim>\<open>event.go\<close>), the canonical forms of callsigns,
  topics and texts, and the content-derived message id \<open>SynthID\<close>.

  SHA-256 is the argument \<open>H\<close> of \<open>SynthID\<close>: nothing here depends on which hash
  function it is, and a statement that needs two contents to have different digests says so.
\<close>

definition DefaultTopic :: string where
  "DefaultTopic = ''General''"

definition MaxText :: nat where
  "MaxText = 2048"

datatype user_key = UserKey (uk_call: string) (uk_node: string)

instantiation user_key :: linorder
begin

definition less_eq_user_key :: "user_key \<Rightarrow> user_key \<Rightarrow> bool" where
  "less_eq_user_key k l \<longleftrightarrow>
     uk_call k < uk_call l \<or> uk_call k = uk_call l \<and> uk_node k \<le> uk_node l"

definition less_user_key :: "user_key \<Rightarrow> user_key \<Rightarrow> bool" where
  "less_user_key k l \<longleftrightarrow> k \<le> l \<and> \<not> l \<le> (k :: user_key)"

instance
  by standard (auto simp: less_eq_user_key_def less_user_key_def user_key.expand)

end

record origin =
  o_node :: string
  o_local :: bool
  o_link :: string

record user_flags =
  f_echo :: bool
  f_bells :: bool
  f_colour :: bool
  f_showNames :: bool
  f_showTime :: bool

record user =
  u_call :: string
  u_name :: string
  u_qth :: string
  u_origin :: origin
  u_topic :: string
  u_joined :: time
  u_lastActive :: time
  u_flags :: user_flags

definition User_Key :: "user \<Rightarrow> user_key" where
  "User_Key u = UserKey (u_call u) (o_node (u_origin u))"

record node =
  n_call :: string
  n_alias :: string
  n_version :: string
  n_linked :: time

datatype message_kind = KindTopic | KindPrivate

record message =
  m_id :: string
  m_originNode :: string
  m_fromCall :: string
  m_kind :: message_kind
  m_topic :: string
  m_toCall :: string
  m_time :: time
  m_text :: string

datatype event =
    UserJoined user
  | UserLeft user
  | TopicMessage message
  | PrivateMessage message
  | TopicChanged user string
  | UserInfoChanged user
  | NodeLinked node
  | NodeUnlinked node

definition zero_flags :: user_flags where
  "zero_flags = \<lparr>f_echo = False, f_bells = False, f_colour = False, f_showNames = False, f_showTime = False\<rparr>"

text \<open>A \<^verbatim>\<open>chat.User\<close> literal with the fields the callers of \<^verbatim>\<open>Join\<close> set.\<close>

definition mk_user :: "string \<Rightarrow> string \<Rightarrow> string \<Rightarrow> origin \<Rightarrow> user" where
  "mk_user call name qth org =
     \<lparr>u_call = call, u_name = name, u_qth = qth, u_origin = org, u_topic = '''',
      u_joined = 0, u_lastActive = 0, u_flags = zero_flags\<rparr>"

definition normCall :: "string \<Rightarrow> string" where
  "normCall c = ToUpper (TrimSpace c)"

definition normTopicKey :: "string \<Rightarrow> string" where
  "normTopicKey name = ToLower (TrimSpace name)"

definition normText :: "string \<Rightarrow> string" where
  "normText s = TrimSpace s"

fun kind_byte :: "message_kind \<Rightarrow> char" where
  "kind_byte KindTopic = CHR 0x00"
| "kind_byte KindPrivate = CHR 0x01"

text \<open>The bytes \<^verbatim>\<open>SynthID\<close> feeds to the hash.\<close>

definition synth_bytes :: "string \<Rightarrow> string \<Rightarrow> message_kind \<Rightarrow> string \<Rightarrow> string \<Rightarrow> string" where
  "synth_bytes originNode fromCall kind scope text =
     normCall originNode @ [CHR 0x00] @ normCall fromCall @ [CHR 0x00, kind_byte kind, CHR 0x00] @
     ToLower scope @ [CHR 0x00] @ normText text"

definition SynthID :: "(string \<Rightarrow> string) \<Rightarrow> string \<Rightarrow> string \<Rightarrow> message_kind \<Rightarrow> string \<Rightarrow> string \<Rightarrow> string" where
  "SynthID H originNode fromCall kind scope text =
     hex_encode (H (synth_bytes originNode fromCall kind scope text))"

definition canonKey :: "user_key \<Rightarrow> user_key" where
  "canonKey k = UserKey (normCall (uk_call k)) (normCall (uk_node k))"

text \<open>\<^verbatim>\<open>clip\<close> (hub.go) trims and length-caps message text.\<close>

definition clip :: "string \<Rightarrow> string" where
  "clip s0 =
     (let s = TrimRight s0 {CHR 0x0D, CHR 0x0A};
          s = (if length s > MaxText then take MaxText s else s)
      in TrimSpace s)"

subsection \<open>Canonical forms\<close>

lemma mk_user_sel [simp]:
  "u_call (mk_user c n q org) = c" "u_origin (mk_user c n q org) = org" "u_topic (mk_user c n q org) = ''''"
  "u_name (mk_user c n q org) = n" "u_qth (mk_user c n q org) = q"
  by (simp_all add: mk_user_def)

lemma normCall_normCall [simp]: "normCall (normCall c) = normCall c"
  by (simp add: normCall_def TrimSpace_ToUpper)

lemma normTopicKey_normTopicKey [simp]: "normTopicKey (normTopicKey t) = normTopicKey t"
  by (simp add: normTopicKey_def TrimSpace_ToLower)

lemma normTopicKey_TrimSpace [simp]: "normTopicKey (TrimSpace t) = normTopicKey t"
  by (simp add: normTopicKey_def)

lemma canonKey_canonKey [simp]: "canonKey (canonKey k) = canonKey k"
  by (simp add: canonKey_def)

lemma canonKey_sel [simp]: "uk_call (canonKey k) = normCall (uk_call k)"
    "uk_node (canonKey k) = normCall (uk_node k)"
  by (simp_all add: canonKey_def)

lemma normCall_ToUpper [simp]: "normCall (ToUpper s) = normCall s" "ToUpper (normCall s) = normCall s"
  by (simp_all add: normCall_def TrimSpace_ToUpper)

lemma clip_length: "length (clip s) \<le> MaxText"
proof -
  have "length (clip s) \<le> length (if length (TrimRight s {CHR 0x0D, CHR 0x0A}) > MaxText
      then take MaxText (TrimRight s {CHR 0x0D, CHR 0x0A}) else TrimRight s {CHR 0x0D, CHR 0x0A})"
    by (simp add: clip_def Let_def length_TrimSpace)
  then show ?thesis by (simp split: if_splits)
qed

lemma normText_clip [simp]: "normText (clip s) = clip s"
  by (simp add: normText_def clip_def Let_def)

lemma prefix_last_two_cases:
  "TrimRight s cs = s \<longleftrightarrow> s = [] \<or> last s \<notin> cs"
proof (cases s rule: rev_cases)
  case (snoc t c)
  have "length (rev (dropWhile (\<lambda>c. c \<in> cs) (rev t))) \<le> length t"
    by (metis length_dropWhile_le length_rev)
  then have "rev (dropWhile (\<lambda>c. c \<in> cs) (rev t)) \<noteq> t @ [c]"
    by (metis Suc_n_not_le_n length_append_singleton)
  with snoc show ?thesis by (auto simp: TrimRight_def)
qed (simp add: TrimRight_def)

subsection \<open>The hashed content determines the message\<close>

lemma append_NUL_inject:
  "CHR 0x00 \<notin> set a \<Longrightarrow> CHR 0x00 \<notin> set b \<Longrightarrow>
     a @ CHR 0x00 # s = b @ CHR 0x00 # t \<longleftrightarrow> a = b \<and> s = t"
proof (induction a arbitrary: b)
  case Nil
  then show ?case by (cases b) auto
next
  case (Cons c a)
  then show ?case by (cases b) auto
qed

lemma kind_byte_inject [simp]: "kind_byte k = kind_byte l \<longleftrightarrow> k = l"
  by (cases k; cases l) auto

lemma upper_byte_NUL: "upper_byte c = CHR 0x00 \<longleftrightarrow> c = CHR 0x00"
  by (rule upper_byte_eq_other) simp_all

lemma lower_byte_NUL: "lower_byte c = CHR 0x00 \<longleftrightarrow> c = CHR 0x00"
  using byte_lower_byte [of c] by (auto simp add: byte_inject [symmetric] simp del: of_char_eq_iff split: if_splits)

lemma NUL_normCall: "CHR 0x00 \<notin> set s \<Longrightarrow> CHR 0x00 \<notin> set (normCall s)"
  using set_TrimSpace [of s] by (auto simp: normCall_def ToUpper_def dest: upper_byte_NUL [THEN iffD1, OF sym])

lemma NUL_ToLower: "CHR 0x00 \<notin> set s \<Longrightarrow> CHR 0x00 \<notin> set (ToLower s)"
  by (auto simp: ToLower_def dest: lower_byte_NUL [THEN iffD1, OF sym])

lemma synth_bytes_inject:
  assumes "CHR 0x00 \<notin> set n" "CHR 0x00 \<notin> set c" "CHR 0x00 \<notin> set sc"
    and "CHR 0x00 \<notin> set n'" "CHR 0x00 \<notin> set c'" "CHR 0x00 \<notin> set sc'"
  shows "synth_bytes n c k sc t = synth_bytes n' c' k' sc' t' \<longleftrightarrow>
    normCall n = normCall n' \<and> normCall c = normCall c' \<and> k = k' \<and>
    ToLower sc = ToLower sc' \<and> normText t = normText t'"
  using assms by (simp add: synth_bytes_def append_NUL_inject NUL_normCall NUL_ToLower)

end
