(* ===== verification/Chat_Seen.thy ===== *)
theory Chat_Seen
  imports Chat_Model
begin

text \<open>
  The content-hash de-duplication set of \<^verbatim>\<open>internal/chat/seen.go\<close>. Each operation
  takes the reading of the set's clock as its argument \<open>now\<close>; the mutex makes the operations
  atomic, so each is one function.

  The locale \<open>dedup\<close> is the contract its users (the hub and the relay) rest on.
\<close>

definition DefaultSeenTTL :: duration where
  "DefaultSeenTTL = 10 * 60 * second"

record seen_set =
  ss_ttl :: duration
  ss_entries :: "(string, time) gomap"

definition NewSeenSet :: "duration \<Rightarrow> seen_set" where
  "NewSeenSet ttl = \<lparr>ss_ttl = (if ttl \<le> 0 then DefaultSeenTTL else ttl), ss_entries = []\<rparr>"

definition pruneLocked :: "time \<Rightarrow> seen_set \<Rightarrow> seen_set" where
  "pruneLocked now s = s\<lparr>ss_entries := filter (\<lambda>(_, exp). now < exp) (ss_entries s)\<rparr>"

definition SeenSet_Seen :: "time \<Rightarrow> seen_set \<Rightarrow> string \<Rightarrow> bool \<times> seen_set" where
  "SeenSet_Seen now s0 i =
     (let s = pruneLocked now s0;
          s' = s\<lparr>ss_entries := AList.update i (now + ss_ttl s) (ss_entries s)\<rparr>
      in case map_of (ss_entries s) i of
           Some exp \<Rightarrow> if now < exp then (True, s') else (False, s')
         | None \<Rightarrow> (False, s'))"

definition SeenSet_Len :: "time \<Rightarrow> seen_set \<Rightarrow> nat \<times> seen_set" where
  "SeenSet_Len now s0 = (let s = pruneLocked now s0 in (length (ss_entries s), s))"

text \<open>The id is recorded and has not expired at time \<open>t\<close>.\<close>

definition live :: "time \<Rightarrow> seen_set \<Rightarrow> string \<Rightarrow> bool" where
  "live t s i = (case map_of (ss_entries s) i of None \<Rightarrow> False | Some exp \<Rightarrow> t < exp)"

definition seen_inv :: "seen_set \<Rightarrow> bool" where
  "seen_inv s \<longleftrightarrow> gomap (ss_entries s) \<and> 0 < ss_ttl s"

subsection \<open>The operations on the map of expiries\<close>

lemma NewSeenSet_inv: "seen_inv (NewSeenSet ttl)"
  by (simp add: seen_inv_def NewSeenSet_def DefaultSeenTTL_def second_def)

lemma NewSeenSet_sel [simp]:
  "ss_ttl (NewSeenSet ttl) = (if ttl \<le> 0 then DefaultSeenTTL else ttl)" "ss_entries (NewSeenSet ttl) = []"
  by (simp_all add: NewSeenSet_def)

lemma prune_ttl [simp]: "ss_ttl (pruneLocked now s) = ss_ttl s"
  by (simp add: pruneLocked_def)

lemma prune_lookup:
  "seen_inv s \<Longrightarrow> map_of (ss_entries (pruneLocked now s)) i =
     (case map_of (ss_entries s) i of None \<Rightarrow> None | Some e \<Rightarrow> if now < e then Some e else None)"
  by (simp add: pruneLocked_def seen_inv_def map_of_filter_gomap split: option.split)

lemma prune_inv: "seen_inv s \<Longrightarrow> seen_inv (pruneLocked now s)"
  by (simp add: seen_inv_def pruneLocked_def)

lemma Seen_ttl [simp]: "ss_ttl (snd (SeenSet_Seen now s i)) = ss_ttl s"
  by (simp add: SeenSet_Seen_def Let_def split: option.split)

lemma Seen_inv [inv_intros]: "seen_inv s \<Longrightarrow> seen_inv (snd (SeenSet_Seen now s i))"
  by (auto simp: SeenSet_Seen_def Let_def seen_inv_def pruneLocked_def split: option.split)

lemma Seen_answer: "seen_inv s \<Longrightarrow> fst (SeenSet_Seen now s i) = live now s i"
  by (auto simp: SeenSet_Seen_def Let_def live_def prune_lookup split: option.split)

lemma Seen_lookup:
  "seen_inv s \<Longrightarrow> map_of (ss_entries (snd (SeenSet_Seen now s i))) j =
     (if j = i then Some (now + ss_ttl s)
      else case map_of (ss_entries s) j of None \<Rightarrow> None | Some e \<Rightarrow> if now < e then Some e else None)"
  by (auto simp: SeenSet_Seen_def Let_def prune_lookup split: option.split)

lemma live_Seen:
  assumes "seen_inv s"
  shows "live t (snd (SeenSet_Seen now s i)) j \<longleftrightarrow>
    (if j = i then t < now + ss_ttl s else live t s j \<and> live now s j)"
  by (auto simp: live_def Seen_lookup [OF assms] split: option.split)

lemma Len_spec:
  assumes "seen_inv s"
  shows "fst (SeenSet_Len now s) = card {i. live now s i}"
proof -
  let ?es = "ss_entries (pruneLocked now s)"
  have g: "gomap ?es" using prune_inv [OF assms] by (simp add: seen_inv_def)
  have "length ?es = card (fst ` set ?es)"
    using g by (metis distinct_card gomap_def length_map set_map)
  also have "fst ` set ?es = {i. live now s i}"
    unfolding dom_map_of_conv_image_fst [symmetric]
    by (auto simp: dom_def live_def prune_lookup [OF assms] split: option.splits if_splits)
  finally show ?thesis by (simp add: SeenSet_Len_def Let_def)
qed

text \<open>A run of calls, each at its own reading of the clock, with the answers in order.\<close>

primrec calls ::
  "(time \<Rightarrow> 's \<Rightarrow> string \<Rightarrow> bool \<times> 's) \<Rightarrow> (time \<times> string) list \<Rightarrow> 's \<Rightarrow> bool list \<times> 's" where
  "calls seen [] s = ([], s)"
| "calls seen (c # cs) s =
     (let (b, s') = seen (fst c) s (snd c); (bs, s'') = calls seen cs s' in (b # bs, s''))"

lemma snd_calls_append: "snd (calls f (cs @ ds) s) = snd (calls f ds (snd (calls f cs s)))"
  by (induction cs arbitrary: s) (auto simp: split_def Let_def)

subsection \<open>The contract of a de-duplication set\<close>

text \<open>
  \<open>seen\<close> answers whether an id is live and records it; what it recorded stays live for
  \<open>ttl\<close>; other ids are neither added nor lost while they are live.
\<close>

locale dedup =
  fixes seen :: "time \<Rightarrow> 's \<Rightarrow> string \<Rightarrow> bool \<times> 's"
    and alive :: "time \<Rightarrow> 's \<Rightarrow> string \<Rightarrow> bool"
    and ttl :: "'s \<Rightarrow> duration"
    and ok :: "'s \<Rightarrow> bool"
  assumes ok_seen: "ok s \<Longrightarrow> ok (snd (seen now s i))"
    and ttl_seen: "ttl (snd (seen now s i)) = ttl s"
    and answer: "ok s \<Longrightarrow> fst (seen now s i) = alive now s i"
    and recorded: "ok s \<Longrightarrow> t < now + ttl s \<Longrightarrow> alive t (snd (seen now s i)) i"
    and kept: "ok s \<Longrightarrow> now \<le> t \<Longrightarrow> alive t s j \<Longrightarrow> t < now + ttl s \<Longrightarrow> alive t (snd (seen now s i)) j"
    and no_other: "ok s \<Longrightarrow> j \<noteq> i \<Longrightarrow> alive t (snd (seen now s i)) j \<Longrightarrow> alive t s j"
begin

lemma calls_ok: "ok s \<Longrightarrow> ok (snd (calls seen cs s))"
proof (induction cs arbitrary: s)
  case (Cons c cs)
  from Cons.IH [OF ok_seen [OF Cons.prems]] show ?case
    by (simp add: split_def Let_def)
qed simp

lemma calls_ttl: "ttl (snd (calls seen cs s)) = ttl s"
  by (induction cs arbitrary: s) (auto simp: split_def Let_def ttl_seen)

text \<open>What is live stays live through a run whose readings stay within the window.\<close>

lemma calls_alive:
  "ok s \<Longrightarrow> alive t s i \<Longrightarrow> \<forall>c \<in> set cs. fst c \<le> t \<and> t < fst c + ttl s \<Longrightarrow>
     alive t (snd (calls seen cs s)) i"
proof (induction cs arbitrary: s)
  case (Cons c cs)
  have "alive t (snd (seen (fst c) s (snd c))) i"
    using Cons.prems by (intro kept) auto
  from Cons.IH [OF ok_seen [OF Cons.prems(1)] this] Cons.prems(3) show ?case
    by (simp add: split_def Let_def ttl_seen)
qed simp

text \<open>
  Once an id was presented, every later presentation is recognised while the window of the
  first one lasts: this is what stops a record that circulates.
\<close>

theorem seen_again:
  assumes "ok s" and "\<forall>c \<in> set cs. fst c \<le> t \<and> t < fst c + ttl s"
    and "now \<le> t" and "t < now + ttl s"
  shows "fst (seen t (snd (calls seen cs (snd (seen now s i)))) i)"
proof -
  have *: "ok (snd (seen now s i))" using assms(1) by (rule ok_seen)
  have "alive t (snd (seen now s i)) i" using assms(1,4) by (rule recorded)
  with * have "alive t (snd (calls seen cs (snd (seen now s i)))) i"
    using assms(2) by (intro calls_alive) (simp_all add: ttl_seen)
  then show ?thesis by (simp add: answer [OF calls_ok [OF *]])
qed

end

interpretation ss: dedup SeenSet_Seen live ss_ttl seen_inv
proof (unfold_locales, goal_cases)
  case (1 s now i)
  then show ?case by (rule Seen_inv)
next
  case (2 now s i)
  then show ?case by simp
next
  case (3 s now i)
  then show ?case by (rule Seen_answer)
next
  case (4 s t now i)
  then show ?case by (simp add: live_Seen)
next
  case (5 s now t j i)
  then have "live now s j" by (auto simp: live_def split: option.splits)
  with 5 show ?case by (simp add: live_Seen)
next
  case (6 s j i t now)
  then show ?case by (simp add: live_Seen)
qed

subsection \<open>What a call answers, in terms of the calls before it\<close>

definition last_call :: "(time \<times> string) list \<Rightarrow> string \<Rightarrow> time option" where
  "last_call cs i =
     (let xs = filter (\<lambda>c. snd c = i) cs in if xs = [] then None else Some (fst (last xs)))"

lemma last_call_Nil [simp]: "last_call [] i = None"
  by (simp add: last_call_def)

lemma last_call_snoc [simp]: "last_call (cs @ [c]) i = (if snd c = i then Some (fst c) else last_call cs i)"
  by (auto simp: last_call_def Let_def)

lemma live_mono: "live t s i \<Longrightarrow> t' \<le> t \<Longrightarrow> live t' s i"
  by (auto simp: live_def split: option.splits)

lemma live_after_calls:
  assumes "seen_inv s" and "ss_entries s = []"
  shows "sorted (map fst cs) \<Longrightarrow> \<forall>c \<in> set cs. fst c \<le> t \<Longrightarrow>
    live t (snd (calls SeenSet_Seen cs s)) i =
      (case last_call cs i of None \<Rightarrow> False | Some t0 \<Rightarrow> t < t0 + ss_ttl s)"
proof (induction cs arbitrary: t rule: rev_induct)
  case Nil
  then show ?case by (simp add: live_def assms(2))
next
  case (snoc c cs)
  let ?s = "snd (calls SeenSet_Seen cs s)"
  have ok: "seen_inv ?s" using assms(1) by (rule ss.calls_ok)
  have ttl: "ss_ttl ?s = ss_ttl s" by (rule ss.calls_ttl)
  have IH: "live t ?s i = (case last_call cs i of None \<Rightarrow> False | Some t0 \<Rightarrow> t < t0 + ss_ttl s)"
    using snoc by (intro snoc.IH) (auto simp: sorted_append)
  have "live t ?s i \<Longrightarrow> live (fst c) ?s i"
    using snoc.prems(2) by (auto intro: live_mono)
  with IH show ?case
    by (auto simp: snd_calls_append live_Seen [OF ok] ttl split_def Let_def)
qed

text \<open>
  C36: the answer of \<^verbatim>\<open>Seen\<close> on a set that started empty. With a clock that does
  not run backwards, an id is reported as seen exactly when the most recent earlier call for the
  same id was less than the TTL ago.
\<close>

theorem Seen_iff_recent_call:
  assumes "sorted (map fst cs)" and "\<forall>c \<in> set cs. fst c \<le> now"
  shows "fst (SeenSet_Seen now (snd (calls SeenSet_Seen cs (NewSeenSet ttl))) i) \<longleftrightarrow>
    (\<exists>t0. last_call cs i = Some t0 \<and> now < t0 + (if ttl \<le> 0 then DefaultSeenTTL else ttl))"
proof -
  have ok: "seen_inv (snd (calls SeenSet_Seen cs (NewSeenSet ttl)))"
    by (rule ss.calls_ok [OF NewSeenSet_inv])
  have "live now (snd (calls SeenSet_Seen cs (NewSeenSet ttl))) i =
      (case last_call cs i of None \<Rightarrow> False | Some t0 \<Rightarrow> now < t0 + ss_ttl (NewSeenSet ttl))"
    using assms by (intro live_after_calls NewSeenSet_inv) auto
  then show ?thesis
    by (simp add: Seen_answer [OF ok] split: option.splits)
qed

theorem Seen_iff_recent_call_witness:
  "sorted (map fst [(5 :: time, ''a''), (7, ''b'')]) \<and> list_all (\<lambda>c. fst c \<le> 12) [(5 :: time, ''a''), (7, ''b'')] \<and>
   fst (SeenSet_Seen 12 (snd (calls SeenSet_Seen [(5, ''a''), (7, ''b'')] (NewSeenSet 6))) ''b'') \<and>
   \<not> fst (SeenSet_Seen 12 (snd (calls SeenSet_Seen [(5, ''a''), (7, ''b'')] (NewSeenSet 6))) ''a'')"
proof -
  have h: "sorted (map fst [(5 :: time, ''a''), (7, ''b'')])" "\<forall>c \<in> set [(5 :: time, ''a''), (7, ''b'')]. fst c \<le> 12"
    by simp_all
  show ?thesis
    using h Seen_iff_recent_call [OF h, of 6 "''b''"] Seen_iff_recent_call [OF h, of 6 "''a''"]
    by (simp add: last_call_def)
qed

end
