(* ===== verification/Chat_Store.thy ===== *)
theory Chat_Store
  imports Chat_Model
begin

text \<open>
  The persistence seam of \<^verbatim>\<open>internal/chat/store.go\<close>. A Go interface value is a
  state together with its method table: \<open>store_vt\<close> is the method table of
  \<^verbatim>\<open>chat.Store\<close> over a state of type \<open>'s\<close>; \<open>Inl\<close> is a method's error
  return. \<open>MemStore\<close> is the in-memory implementation.

  The locales \<open>config_kv\<close> and \<open>chat_store\<close> are what the callers rely on.
\<close>

record 's store_vt =
  sv_SaveMessage :: "'s \<Rightarrow> message \<Rightarrow> string + 's"
  sv_History :: "'s \<Rightarrow> string \<Rightarrow> time \<Rightarrow> int \<Rightarrow> string + message list"
  sv_PrivateHistory :: "'s \<Rightarrow> string \<Rightarrow> time \<Rightarrow> int \<Rightarrow> string + message list"
  sv_GetConfig :: "'s \<Rightarrow> string \<Rightarrow> string + string option"
  sv_SetConfig :: "'s \<Rightarrow> string \<Rightarrow> string \<Rightarrow> string + 's"

subsection \<open>The in-memory store\<close>

record mem_store =
  ms_msgs :: "message list"
  ms_ids :: "string list"
  ms_config :: "(string, string) gomap"

definition NewMemStore :: mem_store where
  "NewMemStore = \<lparr>ms_msgs = [], ms_ids = [], ms_config = []\<rparr>"

definition MemStore_SaveMessage :: "mem_store \<Rightarrow> message \<Rightarrow> string + mem_store" where
  "MemStore_SaveMessage s m =
     (if m_id m \<in> set (ms_ids s) \<and> m_id m \<noteq> '''' then Inr s
      else let s = (if m_id m \<noteq> '''' then s\<lparr>ms_ids := List.insert (m_id m) (ms_ids s)\<rparr> else s)
           in Inr (s\<lparr>ms_msgs := ms_msgs s @ [m]\<rparr>))"

definition newest :: "int \<Rightarrow> message list \<Rightarrow> message list" where
  "newest limit out = (if limit > 0 \<and> int (length out) > limit then last_n (nat limit) out else out)"

definition MemStore_History :: "mem_store \<Rightarrow> string \<Rightarrow> time \<Rightarrow> int \<Rightarrow> string + message list" where
  "MemStore_History s topic since limit =
     (let key = normTopicKey topic;
          out = filter (\<lambda>m. \<not> (m_kind m \<noteq> KindTopic \<or> normTopicKey (m_topic m) \<noteq> key)
                          \<and> \<not> (\<not> isZero since \<and> m_time m < since)) (ms_msgs s)
      in Inr (newest limit out))"

definition MemStore_PrivateHistory :: "mem_store \<Rightarrow> string \<Rightarrow> time \<Rightarrow> int \<Rightarrow> string + message list" where
  "MemStore_PrivateHistory s call since limit =
     (let want = normCall call;
          out = filter (\<lambda>m. m_kind m = KindPrivate
                          \<and> \<not> (normCall (m_toCall m) \<noteq> want \<and> normCall (m_fromCall m) \<noteq> want)
                          \<and> \<not> (\<not> isZero since \<and> m_time m < since)) (ms_msgs s)
      in Inr (newest limit out))"

definition MemStore_GetConfig :: "mem_store \<Rightarrow> string \<Rightarrow> string + string option" where
  "MemStore_GetConfig s key = Inr (map_of (ms_config s) key)"

definition MemStore_SetConfig :: "mem_store \<Rightarrow> string \<Rightarrow> string \<Rightarrow> string + mem_store" where
  "MemStore_SetConfig s key value = Inr (s\<lparr>ms_config := AList.update key value (ms_config s)\<rparr>)"

definition MemStore :: "mem_store store_vt" where
  "MemStore = \<lparr>sv_SaveMessage = MemStore_SaveMessage, sv_History = MemStore_History,
     sv_PrivateHistory = MemStore_PrivateHistory, sv_GetConfig = MemStore_GetConfig,
     sv_SetConfig = MemStore_SetConfig\<rparr>"

lemma MemStore_sel [simp]:
  "sv_SaveMessage MemStore = MemStore_SaveMessage" "sv_History MemStore = MemStore_History"
  "sv_PrivateHistory MemStore = MemStore_PrivateHistory" "sv_GetConfig MemStore = MemStore_GetConfig"
  "sv_SetConfig MemStore = MemStore_SetConfig"
  by (simp_all add: MemStore_def)

text \<open>The id set holds exactly the non-empty ids of the log, and no id is logged twice.\<close>

definition mem_inv :: "mem_store \<Rightarrow> bool" where
  "mem_inv s \<longleftrightarrow>
     set (ms_ids s) = m_id ` {m \<in> set (ms_msgs s). m_id m \<noteq> ''''}
   \<and> distinct (filter (\<lambda>i. i \<noteq> '''') (map m_id (ms_msgs s)))"

lemma last_newest: "0 < limit \<Longrightarrow> xs \<noteq> [] \<Longrightarrow> newest limit xs \<noteq> [] \<and> last (newest limit xs) = last xs"
  by (auto simp: newest_def last_n_def)

lemma length_newest: "0 < limit \<Longrightarrow> length (newest limit xs) = min (nat limit) (length xs)"
  by (auto simp: newest_def)

lemma newest_suffix: "suffix (newest limit xs) xs"
  using last_n_suffix [of xs "nat limit"] by (auto simp: newest_def suffix_def)

subsection \<open>The contracts\<close>

text \<open>
  \<^verbatim>\<open>GetConfig\<close>/\<^verbatim>\<open>SetConfig\<close>, the key-value seam
  (\<^verbatim>\<open>peer.AllowConfigStore\<close>): a written value is read back, other keys are untouched.
\<close>

locale config_kv =
  fixes get :: "'s \<Rightarrow> string \<Rightarrow> string + string option"
    and put :: "'s \<Rightarrow> string \<Rightarrow> string \<Rightarrow> string + 's"
    and ok :: "'s \<Rightarrow> bool"
  assumes put_ok: "ok s \<Longrightarrow> put s k v = Inr s' \<Longrightarrow> ok s'"
    and get_put: "ok s \<Longrightarrow> put s k v = Inr s' \<Longrightarrow> get s' k' = (if k' = k then Inr (Some v) else get s k')"

text \<open>
  \<^verbatim>\<open>chat.Store\<close>: \<^verbatim>\<open>SaveMessage\<close> appends a message with a fresh id to the
  log and ignores one whose id is already there; the history queries answer only with messages of
  the log that belong to the topic, or involve the callsign. \<open>valid\<close> says which messages a
  store keeps as they are.
\<close>

locale chat_store = config_kv "sv_GetConfig vt" "sv_SetConfig vt" ok
  for vt :: "'s store_vt" and ok :: "'s \<Rightarrow> bool" +
  fixes msgs :: "'s \<Rightarrow> message list" and valid :: "message \<Rightarrow> bool"
  assumes save_ok: "ok s \<Longrightarrow> valid m \<Longrightarrow> sv_SaveMessage vt s m = Inr s' \<Longrightarrow> ok s'"
    and save_msgs: "ok s \<Longrightarrow> valid m \<Longrightarrow> sv_SaveMessage vt s m = Inr s' \<Longrightarrow>
      msgs s' = (if m_id m \<in> m_id ` set (msgs s) then msgs s else msgs s @ [m])"
    and save_config: "ok s \<Longrightarrow> valid m \<Longrightarrow> sv_SaveMessage vt s m = Inr s' \<Longrightarrow>
      sv_GetConfig vt s' k = sv_GetConfig vt s k"
    and history_sound: "ok s \<Longrightarrow> sv_History vt s topic since limit = Inr ms \<Longrightarrow> m \<in> set ms \<Longrightarrow>
      m \<in> set (msgs s) \<and> m_kind m = KindTopic \<and> normTopicKey (m_topic m) = normTopicKey topic"
    and history_limit: "ok s \<Longrightarrow> sv_History vt s topic since limit = Inr ms \<Longrightarrow> 0 < limit \<Longrightarrow> int (length ms) \<le> limit"
    and private_sound: "ok s \<Longrightarrow> sv_PrivateHistory vt s call since limit = Inr ms \<Longrightarrow> m \<in> set ms \<Longrightarrow>
      m \<in> set (msgs s) \<and> m_kind m = KindPrivate \<and> (normCall (m_toCall m) = normCall call \<or> normCall (m_fromCall m) = normCall call)"
begin

text \<open>Saving is idempotent and never loses a message.\<close>

lemma save_twice:
  assumes "ok s" "valid m" "sv_SaveMessage vt s m = Inr s'" "valid m'" "m_id m' = m_id m"
    and "sv_SaveMessage vt s' m' = Inr s''"
  shows "msgs s'' = msgs s'"
proof -
  have "ok s'" using assms by (blast intro: save_ok)
  moreover have "m_id m \<in> m_id ` set (msgs s')" using assms save_msgs [OF assms(1-3)] by auto
  ultimately show ?thesis using save_msgs [of s' m' s''] assms by simp
qed

lemma save_keeps:
  assumes "ok s" "valid m" "sv_SaveMessage vt s m = Inr s'"
  shows "set (msgs s) \<subseteq> set (msgs s')" and "m_id m \<in> m_id ` set (msgs s')"
  using save_msgs [OF assms] by auto

lemma save_distinct:
  assumes "ok s" "valid m" "sv_SaveMessage vt s m = Inr s'" "distinct (map m_id (msgs s))"
  shows "distinct (map m_id (msgs s'))"
  using save_msgs [OF assms(1-3)] assms(4) by auto

end

lemma MemStore_Save_eq:
  "mem_inv s \<Longrightarrow> m_id m \<noteq> '''' \<Longrightarrow> MemStore_SaveMessage s m =
     Inr (if m_id m \<in> m_id ` set (ms_msgs s) then s
          else s\<lparr>ms_ids := List.insert (m_id m) (ms_ids s), ms_msgs := ms_msgs s @ [m]\<rparr>)"
  by (auto simp: MemStore_SaveMessage_def mem_inv_def Let_def)

lemma MemStore_Save_inv:
  "mem_inv s \<Longrightarrow> m_id m \<noteq> '''' \<Longrightarrow> MemStore_SaveMessage s m = Inr s' \<Longrightarrow> mem_inv s'"
  by (auto simp: MemStore_Save_eq) (auto simp: mem_inv_def)

interpretation mem_kv: config_kv MemStore_GetConfig MemStore_SetConfig "\<lambda>_. True"
  by unfold_locales (auto simp: MemStore_GetConfig_def MemStore_SetConfig_def)

interpretation mem: chat_store MemStore mem_inv ms_msgs "\<lambda>m. m_id m \<noteq> ''''"
proof (unfold_locales, goal_cases)
  case (1 s k v s')
  then show ?case by (auto simp: MemStore_SetConfig_def mem_inv_def)
next
  case (2 s k v s' k')
  then show ?case using mem_kv.get_put [of s k v s' k'] by simp
next
  case (3 s m s')
  then show ?case by (simp add: MemStore_Save_inv)
next
  case (4 s m s')
  then show ?case by (auto simp: MemStore_Save_eq)
next
  case (5 s m s' k)
  then show ?case by (auto simp: MemStore_Save_eq MemStore_GetConfig_def)
next
  case (6 s topic since limit ms m)
  then have "m \<in> set (newest limit (filter (\<lambda>m. \<not> (m_kind m \<noteq> KindTopic \<or> normTopicKey (m_topic m) \<noteq> normTopicKey topic)
                          \<and> \<not> (\<not> isZero since \<and> m_time m < since)) (ms_msgs s)))"
    by (simp add: MemStore_History_def Let_def)
  then show ?case using set_mono_suffix [OF newest_suffix] by fastforce
next
  case (7 s topic since limit ms)
  then show ?case using length_newest [of limit] by (auto simp: MemStore_History_def Let_def)
next
  case (8 s call since limit ms m)
  then have "m \<in> set (newest limit (filter (\<lambda>m. m_kind m = KindPrivate
                          \<and> \<not> (normCall (m_toCall m) \<noteq> normCall call \<and> normCall (m_fromCall m) \<noteq> normCall call)
                          \<and> \<not> (\<not> isZero since \<and> m_time m < since)) (ms_msgs s)))"
    by (simp add: MemStore_PrivateHistory_def Let_def)
  then show ?case using set_mono_suffix [OF newest_suffix] by fastforce
qed

subsection \<open>What a history query returns\<close>

text \<open>
  A topic message with a fresh id is, once saved, the newest entry of the history of
  its topic under every spelling of the topic's name, the answer is never longer than the
  limit, and the history of every other topic is what it was.
\<close>

theorem MemStore_History_after_save:
  assumes "mem_inv s" and "m_id m \<noteq> ''''" and "m_id m \<notin> m_id ` set (ms_msgs s)"
    and "m_kind m = KindTopic" and "0 < limit"
  shows "\<exists>s'. MemStore_SaveMessage s m = Inr s' \<and>
    (\<forall>t. normTopicKey t = normTopicKey (m_topic m) \<longrightarrow>
       (\<exists>ms. MemStore_History s' t 0 limit = Inr ms \<and> ms \<noteq> [] \<and> last ms = m \<and> length ms \<le> nat limit)) \<and>
    (\<forall>t since. normTopicKey t \<noteq> normTopicKey (m_topic m) \<longrightarrow>
       MemStore_History s' t since limit = MemStore_History s t since limit)"
proof -
  let ?s = "s\<lparr>ms_ids := List.insert (m_id m) (ms_ids s), ms_msgs := ms_msgs s @ [m]\<rparr>"
  have "MemStore_SaveMessage s m = Inr ?s" using assms by (simp add: MemStore_Save_eq)
  moreover have "\<exists>ms. MemStore_History ?s t 0 limit = Inr ms \<and> ms \<noteq> [] \<and> last ms = m \<and> length ms \<le> nat limit"
    if "normTopicKey t = normTopicKey (m_topic m)" for t
    using that assms(4,5) by (auto simp: MemStore_History_def Let_def isZero_def last_newest length_newest)
  moreover have "MemStore_History ?s t since limit = MemStore_History s t since limit"
    if "normTopicKey t \<noteq> normTopicKey (m_topic m)" for t since
    using that by (auto simp: MemStore_History_def Let_def)
  ultimately show ?thesis by blast
qed

definition sample_message :: message where
  "sample_message = \<lparr>m_id = ''a1'', m_originNode = ''M0LTE-4'', m_fromCall = ''G0ABC'', m_kind = KindTopic,
     m_topic = ''General'', m_toCall = '''', m_time = 7, m_text = ''hi''\<rparr>"

theorem MemStore_History_after_save_witness:
  "mem_inv NewMemStore \<and> m_id sample_message \<noteq> '''' \<and> m_id sample_message \<notin> m_id ` set (ms_msgs NewMemStore) \<and>
   m_kind sample_message = KindTopic \<and> (0 :: int) < 100 \<and>
   (\<exists>s' ms. MemStore_SaveMessage NewMemStore sample_message = Inr s' \<and>
      MemStore_History s' ''General'' 0 100 = Inr ms \<and> last ms = sample_message)"
proof -
  have h: "mem_inv NewMemStore" "m_id sample_message \<noteq> ''''"
    "m_id sample_message \<notin> m_id ` set (ms_msgs NewMemStore)" "m_kind sample_message = KindTopic" "(0 :: int) < 100"
    by (simp_all add: mem_inv_def NewMemStore_def sample_message_def)
  have t: "m_topic sample_message = ''General''" by (simp add: sample_message_def)
  show ?thesis using h MemStore_History_after_save [OF h] unfolding t by blast
qed

end
