(* ===== verification/Chat_Hub.thy ===== *)
theory Chat_Hub
  imports Chat_Seen Chat_Store
begin

text \<open>
  \<^verbatim>\<open>internal/chat/hub.go\<close>: the in-RAM authority for users, topics and mesh nodes, and
  the fan-out of events. The record \<open>hub\<close> has the fields of \<^verbatim>\<open>Hub\<close>; the store is
  a state \<open>h_store\<close> with its method table \<open>h_vt\<close>. The injected
  \<^verbatim>\<open>clock\<close> is the sequence \<open>h_clock\<close> of its future readings with the number
  \<open>h_reads\<close> of readings taken so far, so every \<^verbatim>\<open>h.clock()\<close> of the code is one
  reading here, in the same order. \<open>h_hash\<close> is SHA-256.

  The mutexes make each method one atomic step (\<^verbatim>\<open>h.mu\<close> for the state, then
  \<^verbatim>\<open>h.subMu\<close> for the events). A method returns the new hub and its result; a write to
  a nil map, which panics in Go, is the error \<open>NilMapPanic\<close>.

  \<open>hub_inv\<close> is the invariant every operation keeps; \<open>hub_exact\<close> says in addition
  that the membership index holds nobody but the users of each topic.
\<close>

datatype hub_error = ErrNoSuchUser | ErrEmptyText | ErrNoSuchTopic | StoreError string | NilMapPanic

definition subBuffer :: nat where
  "subBuffer = 256"

record 's hub =
  h_ourNode :: string
  h_vt :: "'s store_vt"
  h_store :: 's
  h_seen :: seen_set
  h_hash :: "string \<Rightarrow> string"
  h_clock :: "nat \<Rightarrow> time"
  h_reads :: nat
  h_users :: "(user_key, user) gomap"
  h_topics :: "(string, string) gomap"
  h_member :: "(string, user_key list) gomap"
  h_nodes :: "(string, node) gomap"
  h_subs :: "(nat, event list) gomap"
  h_nextSub :: nat

definition now :: "'s hub \<Rightarrow> time" where
  "now h = h_clock h (h_reads h)"

definition tick :: "'s hub \<Rightarrow> 's hub" where
  "tick h = h\<lparr>h_reads := Suc (h_reads h)\<rparr>"

definition ensureTopicLocked :: "'s hub \<Rightarrow> string \<Rightarrow> string \<times> 's hub" where
  "ensureTopicLocked h name =
     (let key = normTopicKey name
      in case map_of (h_topics h) key of
           Some canon \<Rightarrow> (canon, h)
         | None \<Rightarrow>
             let canon = TrimSpace name
             in (canon, h\<lparr>h_topics := AList.update key canon (h_topics h),
                          h_member := AList.update key [] (h_member h)\<rparr>))"

definition userPresentLocked :: "'s hub \<Rightarrow> string \<Rightarrow> bool" where
  "userPresentLocked h call = list_ex (\<lambda>(k, _). uk_call k = call) (h_users h)"

definition NewHub :: "string \<Rightarrow> 's store_vt \<Rightarrow> 's \<Rightarrow> (string \<Rightarrow> string) \<Rightarrow> (nat \<Rightarrow> time) \<Rightarrow> 's hub" where
  "NewHub ourNode vt store hash clk =
     snd (ensureTopicLocked
       \<lparr>h_ourNode = normCall ourNode, h_vt = vt, h_store = store, h_seen = NewSeenSet DefaultSeenTTL,
        h_hash = hash, h_clock = clk, h_reads = 0, h_users = [], h_topics = [], h_member = [],
        h_nodes = [], h_subs = [], h_nextSub = 0\<rparr> DefaultTopic)"

definition Hub_Seen :: "'s hub \<Rightarrow> string \<Rightarrow> bool \<times> 's hub" where
  "Hub_Seen h i = (let (b, s) = SeenSet_Seen (now h) (h_seen h) i in (b, (tick h)\<lparr>h_seen := s\<rparr>))"

subsection \<open>Subscriptions and fan-out\<close>

definition Hub_Subscribe :: "'s hub \<Rightarrow> nat \<times> 's hub" where
  "Hub_Subscribe h =
     (let i = h_nextSub h
      in (i, h\<lparr>h_nextSub := Suc i, h_subs := AList.update i [] (h_subs h)\<rparr>))"

text \<open>The cancel function \<^verbatim>\<open>Subscribe\<close> returns.\<close>

definition Hub_cancel :: "'s hub \<Rightarrow> nat \<Rightarrow> 's hub" where
  "Hub_cancel h i = h\<lparr>h_subs := AList.delete i (h_subs h)\<rparr>"

text \<open>A non-blocking send on a channel of capacity \<open>subBuffer\<close>: dropped when it is full.\<close>

definition offer :: "event \<Rightarrow> event list \<Rightarrow> event list" where
  "offer e ch = (if length ch < subBuffer then ch @ [e] else ch)"

definition emit :: "event list \<Rightarrow> 's hub \<Rightarrow> 's hub" where
  "emit events h =
     (if events = [] then h
      else h\<lparr>h_subs := map (\<lambda>(i, ch). (i, fold offer events ch)) (h_subs h)\<rparr>)"

text \<open>A subscriber takes the next event from its channel (\<open>None\<close>: nothing buffered).\<close>

definition Hub_recv :: "'s hub \<Rightarrow> nat \<Rightarrow> event option \<times> 's hub" where
  "Hub_recv h i =
     (case map_of (h_subs h) i of
        Some (e # ch) \<Rightarrow> (Some e, h\<lparr>h_subs := AList.update i ch (h_subs h)\<rparr>)
      | _ \<Rightarrow> (None, h))"

subsection \<open>Operations\<close>

text \<open>\<^verbatim>\<open>if m, ok := h.member[k]; ok { delete(m, key) }\<close>\<close>

definition delMember :: "string \<Rightarrow> user_key \<Rightarrow> 's hub \<Rightarrow> 's hub" where
  "delMember k key h =
     (case map_of (h_member h) k of
        Some ks \<Rightarrow> h\<lparr>h_member := AList.update k (removeAll key ks) (h_member h)\<rparr>
      | None \<Rightarrow> h)"

definition setUser :: "user_key \<Rightarrow> user \<Rightarrow> 's hub \<Rightarrow> 's hub" where
  "setUser key u h = h\<lparr>h_users := AList.update key u (h_users h)\<rparr>"

definition Hub_Join :: "'s hub \<Rightarrow> user \<Rightarrow> 's hub \<times> (hub_error + user)" where
  "Hub_Join h u0 =
     (let u = u0\<lparr>u_call := normCall (u_call u0),
                 u_origin := (u_origin u0)\<lparr>o_node := normCall (o_node (u_origin u0))\<rparr>\<rparr>
      in if u_call u = '''' \<or> o_node (u_origin u) = '''' then (h, Inl ErrNoSuchUser)
         else
           let t = now h;
               h = tick h;
               u = (if u_topic u = '''' then u\<lparr>u_topic := DefaultTopic\<rparr> else u);
               u = u\<lparr>u_joined := t, u_lastActive := t\<rparr>;
               (canon, h) = ensureTopicLocked h (u_topic u);
               u = u\<lparr>u_topic := canon\<rparr>;
               h = setUser (User_Key u) u h
           in case map_of (h_member h) (normTopicKey canon) of
                None \<Rightarrow> (h, Inl NilMapPanic)
              | Some ks \<Rightarrow>
                  (emit [UserJoined u]
                     (h\<lparr>h_member := AList.update (normTopicKey canon) (List.insert (User_Key u) ks) (h_member h)\<rparr>),
                   Inr u))"

definition Hub_Leave :: "'s hub \<Rightarrow> user_key \<Rightarrow> 's hub" where
  "Hub_Leave h key0 =
     (let key = canonKey key0
      in case map_of (h_users h) key of
           None \<Rightarrow> h
         | Some u \<Rightarrow>
             emit [UserLeft u]
               (delMember (normTopicKey (u_topic u)) key (h\<lparr>h_users := AList.delete key (h_users h)\<rparr>)))"

text \<open>The tail of \<^verbatim>\<open>Post\<close> and \<^verbatim>\<open>Private\<close>: record the id, persist, fan out.\<close>

definition record_and_emit :: "'s hub \<Rightarrow> message \<Rightarrow> (message \<Rightarrow> event) \<Rightarrow> 's hub \<times> (hub_error + message)" where
  "record_and_emit h m ev =
     (let h = snd (Hub_Seen h (m_id m))
      in case sv_SaveMessage (h_vt h) (h_store h) m of
           Inl e \<Rightarrow> (h, Inl (StoreError e))
         | Inr st \<Rightarrow> (emit [ev m] (h\<lparr>h_store := st\<rparr>), Inr m))"

definition Hub_Post :: "'s hub \<Rightarrow> user_key \<Rightarrow> string \<Rightarrow> 's hub \<times> (hub_error + message)" where
  "Hub_Post h key0 text0 =
     (let text = clip text0
      in if text = '''' then (h, Inl ErrEmptyText)
         else
           let key = canonKey key0
           in case map_of (h_users h) key of
                None \<Rightarrow> (h, Inl ErrNoSuchUser)
              | Some u \<Rightarrow>
                  let topic = u_topic u;
                      h1 = tick (setUser key (u\<lparr>u_lastActive := now h\<rparr>) h);
                      m = \<lparr>m_id = SynthID (h_hash h) (uk_node key) (uk_call key) KindTopic topic text,
                           m_originNode = uk_node key, m_fromCall = uk_call key, m_kind = KindTopic,
                           m_topic = topic, m_toCall = '''', m_time = now h1, m_text = text\<rparr>
                  in record_and_emit (tick h1) m TopicMessage)"

definition Hub_Private :: "'s hub \<Rightarrow> user_key \<Rightarrow> string \<Rightarrow> string \<Rightarrow> 's hub \<times> (hub_error + message)" where
  "Hub_Private h from0 toCall0 text0 =
     (let text = clip text0
      in if text = '''' then (h, Inl ErrEmptyText)
         else
           let from = canonKey from0;
               toCall = normCall toCall0
           in if map_of (h_users h) from = None then (h, Inl ErrNoSuchUser)
              else if \<not> userPresentLocked h toCall then (h, Inl ErrNoSuchUser)
              else
                let m = \<lparr>m_id = SynthID (h_hash h) (uk_node from) (uk_call from) KindPrivate toCall text,
                         m_originNode = uk_node from, m_fromCall = uk_call from, m_kind = KindPrivate,
                         m_topic = '''', m_toCall = toCall, m_time = now h, m_text = text\<rparr>
                in record_and_emit (tick h) m PrivateMessage)"

definition Hub_SetTopic :: "'s hub \<Rightarrow> user_key \<Rightarrow> string \<Rightarrow> 's hub \<times> (hub_error + bool)" where
  "Hub_SetTopic h key0 name =
     (let key = canonKey key0
      in if normTopicKey name = '''' then (h, Inl ErrNoSuchTopic)
         else case map_of (h_users h) key of
           None \<Rightarrow> (h, Inl ErrNoSuchUser)
         | Some u \<Rightarrow>
             if normTopicKey (u_topic u) = normTopicKey name then (h, Inr False)
             else
               let from = u_topic u;
                   h = delMember (normTopicKey from) key h;
                   (canon, h) = ensureTopicLocked h name;
                   u = u\<lparr>u_topic := canon\<rparr>;
                   h = setUser key u h
               in case map_of (h_member h) (normTopicKey canon) of
                    None \<Rightarrow> (h, Inl NilMapPanic)
                  | Some ks \<Rightarrow>
                      (emit [TopicChanged u from]
                         (h\<lparr>h_member := AList.update (normTopicKey canon) (List.insert key ks) (h_member h)\<rparr>),
                       Inr True))"

definition Hub_SetInfo :: "'s hub \<Rightarrow> user_key \<Rightarrow> string \<Rightarrow> string \<Rightarrow> 's hub \<times> (hub_error + bool)" where
  "Hub_SetInfo h key0 name qth =
     (let key = canonKey key0
      in case map_of (h_users h) key of
           None \<Rightarrow> (h, Inl ErrNoSuchUser)
         | Some u \<Rightarrow>
             if u_name u = name \<and> u_qth u = qth then (h, Inr False)
             else let u = u\<lparr>u_name := name, u_qth := qth\<rparr>
                  in (emit [UserInfoChanged u] (setUser key u h), Inr True))"

definition Hub_SetFlags :: "'s hub \<Rightarrow> user_key \<Rightarrow> user_flags \<Rightarrow> 's hub \<times> (hub_error + bool)" where
  "Hub_SetFlags h key0 flags =
     (let key = canonKey key0
      in case map_of (h_users h) key of
           None \<Rightarrow> (h, Inl ErrNoSuchUser)
         | Some u \<Rightarrow>
             if u_flags u = flags then (h, Inr False)
             else let u = u\<lparr>u_flags := flags\<rparr>
                  in (emit [UserInfoChanged u] (setUser key u h), Inr True))"

definition Hub_LinkNode :: "'s hub \<Rightarrow> string \<Rightarrow> string \<Rightarrow> string \<Rightarrow> 's hub \<times> bool" where
  "Hub_LinkNode h call0 alias version =
     (let call = normCall call0
      in if call = '''' then (h, False)
         else
           let t = now h; h = tick h
           in case map_of (h_nodes h) call of
                Some n \<Rightarrow>
                  let n = n\<lparr>n_linked := t\<rparr>;
                      n = (if version \<noteq> '''' then n\<lparr>n_version := version\<rparr> else n)
                  in (h\<lparr>h_nodes := AList.update call n (h_nodes h)\<rparr>, False)
              | None \<Rightarrow>
                  let n = \<lparr>n_call = call, n_alias = alias, n_version = version, n_linked = t\<rparr>
                  in (emit [NodeLinked n] (h\<lparr>h_nodes := AList.update call n (h_nodes h)\<rparr>), True))"

text \<open>The users the drop of \<open>call\<close> takes with it (learned via it, or homed on it).\<close>

definition learnedVia :: "string \<Rightarrow> user \<Rightarrow> bool" where
  "learnedVia call u \<longleftrightarrow> o_link (u_origin u) = call \<or> o_node (u_origin u) = call"

definition dropUser :: "user_key \<times> user \<Rightarrow> 's hub \<Rightarrow> 's hub" where
  "dropUser p h =
     delMember (normTopicKey (u_topic (snd p))) (fst p) (h\<lparr>h_users := AList.delete (fst p) (h_users h)\<rparr>)"

definition Hub_UnlinkNode :: "'s hub \<Rightarrow> string \<Rightarrow> 's hub \<times> bool" where
  "Hub_UnlinkNode h call0 =
     (let call = normCall call0
      in case map_of (h_nodes h) call of
           None \<Rightarrow> (h, False)
         | Some n \<Rightarrow>
             let h1 = h\<lparr>h_nodes := AList.delete call (h_nodes h)\<rparr>;
                 left = filter (\<lambda>(_, u). learnedVia call u) (h_users h1);
                 h2 = fold dropUser left h1
             in (emit (map (\<lambda>(_, u). UserLeft u) left @ [NodeUnlinked n]) h2, True))"

subsection \<open>Queries\<close>

definition Hub_History :: "'s hub \<Rightarrow> string \<Rightarrow> time \<Rightarrow> int \<Rightarrow> string + message list" where
  "Hub_History h topic since limit = sv_History (h_vt h) (h_store h) topic since limit"

definition Hub_PrivateHistory :: "'s hub \<Rightarrow> string \<Rightarrow> time \<Rightarrow> int \<Rightarrow> string + message list" where
  "Hub_PrivateHistory h call since limit = sv_PrivateHistory (h_vt h) (h_store h) call since limit"

definition Hub_User :: "'s hub \<Rightarrow> user_key \<Rightarrow> user option" where
  "Hub_User h key = map_of (h_users h) (canonKey key)"

definition Hub_Users :: "'s hub \<Rightarrow> user list" where
  "Hub_Users h = sort_key User_Key (map snd (h_users h))"

definition Hub_UsersInTopic :: "'s hub \<Rightarrow> string \<Rightarrow> user list" where
  "Hub_UsersInTopic h name =
     (let members = (case map_of (h_member h) (normTopicKey name) of None \<Rightarrow> [] | Some ks \<Rightarrow> ks)
      in sort_key u_call (List.map_filter (map_of (h_users h)) members))"

definition Hub_Topics :: "'s hub \<Rightarrow> (string \<times> nat) list" where
  "Hub_Topics h =
     sort_key fst (map (\<lambda>(key, name).
       (name, case map_of (h_member h) key of None \<Rightarrow> 0 | Some ks \<Rightarrow> length ks)) (h_topics h))"

definition Hub_Nodes :: "'s hub \<Rightarrow> node list" where
  "Hub_Nodes h = sort_key n_call (map snd (h_nodes h))"

end
