(* ===== verification/Chat_Hub_Inv.thy ===== *)
theory Chat_Hub_Inv
  imports Chat_Hub
begin

text \<open>
  The invariants of the hub: what every operation keeps of the user table, the topic table,
  the membership index, the node graph and the subscriber channels, and what the operations do
  to them. \<open>hub_reach\<close> is the step relation of a hub: any sequence of operations.
\<close>

subsection \<open>Fields\<close>

lemma tick_sel [simp]:
  "h_ourNode (tick h) = h_ourNode h" "h_vt (tick h) = h_vt h" "h_store (tick h) = h_store h"
  "h_seen (tick h) = h_seen h" "h_hash (tick h) = h_hash h" "h_clock (tick h) = h_clock h"
  "h_users (tick h) = h_users h" "h_topics (tick h) = h_topics h" "h_member (tick h) = h_member h"
  "h_nodes (tick h) = h_nodes h" "h_subs (tick h) = h_subs h" "h_nextSub (tick h) = h_nextSub h"
  "h_reads (tick h) = Suc (h_reads h)"
  by (simp_all add: tick_def)

lemma emit_sel [simp]:
  "h_ourNode (emit es h) = h_ourNode h" "h_vt (emit es h) = h_vt h" "h_store (emit es h) = h_store h"
  "h_seen (emit es h) = h_seen h" "h_hash (emit es h) = h_hash h" "h_clock (emit es h) = h_clock h"
  "h_users (emit es h) = h_users h" "h_topics (emit es h) = h_topics h" "h_member (emit es h) = h_member h"
  "h_nodes (emit es h) = h_nodes h" "h_nextSub (emit es h) = h_nextSub h" "h_reads (emit es h) = h_reads h"
  by (simp_all add: emit_def)

lemma setUser_sel [simp]:
  "h_ourNode (setUser k u h) = h_ourNode h" "h_vt (setUser k u h) = h_vt h" "h_store (setUser k u h) = h_store h"
  "h_seen (setUser k u h) = h_seen h" "h_hash (setUser k u h) = h_hash h" "h_clock (setUser k u h) = h_clock h"
  "h_users (setUser k u h) = AList.update k u (h_users h)" "h_topics (setUser k u h) = h_topics h"
  "h_member (setUser k u h) = h_member h" "h_nodes (setUser k u h) = h_nodes h"
  "h_subs (setUser k u h) = h_subs h" "h_nextSub (setUser k u h) = h_nextSub h" "h_reads (setUser k u h) = h_reads h"
  by (simp_all add: setUser_def)

lemma delMember_sel [simp]:
  "h_ourNode (delMember t k h) = h_ourNode h" "h_vt (delMember t k h) = h_vt h" "h_store (delMember t k h) = h_store h"
  "h_seen (delMember t k h) = h_seen h" "h_hash (delMember t k h) = h_hash h" "h_clock (delMember t k h) = h_clock h"
  "h_users (delMember t k h) = h_users h" "h_topics (delMember t k h) = h_topics h"
  "h_nodes (delMember t k h) = h_nodes h" "h_subs (delMember t k h) = h_subs h"
  "h_nextSub (delMember t k h) = h_nextSub h" "h_reads (delMember t k h) = h_reads h"
  by (simp_all add: delMember_def split: option.split)

lemma delMember_member [simp]:
  "map_of (h_member (delMember t k h)) t' =
     (if t' = t then map_option (removeAll k) (map_of (h_member h) t) else map_of (h_member h) t')"
  by (auto simp: delMember_def split: option.split)

lemma gomap_delMember [simp]: "gomap (h_member h) \<Longrightarrow> gomap (h_member (delMember t k h))"
  by (auto simp: delMember_def split: option.split)

lemma ensureTopic_sel [simp]:
  "h_ourNode (snd (ensureTopicLocked h t)) = h_ourNode h" "h_vt (snd (ensureTopicLocked h t)) = h_vt h"
  "h_store (snd (ensureTopicLocked h t)) = h_store h" "h_seen (snd (ensureTopicLocked h t)) = h_seen h"
  "h_hash (snd (ensureTopicLocked h t)) = h_hash h" "h_clock (snd (ensureTopicLocked h t)) = h_clock h"
  "h_users (snd (ensureTopicLocked h t)) = h_users h" "h_nodes (snd (ensureTopicLocked h t)) = h_nodes h"
  "h_subs (snd (ensureTopicLocked h t)) = h_subs h" "h_nextSub (snd (ensureTopicLocked h t)) = h_nextSub h"
  "h_reads (snd (ensureTopicLocked h t)) = h_reads h"
  by (simp_all add: ensureTopicLocked_def Let_def split: option.split)

lemma ensureTopic_fst:
  "fst (ensureTopicLocked h t) = (case map_of (h_topics h) (normTopicKey t) of None \<Rightarrow> TrimSpace t | Some c \<Rightarrow> c)"
  by (simp add: ensureTopicLocked_def Let_def split: option.split)

lemma ensureTopic_topics:
  "map_of (h_topics (snd (ensureTopicLocked h t))) =
     (map_of (h_topics h))(normTopicKey t \<mapsto> fst (ensureTopicLocked h t))"
  by (auto simp: ensureTopicLocked_def Let_def split: option.split)

lemma ensureTopic_member:
  "map_of (h_member (snd (ensureTopicLocked h t))) t' =
     (if t' = normTopicKey t \<and> map_of (h_topics h) t' = None then Some [] else map_of (h_member h) t')"
  by (auto simp: ensureTopicLocked_def Let_def split: option.split)

lemma ensureTopic_gomap:
  "gomap (h_topics h) \<Longrightarrow> gomap (h_topics (snd (ensureTopicLocked h t)))"
  "gomap (h_member h) \<Longrightarrow> gomap (h_member (snd (ensureTopicLocked h t)))"
  by (auto simp: ensureTopicLocked_def Let_def split: option.split)

lemma Hub_Seen_sel [simp]:
  "h_ourNode (snd (Hub_Seen h i)) = h_ourNode h" "h_vt (snd (Hub_Seen h i)) = h_vt h"
  "h_store (snd (Hub_Seen h i)) = h_store h" "h_seen (snd (Hub_Seen h i)) = snd (SeenSet_Seen (now h) (h_seen h) i)"
  "h_hash (snd (Hub_Seen h i)) = h_hash h" "h_clock (snd (Hub_Seen h i)) = h_clock h"
  "h_users (snd (Hub_Seen h i)) = h_users h" "h_topics (snd (Hub_Seen h i)) = h_topics h"
  "h_member (snd (Hub_Seen h i)) = h_member h" "h_nodes (snd (Hub_Seen h i)) = h_nodes h"
  "h_subs (snd (Hub_Seen h i)) = h_subs h" "h_nextSub (snd (Hub_Seen h i)) = h_nextSub h"
  "h_reads (snd (Hub_Seen h i)) = Suc (h_reads h)"
  "fst (Hub_Seen h i) = fst (SeenSet_Seen (now h) (h_seen h) i)"
  by (simp_all add: Hub_Seen_def split_def Let_def)

lemma record_and_emit_sel [simp]:
  "h_ourNode (fst (record_and_emit h m ev)) = h_ourNode h" "h_vt (fst (record_and_emit h m ev)) = h_vt h"
  "h_seen (fst (record_and_emit h m ev)) = snd (SeenSet_Seen (now h) (h_seen h) (m_id m))"
  "h_hash (fst (record_and_emit h m ev)) = h_hash h" "h_clock (fst (record_and_emit h m ev)) = h_clock h"
  "h_users (fst (record_and_emit h m ev)) = h_users h" "h_topics (fst (record_and_emit h m ev)) = h_topics h"
  "h_member (fst (record_and_emit h m ev)) = h_member h" "h_nodes (fst (record_and_emit h m ev)) = h_nodes h"
  "h_nextSub (fst (record_and_emit h m ev)) = h_nextSub h" "h_reads (fst (record_and_emit h m ev)) = Suc (h_reads h)"
  by (simp_all add: record_and_emit_def Let_def split: sum.split)

subsection \<open>The invariant\<close>

definition topics_ok :: "'s hub \<Rightarrow> bool" where
  "topics_ok h \<longleftrightarrow>
     gomap (h_topics h) \<and> gomap (h_member h)
   \<and> (\<forall>k c. map_of (h_topics h) k = Some c \<longrightarrow> normTopicKey c = k \<and> TrimSpace c = c)
   \<and> (\<forall>k. map_of (h_member h) k = None \<longleftrightarrow> map_of (h_topics h) k = None)
   \<and> (\<forall>k ks. map_of (h_member h) k = Some ks \<longrightarrow> distinct ks)
   \<and> map_of (h_topics h) (normTopicKey DefaultTopic) = Some DefaultTopic"

text \<open>The user stored under key \<open>k\<close>: its own canonical key, a known topic, listed there.\<close>

definition user_ok :: "'s hub \<Rightarrow> user_key \<Rightarrow> user \<Rightarrow> bool" where
  "user_ok h k u \<longleftrightarrow>
     User_Key u = k \<and> canonKey k = k \<and> uk_call k \<noteq> '''' \<and> uk_node k \<noteq> ''''
   \<and> map_of (h_topics h) (normTopicKey (u_topic u)) = Some (u_topic u)
   \<and> (\<exists>ks. map_of (h_member h) (normTopicKey (u_topic u)) = Some ks \<and> k \<in> set ks)"

definition users_ok :: "'s hub \<Rightarrow> bool" where
  "users_ok h \<longleftrightarrow> gomap (h_users h) \<and> (\<forall>k u. map_of (h_users h) k = Some u \<longrightarrow> user_ok h k u)"

definition nodes_ok :: "'s hub \<Rightarrow> bool" where
  "nodes_ok h \<longleftrightarrow>
     gomap (h_nodes h) \<and> (\<forall>c n. map_of (h_nodes h) c = Some n \<longrightarrow> n_call n = c \<and> normCall c = c \<and> c \<noteq> '''')"

definition subs_ok :: "'s hub \<Rightarrow> bool" where
  "subs_ok h \<longleftrightarrow>
     gomap (h_subs h)
   \<and> (\<forall>i ch. map_of (h_subs h) i = Some ch \<longrightarrow> i < h_nextSub h \<and> length ch \<le> subBuffer)"

definition hub_inv :: "'s hub \<Rightarrow> bool" where
  "hub_inv h \<longleftrightarrow>
     topics_ok h \<and> users_ok h \<and> nodes_ok h \<and> subs_ok h \<and> seen_inv (h_seen h) \<and> normCall (h_ourNode h) = h_ourNode h"

text \<open>The membership index lists, under each topic, only present users whose topic it is.\<close>

definition hub_exact :: "'s hub \<Rightarrow> bool" where
  "hub_exact h \<longleftrightarrow>
     (\<forall>t ks k. map_of (h_member h) t = Some ks \<and> k \<in> set ks \<longrightarrow>
        (\<exists>u. map_of (h_users h) k = Some u \<and> normTopicKey (u_topic u) = t))"

text \<open>The parts depend only on the fields they speak of.\<close>

lemma topics_ok_cong:
  "h_topics h' = h_topics h \<Longrightarrow> h_member h' = h_member h \<Longrightarrow> topics_ok h' = topics_ok h"
  by (simp add: topics_ok_def)

lemma users_ok_cong:
  "h_users h' = h_users h \<Longrightarrow> h_topics h' = h_topics h \<Longrightarrow> h_member h' = h_member h \<Longrightarrow> users_ok h' = users_ok h"
  by (simp add: users_ok_def user_ok_def)

lemma nodes_ok_cong: "h_nodes h' = h_nodes h \<Longrightarrow> nodes_ok h' = nodes_ok h"
  by (simp add: nodes_ok_def)

lemma subs_ok_cong: "h_subs h' = h_subs h \<Longrightarrow> h_nextSub h' = h_nextSub h \<Longrightarrow> subs_ok h' = subs_ok h"
  by (simp add: subs_ok_def)

lemma length_fold_offer: "length ch \<le> subBuffer \<Longrightarrow> length (fold offer es ch) \<le> subBuffer"
  by (induction es arbitrary: ch) (auto simp: offer_def)

lemma emit_subs: "map_of (h_subs (emit es h)) i = map_option (fold offer es) (map_of (h_subs h) i)"
proof -
  have "map_of (map (\<lambda>(i, ch). (i, fold offer es ch)) xs) i = map_option (fold offer es) (map_of xs i)" for xs
    by (induction xs) auto
  then show ?thesis by (simp add: emit_def option.map_id)
qed

lemma emit_gomap: "gomap (h_subs (emit es h)) = gomap (h_subs h)"
  by (simp add: emit_def gomap_def comp_def split_def)

lemma subs_ok_emit [simp]: "subs_ok h \<Longrightarrow> subs_ok (emit es h)"
  by (auto simp: subs_ok_def emit_gomap emit_subs length_fold_offer)

lemmas inv_parts = topics_ok_def users_ok_def user_ok_def nodes_ok_def

text \<open>
  An operation that leaves topics, members, nodes and the node name alone keeps the invariant as
  soon as the users, the channels and the seen-set are right.
\<close>

lemma hub_inv_emit [simp]: "hub_inv (emit es h) \<longleftrightarrow> topics_ok h \<and> users_ok h \<and> nodes_ok h \<and>
    subs_ok (emit es h) \<and> seen_inv (h_seen h) \<and> normCall (h_ourNode h) = h_ourNode h"
  by (simp add: hub_inv_def inv_parts)

lemma hub_invI [intro?]:
  "topics_ok h \<Longrightarrow> users_ok h \<Longrightarrow> nodes_ok h \<Longrightarrow> subs_ok h \<Longrightarrow> seen_inv (h_seen h) \<Longrightarrow>
     normCall (h_ourNode h) = h_ourNode h \<Longrightarrow> hub_inv h"
  by (simp add: hub_inv_def)

lemma hub_invD:
  assumes "hub_inv h"
  shows "topics_ok h" "users_ok h" "nodes_ok h" "subs_ok h" "seen_inv (h_seen h)" "normCall (h_ourNode h) = h_ourNode h"
  using assms by (simp_all add: hub_inv_def)

subsection \<open>The building blocks keep the invariant\<close>

lemma normTopicKey_canon: "topics_ok h \<Longrightarrow> normTopicKey (fst (ensureTopicLocked h t)) = normTopicKey t"
  by (auto simp: ensureTopic_fst topics_ok_def split: option.split)

lemma topics_okD:
  assumes "topics_ok h"
  shows "gomap (h_topics h)" "gomap (h_member h)"
    "map_of (h_topics h) k = Some c \<Longrightarrow> normTopicKey c = k" "map_of (h_topics h) k = Some c \<Longrightarrow> TrimSpace c = c"
    "map_of (h_member h) k = None \<longleftrightarrow> map_of (h_topics h) k = None"
    "map_of (h_member h) k = Some ks \<Longrightarrow> distinct ks"
    "map_of (h_topics h) (normTopicKey DefaultTopic) = Some DefaultTopic"
  using assms by (simp_all add: topics_ok_def)

lemma topics_okI:
  "gomap (h_topics h) \<Longrightarrow> gomap (h_member h) \<Longrightarrow>
   (\<And>k c. map_of (h_topics h) k = Some c \<Longrightarrow> normTopicKey c = k \<and> TrimSpace c = c) \<Longrightarrow>
   (\<And>k. map_of (h_member h) k = None \<longleftrightarrow> map_of (h_topics h) k = None) \<Longrightarrow>
   (\<And>k ks. map_of (h_member h) k = Some ks \<Longrightarrow> distinct ks) \<Longrightarrow>
   map_of (h_topics h) (normTopicKey DefaultTopic) = Some DefaultTopic \<Longrightarrow> topics_ok h"
  unfolding topics_ok_def by blast

lemma ensureTopic_known: "map_of (h_topics h) (normTopicKey t) = Some c \<Longrightarrow> ensureTopicLocked h t = (c, h)"
  by (simp add: ensureTopicLocked_def)

lemma ensureTopic_new: "map_of (h_topics h) (normTopicKey t) = None \<Longrightarrow>
    ensureTopicLocked h t = (TrimSpace t, h\<lparr>h_topics := AList.update (normTopicKey t) (TrimSpace t) (h_topics h),
                          h_member := AList.update (normTopicKey t) [] (h_member h)\<rparr>)"
  by (simp add: ensureTopicLocked_def Let_def)

lemma topics_ok_ensure:
  assumes "topics_ok h"
  shows "topics_ok (snd (ensureTopicLocked h t))"
proof (cases "map_of (h_topics h) (normTopicKey t)")
  case None
  note d = topics_okD [OF assms]
  have ne: "normTopicKey DefaultTopic \<noteq> normTopicKey t" using d(7) None by auto
  show ?thesis
    unfolding ensureTopic_new [OF None]
    by (rule topics_okI) (auto simp: d(1,2,5,7) None ne split: if_splits dest: d(3,4,6))
next
  case (Some c)
  then show ?thesis using assms by (simp add: ensureTopic_known)
qed

lemma member_ensure_Some:
  "topics_ok h \<Longrightarrow> \<exists>ks. map_of (h_member (snd (ensureTopicLocked h t))) (normTopicKey t) = Some ks"
  using topics_okD(5) [of h "normTopicKey t"] by (auto simp: ensureTopic_member)

lemma users_ok_ensure: "topics_ok h \<Longrightarrow> users_ok h \<Longrightarrow> users_ok (snd (ensureTopicLocked h t))"
  unfolding users_ok_def user_ok_def
  by (fastforce simp: ensureTopic_topics ensureTopic_member ensureTopic_fst split: option.splits)

lemma topics_ok_insert:
  "topics_ok h \<Longrightarrow> map_of (h_member h) t = Some ks \<Longrightarrow> distinct ks' \<Longrightarrow>
     topics_ok (h\<lparr>h_member := AList.update t ks' (h_member h)\<rparr>)"
  using topics_okD(5) [of h t] by (auto simp: topics_ok_def)

lemma topics_ok_delMember: "topics_ok h \<Longrightarrow> topics_ok (delMember t k h)"
  by (auto simp: topics_ok_def distinct_removeAll)

lemma users_ok_delete:
  "users_ok h \<Longrightarrow> users_ok (delMember t k (h\<lparr>h_users := AList.delete k (h_users h)\<rparr>))"
  by (fastforce simp: users_ok_def user_ok_def split: if_splits)

text \<open>
  Putting a user into the table and into the member list of its topic, everybody else staying
  where they are.
\<close>

lemma users_ok_place:
  assumes g: "gomap (h_users h)"
    and others: "\<And>k' u'. map_of (h_users h) k' = Some u' \<Longrightarrow> k' \<noteq> k \<Longrightarrow> user_ok h k' u'"
    and k: "User_Key u = k" "canonKey k = k" "uk_call k \<noteq> ''''" "uk_node k \<noteq> ''''"
    and t: "map_of (h_topics h) (normTopicKey (u_topic u)) = Some (u_topic u)"
    and m: "map_of (h_member h) (normTopicKey (u_topic u)) = Some ks"
  shows "users_ok ((setUser k u h)\<lparr>h_member := AList.update (normTopicKey (u_topic u)) (List.insert k ks) (h_member h)\<rparr>)"
    (is "users_ok ?h")
proof -
  have "user_ok ?h k u" using k t m by (simp add: user_ok_def)
  moreover have "user_ok ?h k' u'" if "map_of (h_users h) k' = Some u'" "k' \<noteq> k" for k' u'
    using others [OF that] m by (auto simp: user_ok_def)
  ultimately show ?thesis using g by (simp add: users_ok_def)
qed

lemma users_okD:
  assumes "users_ok h" "map_of (h_users h) k = Some u"
  shows "User_Key u = k" "canonKey k = k" "uk_call k \<noteq> ''''" "uk_node k \<noteq> ''''"
    "map_of (h_topics h) (normTopicKey (u_topic u)) = Some (u_topic u)"
    "\<exists>ks. map_of (h_member h) (normTopicKey (u_topic u)) = Some ks \<and> k \<in> set ks" "user_ok h k u"
  using assms by (auto simp: users_ok_def user_ok_def)

lemma users_ok_gomap: "users_ok h \<Longrightarrow> gomap (h_users h)"
  by (simp add: users_ok_def)

text \<open>Changing a present user's fields other than identity and topic.\<close>

lemma users_ok_modify:
  assumes "users_ok h" "map_of (h_users h) k = Some u" "User_Key u' = User_Key u" "u_topic u' = u_topic u"
  shows "users_ok (setUser k u' h)"
proof -
  have "user_ok (setUser k u' h) k u'"
    using users_okD(7) [OF assms(1,2)] assms(3,4) by (simp add: user_ok_def)
  with assms(1) show ?thesis by (auto simp: users_ok_def user_ok_def)
qed

lemma hub_inv_tick [simp]: "hub_inv (tick h) = hub_inv h"
  by (simp add: hub_inv_def inv_parts subs_ok_def)

lemma hub_inv_cong:
  "h_topics h' = h_topics h \<Longrightarrow> h_member h' = h_member h \<Longrightarrow> h_users h' = h_users h \<Longrightarrow>
   h_nodes h' = h_nodes h \<Longrightarrow> h_subs h' = h_subs h \<Longrightarrow> h_nextSub h' = h_nextSub h \<Longrightarrow>
   h_ourNode h' = h_ourNode h \<Longrightarrow> seen_inv (h_seen h') = seen_inv (h_seen h) \<Longrightarrow> hub_inv h' = hub_inv h"
  using topics_ok_cong [of h' h] users_ok_cong [of h' h] nodes_ok_cong [of h' h] subs_ok_cong [of h' h]
  by (simp add: hub_inv_def)

lemma hub_inv_Seen: "hub_inv h \<Longrightarrow> hub_inv (snd (Hub_Seen h i))"
  using hub_inv_cong [of "snd (Hub_Seen h i)" h] by (simp add: Seen_inv hub_invD(5))

lemma hub_inv_store [simp]: "hub_inv (h\<lparr>h_store := st\<rparr>) = hub_inv h"
  by (simp add: hub_inv_def inv_parts subs_ok_def)

lemma hub_inv_emitI: "hub_inv h \<Longrightarrow> hub_inv (emit es h)"
  by (auto dest: hub_invD)

lemma hub_inv_record: "hub_inv h \<Longrightarrow> hub_inv (fst (record_and_emit h m ev))"
  using hub_inv_Seen [of h "m_id m"] hub_inv_emitI [of "(snd (Hub_Seen h (m_id m)))\<lparr>h_store := st\<rparr>" "[ev m]" for st]
  by (simp add: record_and_emit_def Let_def split: sum.split del: hub_inv_emit)

lemma hub_inv_modify:
  assumes "hub_inv h" "map_of (h_users h) k = Some u" "User_Key u' = User_Key u" "u_topic u' = u_topic u"
  shows "hub_inv (setUser k u' h)"
  using assms users_ok_modify [of h k u u'] hub_invD [OF assms(1)]
  by (simp add: hub_inv_def topics_ok_def nodes_ok_def subs_ok_def)

subsection \<open>Every operation keeps the invariant\<close>

text \<open>The user \<^verbatim>\<open>Join\<close> stores, before its topic gets its canonical name.\<close>

definition joining :: "'s hub \<Rightarrow> user \<Rightarrow> user" where
  "joining h u = u\<lparr>u_call := normCall (u_call u),
     u_origin := (u_origin u)\<lparr>o_node := normCall (o_node (u_origin u))\<rparr>,
     u_topic := (if u_topic u = '''' then DefaultTopic else u_topic u), u_joined := now h, u_lastActive := now h\<rparr>"

definition joined :: "'s hub \<Rightarrow> user \<Rightarrow> user" where
  "joined h u = (joining h u)\<lparr>u_topic := fst (ensureTopicLocked h (u_topic (joining h u)))\<rparr>"

lemma ensureTopic_tick [simp]: "fst (ensureTopicLocked (tick h) t) = fst (ensureTopicLocked h t)"
    "ensureTopicLocked (tick h) t = (fst (ensureTopicLocked h t), tick (snd (ensureTopicLocked h t)))"
  by (simp_all add: ensureTopicLocked_def Let_def tick_def split: option.split)

lemma Join_refused:
  "normCall (u_call u) = '''' \<or> normCall (o_node (u_origin u)) = '''' \<Longrightarrow> Hub_Join h u = (h, Inl ErrNoSuchUser)"
  by (auto simp: Hub_Join_def Let_def)

text \<open>The only other outcome of a join under the invariant is success: the nil map is never hit.\<close>

lemma Join_accepted:
  assumes inv: "hub_inv h" and c: "normCall (u_call u) \<noteq> ''''" "normCall (o_node (u_origin u)) \<noteq> ''''"
  obtains ks where
    "map_of (h_member (snd (ensureTopicLocked h (u_topic (joining h u))))) (normTopicKey (u_topic (joined h u))) = Some ks"
    "Hub_Join h u =
       (emit [UserJoined (joined h u)]
          ((setUser (User_Key (joined h u)) (joined h u) (tick (snd (ensureTopicLocked h (u_topic (joining h u))))))
             \<lparr>h_member := AList.update (normTopicKey (u_topic (joined h u))) (List.insert (User_Key (joined h u)) ks)
                (h_member (snd (ensureTopicLocked h (u_topic (joining h u)))))\<rparr>),
        Inr (joined h u))"
proof -
  let ?h = "snd (ensureTopicLocked h (u_topic (joining h u)))"
  have t: "topics_ok h" using inv by (rule hub_invD)
  have key: "normTopicKey (u_topic (joined h u)) = normTopicKey (u_topic (joining h u))"
    by (simp add: joined_def normTopicKey_canon [OF t])
  obtain ks where ks: "map_of (h_member ?h) (normTopicKey (u_topic (joined h u))) = Some ks"
    using member_ensure_Some [OF t] key by metis
  moreover have "Hub_Join h u =
       (emit [UserJoined (joined h u)]
          ((setUser (User_Key (joined h u)) (joined h u) (tick ?h))
             \<lparr>h_member := AList.update (normTopicKey (u_topic (joined h u))) (List.insert (User_Key (joined h u)) ks)
                (h_member ?h)\<rparr>), Inr (joined h u))"
    using c ks by (auto simp: Hub_Join_def Let_def joined_def joining_def)
  ultimately show ?thesis by (rule that)
qed

lemma joined_sel [simp]:
  "User_Key (joined h u) = canonKey (UserKey (u_call u) (o_node (u_origin u)))"
  "u_call (joined h u) = normCall (u_call u)" "u_name (joined h u) = u_name u" "u_qth (joined h u) = u_qth u"
  "u_flags (joined h u) = u_flags u" "o_link (u_origin (joined h u)) = o_link (u_origin u)"
  "o_node (u_origin (joined h u)) = normCall (o_node (u_origin u))"
  by (simp_all add: joined_def joining_def User_Key_def canonKey_def)

lemma topic_joined:
  "map_of (h_topics (snd (ensureTopicLocked h (u_topic (joining h u))))) (normTopicKey (u_topic (joining h u)))
     = Some (u_topic (joined h u))"
  by (simp add: joined_def ensureTopic_topics)

lemma normTopicKey_joined: "topics_ok h \<Longrightarrow> normTopicKey (u_topic (joined h u)) = normTopicKey (u_topic (joining h u))"
  by (simp add: joined_def normTopicKey_canon)

lemma hub_inv_Join [inv_intros]:
  assumes inv: "hub_inv h"
  shows "hub_inv (fst (Hub_Join h u))"
proof (cases "normCall (u_call u) = '''' \<or> normCall (o_node (u_origin u)) = ''''")
  case True
  then show ?thesis using inv by (simp add: Join_refused)
next
  case False
  let ?h = "snd (ensureTopicLocked h (u_topic (joining h u)))" and ?u = "joined h u"
  note i = hub_invD [OF inv]
  from False inv obtain ks where ks: "map_of (h_member ?h) (normTopicKey (u_topic ?u)) = Some ks"
    and eq: "fst (Hub_Join h u) = emit [UserJoined ?u] ((setUser (User_Key ?u) ?u (tick ?h))
       \<lparr>h_member := AList.update (normTopicKey (u_topic ?u)) (List.insert (User_Key ?u) ks) (h_member ?h)\<rparr>)"
    by (auto elim!: Join_accepted [of h u])
  have u: "users_ok ((setUser (User_Key ?u) ?u (tick ?h))
       \<lparr>h_member := AList.update (normTopicKey (u_topic ?u)) (List.insert (User_Key ?u) ks) (h_member (tick ?h))\<rparr>)"
  proof (rule users_ok_place)
    show "gomap (h_users (tick ?h))" using i(2) by (simp add: users_ok_gomap)
    show "user_ok (tick ?h) k' u'" if "map_of (h_users (tick ?h)) k' = Some u'" for k' u'
      using users_okD(7) [OF users_ok_ensure [OF i(1,2)], where k = k' and u = u'] that by (simp add: user_ok_def)
    show "map_of (h_topics (tick ?h)) (normTopicKey (u_topic ?u)) = Some (u_topic ?u)"
      using topic_joined [of h u] by (simp add: normTopicKey_joined [OF i(1)])
  qed (use False ks in auto)
  have t: "topics_ok (?h\<lparr>h_member := AList.update (normTopicKey (u_topic ?u)) (List.insert (User_Key ?u) ks) (h_member ?h)\<rparr>)"
    using topics_ok_ensure [OF i(1)] ks by (rule topics_ok_insert)
      (use topics_okD(6) [OF topics_ok_ensure [OF i(1)]] ks in auto)
  show ?thesis
    unfolding eq
  proof (rule hub_inv_emitI, rule hub_invI, goal_cases)
    case 1
    show ?case using t by (simp add: topics_ok_def)
  next
    case 2
    show ?case using u by simp
  next
    case 3
    show ?case using i(3) by (simp add: nodes_ok_def)
  next
    case 4
    show ?case using i(4) by (simp add: subs_ok_def)
  qed (use i in auto)
qed

lemma hub_inv_users_topics:
  assumes "hub_inv h" "topics_ok h'" "users_ok h'"
    and "h_nodes h' = h_nodes h" "h_subs h' = h_subs h" "h_nextSub h' = h_nextSub h" "h_seen h' = h_seen h"
    "h_ourNode h' = h_ourNode h"
  shows "hub_inv h'"
  using hub_invD [OF assms(1)] assms(2-) nodes_ok_cong [of h' h] subs_ok_cong [of h' h] by (intro hub_invI) simp_all

lemma hub_inv_Leave [inv_intros]:
  assumes inv: "hub_inv h"
  shows "hub_inv (Hub_Leave h key)"
proof (cases "map_of (h_users h) (canonKey key)")
  case None
  then show ?thesis using inv by (simp add: Hub_Leave_def)
next
  case (Some u)
  note i = hub_invD [OF inv]
  let ?h = "delMember (normTopicKey (u_topic u)) (canonKey key) (h\<lparr>h_users := AList.delete (canonKey key) (h_users h)\<rparr>)"
  have "hub_inv ?h"
  proof (rule hub_inv_users_topics [OF inv])
    show "topics_ok ?h" by (rule topics_ok_delMember) (use i(1) in \<open>simp add: topics_ok_def\<close>)
    show "users_ok ?h" by (rule users_ok_delete [OF i(2)])
  qed simp_all
  then show ?thesis using Some by (simp add: Hub_Leave_def Let_def hub_inv_emitI del: hub_inv_emit)
qed

text \<open>The messages \<^verbatim>\<open>Post\<close> and \<^verbatim>\<open>Private\<close> build.\<close>

definition post_msg :: "'s hub \<Rightarrow> user_key \<Rightarrow> string \<Rightarrow> string \<Rightarrow> message" where
  "post_msg h key topic text =
     \<lparr>m_id = SynthID (h_hash h) (uk_node key) (uk_call key) KindTopic topic text,
      m_originNode = uk_node key, m_fromCall = uk_call key, m_kind = KindTopic,
      m_topic = topic, m_toCall = '''', m_time = h_clock h (Suc (h_reads h)), m_text = text\<rparr>"

definition private_msg :: "'s hub \<Rightarrow> user_key \<Rightarrow> string \<Rightarrow> string \<Rightarrow> message" where
  "private_msg h from toCall text =
     \<lparr>m_id = SynthID (h_hash h) (uk_node from) (uk_call from) KindPrivate toCall text,
      m_originNode = uk_node from, m_fromCall = uk_call from, m_kind = KindPrivate,
      m_topic = '''', m_toCall = toCall, m_time = now h, m_text = text\<rparr>"

lemma Post_eq:
  "Hub_Post h key text =
     (if clip text = '''' then (h, Inl ErrEmptyText)
      else case map_of (h_users h) (canonKey key) of
        None \<Rightarrow> (h, Inl ErrNoSuchUser)
      | Some u \<Rightarrow>
          record_and_emit (tick (tick (setUser (canonKey key) (u\<lparr>u_lastActive := now h\<rparr>) h)))
            (post_msg h (canonKey key) (u_topic u) (clip text)) TopicMessage)"
  by (simp add: Hub_Post_def Let_def post_msg_def now_def split: option.split)

lemma Private_eq:
  "Hub_Private h from toCall text =
     (if clip text = '''' then (h, Inl ErrEmptyText)
      else if map_of (h_users h) (canonKey from) = None \<or> \<not> userPresentLocked h (normCall toCall)
        then (h, Inl ErrNoSuchUser)
      else record_and_emit (tick h) (private_msg h (canonKey from) (normCall toCall) (clip text)) PrivateMessage)"
  by (auto simp: Hub_Private_def Let_def private_msg_def)

lemma hub_inv_Post [inv_intros]:
  assumes inv: "hub_inv h"
  shows "hub_inv (fst (Hub_Post h key text))"
proof -
  have "hub_inv (setUser (canonKey key) (u\<lparr>u_lastActive := now h\<rparr>) h)"
    if "map_of (h_users h) (canonKey key) = Some u" for u
    using inv that by (rule hub_inv_modify) (simp_all add: User_Key_def)
  with inv show ?thesis by (simp add: Post_eq hub_inv_record split: option.split)
qed

lemma hub_inv_Private [inv_intros]: "hub_inv h \<Longrightarrow> hub_inv (fst (Hub_Private h from toCall text))"
  by (simp add: Private_eq hub_inv_record)

lemma hub_inv_SetInfo [inv_intros]:
  assumes inv: "hub_inv h"
  shows "hub_inv (fst (Hub_SetInfo h key name qth))"
proof (cases "map_of (h_users h) (canonKey key)")
  case (Some u)
  then have "hub_inv (setUser (canonKey key) (u\<lparr>u_name := name, u_qth := qth\<rparr>) h)"
    by (rule hub_inv_modify [OF inv]) (simp_all add: User_Key_def)
  with Some inv show ?thesis by (simp add: Hub_SetInfo_def Let_def hub_inv_emitI del: hub_inv_emit)
qed (simp add: Hub_SetInfo_def inv)

lemma hub_inv_SetFlags [inv_intros]:
  assumes inv: "hub_inv h"
  shows "hub_inv (fst (Hub_SetFlags h key flags))"
proof (cases "map_of (h_users h) (canonKey key)")
  case (Some u)
  then have "hub_inv (setUser (canonKey key) (u\<lparr>u_flags := flags\<rparr>) h)"
    by (rule hub_inv_modify [OF inv]) (simp_all add: User_Key_def)
  with Some inv show ?thesis by (simp add: Hub_SetFlags_def Let_def hub_inv_emitI del: hub_inv_emit)
qed (simp add: Hub_SetFlags_def inv)

lemma hub_inv_nodes:
  assumes "hub_inv h" "nodes_ok (h\<lparr>h_nodes := ns\<rparr>)"
  shows "hub_inv (h\<lparr>h_nodes := ns\<rparr>)"
  using assms by (simp add: hub_inv_def topics_ok_def users_ok_def user_ok_def subs_ok_def)

lemma hub_inv_LinkNode [inv_intros]:
  assumes inv: "hub_inv h"
  shows "hub_inv (fst (Hub_LinkNode h call alias version))"
proof -
  have upd: "hub_inv ((tick h)\<lparr>h_nodes := AList.update (normCall call) n (h_nodes h)\<rparr>)"
    if "normCall call \<noteq> ''''" "n_call n = normCall call" for n
    using that hub_invD(3) [OF inv] inv by (intro hub_inv_nodes) (auto simp: nodes_ok_def)
  have known: "n_call n = normCall call" if "map_of (h_nodes h) (normCall call) = Some n" for n
    using that hub_invD(3) [OF inv] by (simp add: nodes_ok_def)
  show ?thesis
    using inv known
    by (auto simp: Hub_LinkNode_def Let_def simp del: hub_inv_emit split: option.split
        intro!: upd hub_inv_emitI)
qed

lemma topics_users_dropUser:
  "topics_ok h \<and> users_ok h \<Longrightarrow> topics_ok (dropUser p h) \<and> users_ok (dropUser p h)"
  unfolding dropUser_def
  by (auto intro!: topics_ok_delMember users_ok_delete) (simp add: topics_ok_def)

lemma dropUser_sel [simp]:
  "h_ourNode (dropUser p h) = h_ourNode h" "h_vt (dropUser p h) = h_vt h" "h_store (dropUser p h) = h_store h"
  "h_seen (dropUser p h) = h_seen h" "h_topics (dropUser p h) = h_topics h" "h_nodes (dropUser p h) = h_nodes h"
  "h_subs (dropUser p h) = h_subs h" "h_nextSub (dropUser p h) = h_nextSub h"
  "h_clock (dropUser p h) = h_clock h" "h_reads (dropUser p h) = h_reads h" "h_hash (dropUser p h) = h_hash h"
  "h_users (dropUser p h) = AList.delete (fst p) (h_users h)"
  by (simp_all add: dropUser_def)

lemma fold_dropUser_sel [simp]:
  "h_ourNode (fold dropUser ps h) = h_ourNode h" "h_vt (fold dropUser ps h) = h_vt h"
  "h_store (fold dropUser ps h) = h_store h" "h_seen (fold dropUser ps h) = h_seen h"
  "h_topics (fold dropUser ps h) = h_topics h" "h_nodes (fold dropUser ps h) = h_nodes h"
  "h_subs (fold dropUser ps h) = h_subs h" "h_nextSub (fold dropUser ps h) = h_nextSub h"
  "h_clock (fold dropUser ps h) = h_clock h" "h_reads (fold dropUser ps h) = h_reads h"
  "h_hash (fold dropUser ps h) = h_hash h"
  by (induction ps arbitrary: h) simp_all

lemma topics_users_fold_dropUser:
  "topics_ok h \<and> users_ok h \<Longrightarrow> topics_ok (fold dropUser ps h) \<and> users_ok (fold dropUser ps h)"
  by (induction ps arbitrary: h) (use topics_users_dropUser in fastforce)+

lemma hub_inv_UnlinkNode [inv_intros]:
  assumes inv: "hub_inv h"
  shows "hub_inv (fst (Hub_UnlinkNode h call))"
proof (cases "map_of (h_nodes h) (normCall call)")
  case None
  then show ?thesis using inv by (simp add: Hub_UnlinkNode_def)
next
  case (Some n)
  let ?h = "h\<lparr>h_nodes := AList.delete (normCall call) (h_nodes h)\<rparr>"
  have h: "hub_inv ?h"
    using hub_invD(3) [OF inv] inv by (intro hub_inv_nodes) (auto simp: nodes_ok_def split: if_splits)
  have "hub_inv (fold dropUser ps ?h)" for ps
    using topics_users_fold_dropUser [of ?h ps] hub_invD [OF h]
    by (intro hub_inv_users_topics [OF h]) auto
  then show ?thesis
    using Some by (simp add: Hub_UnlinkNode_def Let_def hub_inv_emitI del: hub_inv_emit)
qed

lemma user_ok_delMember: "user_ok h k' u' \<Longrightarrow> k' \<noteq> k \<Longrightarrow> user_ok (delMember t k h) k' u'"
  by (auto simp: user_ok_def)

lemma user_ok_ensure: "topics_ok h \<Longrightarrow> user_ok h k u \<Longrightarrow> user_ok (snd (ensureTopicLocked h t)) k u"
  by (auto simp: user_ok_def ensureTopic_topics ensureTopic_member ensureTopic_fst split: option.splits)

text \<open>What a move to another topic does, and that it cannot hit a nil map.\<close>

lemma SetTopic_moves:
  assumes inv: "hub_inv h" and n: "normTopicKey name \<noteq> ''''"
    and u: "map_of (h_users h) (canonKey key) = Some u" and ne: "normTopicKey (u_topic u) \<noteq> normTopicKey name"
  obtains ks canon h2 where
    "h2 = snd (ensureTopicLocked (delMember (normTopicKey (u_topic u)) (canonKey key) h) name)"
    "canon = fst (ensureTopicLocked (delMember (normTopicKey (u_topic u)) (canonKey key) h) name)"
    "normTopicKey canon = normTopicKey name" "topics_ok h2"
    "map_of (h_topics h2) (normTopicKey canon) = Some canon"
    "map_of (h_member h2) (normTopicKey canon) = Some ks"
    "Hub_SetTopic h key name =
       (emit [TopicChanged (u\<lparr>u_topic := canon\<rparr>) (u_topic u)]
          ((setUser (canonKey key) (u\<lparr>u_topic := canon\<rparr>) h2)
             \<lparr>h_member := AList.update (normTopicKey canon) (List.insert (canonKey key) ks) (h_member h2)\<rparr>),
        Inr True)"
proof -
  let ?h1 = "delMember (normTopicKey (u_topic u)) (canonKey key) h"
  let ?h2 = "snd (ensureTopicLocked ?h1 name)" and ?canon = "fst (ensureTopicLocked ?h1 name)"
  have t: "topics_ok ?h1" using hub_invD(1) [OF inv] by (rule topics_ok_delMember)
  have canon: "normTopicKey ?canon = normTopicKey name" using t by (rule normTopicKey_canon)
  obtain ks where ks: "map_of (h_member ?h2) (normTopicKey ?canon) = Some ks"
    using member_ensure_Some [OF t] canon by metis
  show ?thesis
  proof (rule that [of ?h2 ?canon ks])
    show "Hub_SetTopic h key name =
       (emit [TopicChanged (u\<lparr>u_topic := ?canon\<rparr>) (u_topic u)]
          ((setUser (canonKey key) (u\<lparr>u_topic := ?canon\<rparr>) ?h2)
             \<lparr>h_member := AList.update (normTopicKey ?canon) (List.insert (canonKey key) ks) (h_member ?h2)\<rparr>),
        Inr True)"
      using n u ne ks by (simp add: Hub_SetTopic_def Let_def split_def)
  qed (use canon ks topics_ok_ensure [OF t] in \<open>simp_all add: ensureTopic_topics\<close>)
qed

lemma SetTopic_stays:
  "normTopicKey name = '''' \<Longrightarrow> Hub_SetTopic h key name = (h, Inl ErrNoSuchTopic)"
  "normTopicKey name \<noteq> '''' \<Longrightarrow> map_of (h_users h) (canonKey key) = None \<Longrightarrow>
     Hub_SetTopic h key name = (h, Inl ErrNoSuchUser)"
  "normTopicKey name \<noteq> '''' \<Longrightarrow> map_of (h_users h) (canonKey key) = Some u \<Longrightarrow>
     normTopicKey (u_topic u) = normTopicKey name \<Longrightarrow> Hub_SetTopic h key name = (h, Inr False)"
  by (simp_all add: Hub_SetTopic_def Let_def)

lemma hub_inv_SetTopic [inv_intros]:
  assumes inv: "hub_inv h"
  shows "hub_inv (fst (Hub_SetTopic h key name))"
proof (cases "\<exists>u. normTopicKey name \<noteq> '''' \<and> map_of (h_users h) (canonKey key) = Some u \<and>
    normTopicKey (u_topic u) \<noteq> normTopicKey name")
  case False
  then show ?thesis
    using inv by (cases "map_of (h_users h) (canonKey key)") (auto simp: Hub_SetTopic_def Let_def)
next
  case True
  then obtain u where n: "normTopicKey name \<noteq> ''''" and u: "map_of (h_users h) (canonKey key) = Some u"
    and ne: "normTopicKey (u_topic u) \<noteq> normTopicKey name" by blast
  note i = hub_invD [OF inv]
  let ?h1 = "delMember (normTopicKey (u_topic u)) (canonKey key) h"
  obtain ks canon h2 where m: "h2 = snd (ensureTopicLocked ?h1 name)" "topics_ok h2"
    "map_of (h_topics h2) (normTopicKey canon) = Some canon" "map_of (h_member h2) (normTopicKey canon) = Some ks"
    and eq: "fst (Hub_SetTopic h key name) = emit [TopicChanged (u\<lparr>u_topic := canon\<rparr>) (u_topic u)]
          ((setUser (canonKey key) (u\<lparr>u_topic := canon\<rparr>) h2)
             \<lparr>h_member := AList.update (normTopicKey canon) (List.insert (canonKey key) ks) (h_member h2)\<rparr>)"
    using SetTopic_moves [OF inv n u ne] by (metis fst_conv)
  let ?h3 = "(setUser (canonKey key) (u\<lparr>u_topic := canon\<rparr>) h2)
     \<lparr>h_member := AList.update (normTopicKey canon) (List.insert (canonKey key) ks) (h_member h2)\<rparr>"
  have "hub_inv ?h3"
  proof (rule hub_inv_users_topics [OF inv])
    have "topics_ok (h2\<lparr>h_member := AList.update (normTopicKey canon) (List.insert (canonKey key) ks) (h_member h2)\<rparr>)"
      using m(2,4) by (rule topics_ok_insert) (use topics_okD(6) [OF m(2) m(4)] in simp)
    then show "topics_ok ?h3" by (simp add: topics_ok_def)
    have "users_ok ((setUser (canonKey key) (u\<lparr>u_topic := canon\<rparr>) h2)\<lparr>h_member := AList.update
        (normTopicKey (u_topic (u\<lparr>u_topic := canon\<rparr>))) (List.insert (canonKey key) ks) (h_member h2)\<rparr>)"
    proof (rule users_ok_place)
      show "gomap (h_users h2)" using users_ok_gomap [OF i(2)] by (simp add: m(1))
      show "user_ok h2 k' u'" if "map_of (h_users h2) k' = Some u'" "k' \<noteq> canonKey key" for k' u'
        unfolding m(1) by (intro user_ok_ensure topics_ok_delMember i(1) user_ok_delMember users_okD(7) [OF i(2)])
          (use that in \<open>simp_all add: m(1)\<close>)
      show "User_Key (u\<lparr>u_topic := canon\<rparr>) = canonKey key"
        using users_okD(1) [OF i(2) u] by (simp add: User_Key_def)
    qed (use users_okD [OF i(2) u] m in simp_all)
    then show "users_ok ?h3" by simp
  qed (simp_all add: m(1))
  then show ?thesis unfolding eq by (rule hub_inv_emitI)
qed

lemma hub_inv_Subscribe [inv_intros]: "hub_inv h \<Longrightarrow> hub_inv (snd (Hub_Subscribe h))"
  by (auto simp: Hub_Subscribe_def Let_def hub_inv_def topics_ok_def users_ok_def user_ok_def nodes_ok_def
      subs_ok_def less_Suc_eq split: if_splits)

lemma hub_inv_cancel [inv_intros]: "hub_inv h \<Longrightarrow> hub_inv (Hub_cancel h i)"
  by (auto simp: Hub_cancel_def hub_inv_def topics_ok_def users_ok_def user_ok_def nodes_ok_def
      subs_ok_def split: if_splits)

lemma hub_inv_recv [inv_intros]:
  assumes "hub_inv h"
  shows "hub_inv (snd (Hub_recv h i))"
proof -
  have "subs_ok (h\<lparr>h_subs := AList.update i ch (h_subs h)\<rparr>)" if "map_of (h_subs h) i = Some (e # ch)" for e ch
    using that hub_invD(4) [OF assms] by (fastforce simp: subs_ok_def split: if_splits)
  then show ?thesis
    using assms
    by (auto simp: Hub_recv_def hub_inv_def topics_ok_def users_ok_def user_ok_def nodes_ok_def
        split: option.split list.split)
qed

end
