(* ===== verification/Chat_Hub_Spec.thy ===== *)
theory Chat_Hub_Spec
  imports Chat_Hub_Inv
begin

text \<open>
  What the hub guarantees: the invariant in every reachable state, the exactness of the
  membership index and the one operation that loses it, the cascade of a lost link, the
  fan-out of events, and what a post leaves in the log.
\<close>

subsection \<open>Sequences of operations\<close>

datatype hub_op =
    OpJoin user
  | OpLeave user_key
  | OpPost user_key string
  | OpPrivate user_key string string
  | OpSetTopic user_key string
  | OpSetInfo user_key string string
  | OpSetFlags user_key user_flags
  | OpLinkNode string string string
  | OpUnlinkNode string
  | OpSeen string
  | OpSubscribe
  | OpCancel nat
  | OpRecv nat

fun err_of :: "hub_error + 'a \<Rightarrow> hub_error option" where
  "err_of (Inl e) = Some e"
| "err_of (Inr _) = None"

fun hub_do :: "'s hub \<Rightarrow> hub_op \<Rightarrow> 's hub \<times> hub_error option" where
  "hub_do h (OpJoin u) = map_prod id err_of (Hub_Join h u)"
| "hub_do h (OpLeave k) = (Hub_Leave h k, None)"
| "hub_do h (OpPost k t) = map_prod id err_of (Hub_Post h k t)"
| "hub_do h (OpPrivate k c t) = map_prod id err_of (Hub_Private h k c t)"
| "hub_do h (OpSetTopic k n) = map_prod id err_of (Hub_SetTopic h k n)"
| "hub_do h (OpSetInfo k n q) = map_prod id err_of (Hub_SetInfo h k n q)"
| "hub_do h (OpSetFlags k f) = map_prod id err_of (Hub_SetFlags h k f)"
| "hub_do h (OpLinkNode c a v) = (fst (Hub_LinkNode h c a v), None)"
| "hub_do h (OpUnlinkNode c) = (fst (Hub_UnlinkNode h c), None)"
| "hub_do h (OpSeen i) = (snd (Hub_Seen h i), None)"
| "hub_do h OpSubscribe = (snd (Hub_Subscribe h), None)"
| "hub_do h (OpCancel i) = (Hub_cancel h i, None)"
| "hub_do h (OpRecv i) = (snd (Hub_recv h i), None)"

inductive hub_reach :: "'s hub \<Rightarrow> bool" where
  new: "hub_reach (NewHub ourNode vt st hash clk)"
| step: "hub_reach h \<Longrightarrow> hub_reach (fst (hub_do h oper))"

lemma NewHub_inv: "hub_inv (NewHub ourNode vt st hash clk)"
proof -
  have "normTopicKey DefaultTopic = ''general''" "TrimSpace DefaultTopic = DefaultTopic"
    by code_simp+
  then show ?thesis
    by (simp add: NewHub_def ensureTopicLocked_def Let_def hub_inv_def topics_ok_def users_ok_def nodes_ok_def
        subs_ok_def NewSeenSet_inv gomap_def)
qed

lemma hub_do_inv: "hub_inv h \<Longrightarrow> hub_inv (fst (hub_do h oper))"
  by (cases oper) (simp_all add: inv_intros hub_inv_Seen)

lemma record_and_emit_err: "err_of (snd (record_and_emit h m ev)) \<noteq> Some NilMapPanic"
  by (auto simp: record_and_emit_def Let_def split: sum.split)

lemma hub_do_no_panic:
  assumes inv: "hub_inv h"
  shows "snd (hub_do h oper) \<noteq> Some NilMapPanic"
proof (cases oper)
  case (OpJoin u)
  show ?thesis
  proof (cases "normCall (u_call u) = '''' \<or> normCall (o_node (u_origin u)) = ''''")
    case True
    then show ?thesis by (simp add: OpJoin Join_refused)
  next
    case False
    then show ?thesis by (auto simp: OpJoin elim!: Join_accepted [OF inv])
  qed
next
  case (OpSetTopic k n)
  show ?thesis
  proof (cases "\<exists>u. normTopicKey n \<noteq> '''' \<and> map_of (h_users h) (canonKey k) = Some u \<and>
      normTopicKey (u_topic u) \<noteq> normTopicKey n")
    case True
    then show ?thesis by (auto simp: OpSetTopic elim!: SetTopic_moves [OF inv])
  next
    case False
    then show ?thesis by (auto simp: OpSetTopic Hub_SetTopic_def Let_def split: option.split)
  qed
qed (simp_all add: Post_eq Private_eq record_and_emit_err Hub_SetInfo_def Hub_SetFlags_def Let_def split: option.split)

text \<open>
  In every state a hub can reach, whatever the sequence of operations, the store and the
  clock, the invariant holds (every user is stored under its own canonical key, is in a known
  topic under its canonical name and is listed as a member of it; topic table and member index
  have the same keys; General exists; no channel holds more than 256 events), and no operation
  writes to a nil map.
\<close>

theorem hub_reachable_safe:
  assumes "hub_reach h"
  shows "hub_inv h \<and> snd (hub_do h oper) \<noteq> Some NilMapPanic"
proof -
  from assms have "hub_inv h"
    by (induction rule: hub_reach.induct) (auto intro: NewHub_inv hub_do_inv)
  then show ?thesis using hub_do_no_panic by blast
qed

theorem hub_reachable_safe_witness:
  "hub_reach (NewHub ''m0lte-4'' MemStore NewMemStore id int) \<and>
   hub_inv (NewHub ''m0lte-4'' MemStore NewMemStore id int) \<and>
   snd (hub_do (NewHub ''m0lte-4'' MemStore NewMemStore id int) (OpLeave (UserKey ''G0ABC'' ''X''))) \<noteq> Some NilMapPanic"
  using hub_reachable_safe [OF hub_reach.new, of "''m0lte-4''" MemStore NewMemStore id int]
  by (auto intro: hub_reach.new)

subsection \<open>The membership index\<close>

lemma hub_exactD:
  "hub_exact h \<Longrightarrow> map_of (h_member h) t = Some ks \<Longrightarrow> k \<in> set ks \<Longrightarrow>
     \<exists>u. map_of (h_users h) k = Some u \<and> normTopicKey (u_topic u) = t"
  by (auto simp: hub_exact_def)

lemma hub_exactI:
  "(\<And>t ks k. map_of (h_member h) t = Some ks \<Longrightarrow> k \<in> set ks \<Longrightarrow>
     \<exists>u. map_of (h_users h) k = Some u \<and> normTopicKey (u_topic u) = t) \<Longrightarrow> hub_exact h"
  by (auto simp: hub_exact_def)

lemma hub_exact_cong: "h_member h' = h_member h \<Longrightarrow> h_users h' = h_users h \<Longrightarrow> hub_exact h' = hub_exact h"
  by (simp add: hub_exact_def)

lemma hub_exact_emit [simp]: "hub_exact (emit es h) = hub_exact h"
  by (rule hub_exact_cong) simp_all

lemma hub_exact_tick [simp]: "hub_exact (tick h) = hub_exact h"
  by (rule hub_exact_cong) simp_all

lemma hub_exact_record [simp]: "hub_exact (fst (record_and_emit h m ev)) = hub_exact h"
  by (rule hub_exact_cong) simp_all

lemma hub_exact_ensure [simp]: "hub_exact h \<Longrightarrow> hub_exact (snd (ensureTopicLocked h t))"
  by (rule hub_exactI) (auto simp: ensureTopic_member hub_exact_def split: if_splits)

lemma hub_exact_modify:
  "hub_exact h \<Longrightarrow> map_of (h_users h) k = Some u \<Longrightarrow> u_topic u' = u_topic u \<Longrightarrow> hub_exact (setUser k u' h)"
  by (rule hub_exactI) (auto dest: hub_exactD)

text \<open>
  Dropping a user takes it out of the member list of its topic, which is the only one that lists
  it.
\<close>

lemma hub_exact_drop:
  assumes "hub_exact h" "map_of (h_users h) k = Some u"
  shows "hub_exact (delMember (normTopicKey (u_topic u)) k (h\<lparr>h_users := AList.delete k (h_users h)\<rparr>))"
proof (rule hub_exactI, goal_cases)
  case (1 t ks k')
  then have k': "k' \<noteq> k"
    using hub_exactD [OF assms(1)] assms(2) by (fastforce split: if_splits)
  obtain ks0 where "map_of (h_member h) t = Some ks0" "k' \<in> set ks0"
    using 1 by (auto split: if_splits)
  from hub_exactD [OF assms(1) this] k' show ?case by simp
qed

text \<open>Moving or placing a user who is listed nowhere else.\<close>

lemma hub_exact_place:
  assumes "\<And>t ks' k'. map_of (h_member h) t = Some ks' \<Longrightarrow> k' \<in> set ks' \<Longrightarrow> k' \<noteq> k \<Longrightarrow>
      \<exists>u. map_of (h_users h) k' = Some u \<and> normTopicKey (u_topic u) = t"
    and "\<And>t ks'. map_of (h_member h) t = Some ks' \<Longrightarrow> k \<in> set ks' \<Longrightarrow> t = normTopicKey (u_topic u)"
    and "map_of (h_member h) (normTopicKey (u_topic u)) = Some ks"
  shows "hub_exact ((setUser k u h)\<lparr>h_member := AList.update (normTopicKey (u_topic u)) (List.insert k ks) (h_member h)\<rparr>)"
proof (rule hub_exactI, goal_cases)
  case (1 t ks' k')
  show ?case
  proof (cases "k' = k")
    case True
    with 1 assms(2) [of t ks'] show ?thesis by (auto split: if_splits)
  next
    case False
    then obtain ks0 where "map_of (h_member h) t = Some ks0" "k' \<in> set ks0"
      using 1 assms(3) by (auto split: if_splits)
    with assms(1) [OF this] False show ?thesis by auto
  qed
qed

text \<open>A join of an identity that is present in another topic than the one it joins.\<close>

fun moves_by_join :: "'s hub \<Rightarrow> hub_op \<Rightarrow> bool" where
  "moves_by_join h (OpJoin u) =
     (case Hub_User h (UserKey (u_call u) (o_node (u_origin u))) of
        None \<Rightarrow> False
      | Some u' \<Rightarrow> normTopicKey (u_topic u') \<noteq>
                  normTopicKey (if u_topic u = '''' then DefaultTopic else u_topic u))"
| "moves_by_join h oper = False"

lemma hub_exact_Join:
  assumes inv: "hub_inv h" and ex: "hub_exact h" and nj: "\<not> moves_by_join h (OpJoin u)"
  shows "hub_exact (fst (Hub_Join h u))"
proof (cases "normCall (u_call u) = '''' \<or> normCall (o_node (u_origin u)) = ''''")
  case True
  then show ?thesis using ex by (simp add: Join_refused)
next
  case False
  let ?h = "snd (ensureTopicLocked h (u_topic (joining h u)))" and ?u = "joined h u"
  have t: "topics_ok h" using inv by (rule hub_invD)
  from False obtain ks where ks: "map_of (h_member ?h) (normTopicKey (u_topic ?u)) = Some ks"
    and eq: "fst (Hub_Join h u) = emit [UserJoined ?u] ((setUser (User_Key ?u) ?u (tick ?h))
       \<lparr>h_member := AList.update (normTopicKey (u_topic ?u)) (List.insert (User_Key ?u) ks) (h_member (tick ?h))\<rparr>)"
    by (auto elim!: Join_accepted [OF inv, of u])
  have ex': "hub_exact ?h" using ex by simp
  have uk: "canonKey (UserKey (u_call u) (o_node (u_origin u))) = User_Key ?u" by simp
  have here: "t' = normTopicKey (u_topic ?u)"
    if a: "map_of (h_member ?h) t' = Some ks'" and b: "User_Key ?u \<in> set ks'" for t' ks'
  proof -
    obtain u' where u': "map_of (h_users h) (User_Key ?u) = Some u'" "normTopicKey (u_topic u') = t'"
      using hub_exactD [OF ex' a b] by auto
    have "normTopicKey (u_topic ?u) = normTopicKey (if u_topic u = '''' then DefaultTopic else u_topic u)"
      by (simp add: normTopicKey_joined [OF t] joining_def)
    moreover have "Hub_User h (UserKey (u_call u) (o_node (u_origin u))) = Some u'"
      using u' by (simp only: Hub_User_def uk)
    ultimately show ?thesis using nj u' by simp
  qed
  show ?thesis
    unfolding eq hub_exact_emit
    by (rule hub_exact_place) (use hub_exactD [OF ex'] here ks in auto)
qed

lemma hub_exact_SetTopic:
  assumes inv: "hub_inv h" and ex: "hub_exact h"
  shows "hub_exact (fst (Hub_SetTopic h key name))"
proof (cases "\<exists>u. normTopicKey name \<noteq> '''' \<and> map_of (h_users h) (canonKey key) = Some u \<and>
    normTopicKey (u_topic u) \<noteq> normTopicKey name")
  case False
  then show ?thesis
    using ex by (cases "map_of (h_users h) (canonKey key)") (auto simp: Hub_SetTopic_def Let_def)
next
  case True
  then obtain u where n: "normTopicKey name \<noteq> ''''" and u: "map_of (h_users h) (canonKey key) = Some u"
    and ne: "normTopicKey (u_topic u) \<noteq> normTopicKey name" by blast
  let ?h1 = "delMember (normTopicKey (u_topic u)) (canonKey key) h"
  obtain ks canon h2 where m: "h2 = snd (ensureTopicLocked ?h1 name)"
    "map_of (h_member h2) (normTopicKey (u_topic (u\<lparr>u_topic := canon\<rparr>))) = Some ks"
    and eq: "fst (Hub_SetTopic h key name) = emit [TopicChanged (u\<lparr>u_topic := canon\<rparr>) (u_topic u)]
          ((setUser (canonKey key) (u\<lparr>u_topic := canon\<rparr>) h2)
             \<lparr>h_member := AList.update (normTopicKey (u_topic (u\<lparr>u_topic := canon\<rparr>))) (List.insert (canonKey key) ks) (h_member h2)\<rparr>)"
  proof (rule SetTopic_moves [OF inv n u ne], goal_cases)
    case (1 ks canon h2)
    then show ?case by (intro that [of h2 canon ks]) simp_all
  qed
  have nowhere: "canonKey key \<notin> set ks'" if "map_of (h_member h2) t = Some ks'" for t ks'
    using that hub_exactD [OF ex, of t] u by (fastforce simp: m(1) ensureTopic_member split: if_splits)
  have others: "\<exists>u. map_of (h_users h2) k' = Some u \<and> normTopicKey (u_topic u) = t"
    if "map_of (h_member h2) t = Some ks'" "k' \<in> set ks'" for t ks' k'
    using that hub_exactD [OF ex, of t] by (fastforce simp: m(1) ensureTopic_member split: if_splits)
  show ?thesis
    unfolding eq hub_exact_emit
    by (rule hub_exact_place) (use nowhere others m(2) in auto)
qed

text \<open>Where a move leaves the user.\<close>

lemma SetTopic_user:
  assumes inv: "hub_inv h" and n: "normTopicKey name \<noteq> ''''" and u: "Hub_User h key = Some u"
  shows "\<exists>u'. Hub_User (fst (Hub_SetTopic h key name)) key = Some u' \<and> normTopicKey (u_topic u') = normTopicKey name \<and>
    u_name u' = u_name u \<and> u_qth u' = u_qth u \<and> u_origin u' = u_origin u"
proof (cases "normTopicKey (u_topic u) = normTopicKey name")
  case True
  then show ?thesis using SetTopic_stays(3) [OF n u [unfolded Hub_User_def]] u by simp
next
  case False
  show ?thesis
  proof (rule SetTopic_moves [OF inv n u [unfolded Hub_User_def] False], goal_cases)
    case (1 ks canon h2)
    show ?case unfolding 1(7) by (simp add: Hub_User_def 1(3))
  qed
qed

lemma hub_exact_dropUser:
  "hub_exact h \<Longrightarrow> map_of (h_users h) k = Some u \<Longrightarrow> hub_exact (dropUser (k, u) h)"
  by (simp add: dropUser_def hub_exact_drop)

lemma hub_exact_fold_dropUser:
  "hub_exact h \<Longrightarrow> distinct (map fst ps) \<Longrightarrow> (\<And>k u. (k, u) \<in> set ps \<Longrightarrow> map_of (h_users h) k = Some u) \<Longrightarrow>
     hub_exact (fold dropUser ps h)"
proof (induction ps arbitrary: h)
  case (Cons p ps)
  obtain k u where p: "p = (k, u)" by (cases p)
  have "hub_exact (dropUser p h)" using Cons.prems by (simp add: p hub_exact_dropUser)
  then show ?case
  proof (simp, intro Cons.IH)
    show "map_of (h_users (dropUser p h)) k' = Some u'" if "(k', u') \<in> set ps" for k' u'
    proof -
      have "k' \<in> fst ` set ps" using that by force
      then have "k' \<noteq> k" using Cons.prems(2) by (auto simp: p)
      then show ?thesis using that Cons.prems(3) by (simp add: p)
    qed
  qed (use Cons.prems(2) in auto)
qed simp

lemma learned_users:
  assumes "hub_inv h"
  shows "distinct (map fst (filter P (h_users h)))"
    and "(k, u) \<in> set (filter P (h_users h)) \<Longrightarrow> map_of (h_users h) k = Some u"
  using users_ok_gomap [OF hub_invD(2) [OF assms]]
  by (auto simp: gomap_def distinct_map_filter)

lemma hub_exact_UnlinkNode:
  assumes inv: "hub_inv h" and ex: "hub_exact h"
  shows "hub_exact (fst (Hub_UnlinkNode h call))"
proof (cases "map_of (h_nodes h) (normCall call)")
  case (Some n)
  have "hub_exact (fold dropUser (filter (\<lambda>(_, u). learnedVia (normCall call) u) (h_users h))
      (h\<lparr>h_nodes := AList.delete (normCall call) (h_nodes h)\<rparr>))"
    by (intro hub_exact_fold_dropUser)
      (use ex learned_users [OF inv] in \<open>auto simp: hub_exact_def\<close>)
  with Some show ?thesis by (simp add: Hub_UnlinkNode_def Let_def)
qed (use ex in \<open>simp add: Hub_UnlinkNode_def\<close>)

lemma hub_exact_Leave: "hub_exact h \<Longrightarrow> hub_exact (Hub_Leave h key)"
  by (simp add: Hub_Leave_def Let_def hub_exact_drop split: option.split)

lemma hub_exact_do:
  assumes inv: "hub_inv h" and ex: "hub_exact h" and nj: "\<not> moves_by_join h oper"
  shows "hub_exact (fst (hub_do h oper))"
proof (cases oper)
  case (OpJoin u)
  then show ?thesis using hub_exact_Join [OF inv ex] nj by simp
next
  case (OpSetTopic k n)
  then show ?thesis using hub_exact_SetTopic [OF inv ex] by simp
next
  case (OpUnlinkNode c)
  then show ?thesis using hub_exact_UnlinkNode [OF inv ex] by simp
next
  case (OpLinkNode c a v)
  then show ?thesis
    using ex by (auto simp: Hub_LinkNode_def Let_def split: option.split) (simp_all add: hub_exact_def)
next
  case (OpSeen i)
  have "hub_exact (snd (Hub_Seen h i)) = hub_exact h" by (rule hub_exact_cong) simp_all
  then show ?thesis using ex OpSeen by simp
qed (use ex in \<open>auto simp: hub_exact_Leave Post_eq Private_eq Hub_SetInfo_def Hub_SetFlags_def Let_def Hub_Subscribe_def
    Hub_cancel_def Hub_recv_def hub_exact_modify split: option.split list.split intro: hub_exact_cong [THEN iffD2]\<close>)

inductive tidy_reach :: "'s hub \<Rightarrow> bool" where
  new: "tidy_reach (NewHub ourNode vt st hash clk)"
| step: "tidy_reach h \<Longrightarrow> \<not> moves_by_join h oper \<Longrightarrow> tidy_reach (fst (hub_do h oper))"

lemma NewHub_exact: "hub_exact (NewHub ourNode vt st hash clk)"
  by (auto simp: NewHub_def ensureTopicLocked_def Let_def hub_exact_def)

lemma tidy_reach_exact: "tidy_reach h \<Longrightarrow> hub_inv h \<and> hub_exact h"
  by (induction rule: tidy_reach.induct) (auto intro: NewHub_inv NewHub_exact hub_do_inv hub_exact_do)

text \<open>The users a topic lists, from its member list.\<close>

lemma set_map_filter: "set (List.map_filter f xs) = {y. \<exists>x\<in>set xs. f x = Some y}"
  by (induction xs) (auto simp: List.map_filter_simps split: option.split)

lemma length_map_filter: "\<forall>x\<in>set xs. f x \<noteq> None \<Longrightarrow> length (List.map_filter f xs) = length xs"
  by (induction xs) (auto simp: List.map_filter_simps split: option.split)

lemma distinct_map_filter_inj:
  "distinct xs \<Longrightarrow> (\<And>x x' y. f x = Some y \<Longrightarrow> f x' = Some y \<Longrightarrow> x = x') \<Longrightarrow> distinct (List.map_filter f xs)"
  by (induction xs) (auto simp: List.map_filter_simps set_map_filter split: option.split)

lemma Users_set: "gomap (h_users h) \<Longrightarrow> u \<in> set (Hub_Users h) \<longleftrightarrow> (\<exists>k. map_of (h_users h) k = Some u)"
  by (force simp: Hub_Users_def gomap_def)

lemma UsersInTopic_set:
  "u \<in> set (Hub_UsersInTopic h name) \<longleftrightarrow>
     (\<exists>ks k. map_of (h_member h) (normTopicKey name) = Some ks \<and> k \<in> set ks \<and> map_of (h_users h) k = Some u)"
  by (cases "map_of (h_member h) (normTopicKey name)") (auto simp: Hub_UsersInTopic_def set_map_filter)

lemma UsersInTopic_exact:
  assumes inv: "hub_inv h" and ex: "hub_exact h"
  shows "set (Hub_UsersInTopic h name) = {u \<in> set (Hub_Users h). normTopicKey (u_topic u) = normTopicKey name}"
proof -
  note u = hub_invD(2) [OF inv]
  have "u \<in> set (Hub_UsersInTopic h name)"
    if "map_of (h_users h) k = Some u" "normTopicKey (u_topic u) = normTopicKey name" for k u
  proof -
    have "user_ok h k u" using u that(1) by (simp add: users_ok_def)
    with that show ?thesis by (auto simp: UsersInTopic_set user_ok_def)
  qed
  then show ?thesis
    by (auto simp: Users_set [OF users_ok_gomap [OF u]] UsersInTopic_set) (use hub_exactD [OF ex] in force)
qed

lemma UsersInTopic_count:
  assumes inv: "hub_inv h" and ex: "hub_exact h" and m: "map_of (h_member h) (normTopicKey name) = Some ks"
  shows "distinct (Hub_UsersInTopic h name)" "length (Hub_UsersInTopic h name) = length ks"
proof -
  note u = hub_invD(2) [OF inv]
  have "distinct (List.map_filter (map_of (h_users h)) ks)"
    using topics_okD(6) [OF hub_invD(1) [OF inv] m]
    by (rule distinct_map_filter_inj) (use u in \<open>auto simp: users_ok_def user_ok_def\<close>)
  then show "distinct (Hub_UsersInTopic h name)" by (simp add: Hub_UsersInTopic_def m)
  have "length (List.map_filter (map_of (h_users h)) ks) = length ks"
    by (rule length_map_filter) (use hub_exactD [OF ex m] in force)
  then show "length (Hub_UsersInTopic h name) = length ks" by (simp add: Hub_UsersInTopic_def m)
qed

lemma Topics_set:
  "topics_ok h \<Longrightarrow> (name, n) \<in> set (Hub_Topics h) \<Longrightarrow>
     \<exists>ks. map_of (h_member h) (normTopicKey name) = Some ks \<and> n = length ks"
proof -
  assume t: "topics_ok h" and "(name, n) \<in> set (Hub_Topics h)"
  then obtain k where k: "(k, name) \<in> set (h_topics h)"
    and n: "n = (case map_of (h_member h) k of None \<Rightarrow> 0 | Some ks \<Rightarrow> length ks)"
    by (auto simp: Hub_Topics_def)
  have k': "map_of (h_topics h) k = Some name" using k topics_okD(1) [OF t] by (simp add: gomap_def)
  then have "normTopicKey name = k" using topics_okD(3) [OF t] by blast
  moreover obtain ks where "map_of (h_member h) k = Some ks"
    using topics_okD(5) [OF t, of k] k' by (cases "map_of (h_member h) k") auto
  ultimately show ?thesis using n by simp
qed

lemma Topics_member:
  assumes "map_of (h_member h) t = Some ks" "map_of (h_topics h) t = Some canon"
  shows "(canon, length ks) \<in> set (Hub_Topics h)"
proof -
  have "(t, canon) \<in> set (h_topics h)" using assms(2) by (rule map_of_SomeD)
  then show ?thesis unfolding Hub_Topics_def set_sort set_map by (rule rev_image_eqI) (simp add: assms(1))
qed

text \<open>
  C29: on every run in which no join moves an identity that is already present to another
  topic, the member list of a topic is exact: \<^verbatim>\<open>UsersInTopic\<close> returns, without duplicates
  and in the order of callsigns, exactly the present users whose topic it is, whatever the case
  and the blanks of the name asked for; and \<^verbatim>\<open>Topics\<close> counts exactly those.
\<close>

theorem UsersInTopic_tidy:
  assumes "tidy_reach h"
  shows "set (Hub_UsersInTopic h name) = {u \<in> set (Hub_Users h). normTopicKey (u_topic u) = normTopicKey name}
    \<and> distinct (Hub_UsersInTopic h name) \<and> sorted (map u_call (Hub_UsersInTopic h name))
    \<and> (\<forall>canon n. (canon, n) \<in> set (Hub_Topics h) \<longrightarrow> n = length (Hub_UsersInTopic h canon))"
proof (intro conjI allI impI)
  from tidy_reach_exact [OF assms] have inv: "hub_inv h" and ex: "hub_exact h" by auto
  show "set (Hub_UsersInTopic h name) = {u \<in> set (Hub_Users h). normTopicKey (u_topic u) = normTopicKey name}"
    by (rule UsersInTopic_exact [OF inv ex])
  show "distinct (Hub_UsersInTopic h name)"
    using UsersInTopic_count(1) [OF inv ex]
    by (cases "map_of (h_member h) (normTopicKey name)") (auto simp: Hub_UsersInTopic_def List.map_filter_simps)
  show "sorted (map u_call (Hub_UsersInTopic h name))" by (simp add: Hub_UsersInTopic_def)
  show "n = length (Hub_UsersInTopic h canon)" if "(canon, n) \<in> set (Hub_Topics h)" for canon n
    using Topics_set [OF hub_invD(1) [OF inv] that] UsersInTopic_count(2) [OF inv ex] by auto
qed

text \<open>A hub with one local user, for the concrete instances.\<close>

definition demo_user :: "string \<Rightarrow> string \<Rightarrow> string \<Rightarrow> string \<Rightarrow> user" where
  "demo_user call home via topic =
     (mk_user call '''' '''' \<lparr>o_node = home, o_local = (via = ''''), o_link = via\<rparr>)\<lparr>u_topic := topic\<rparr>"

definition demo_hub :: "mem_store hub" where
  "demo_hub = fst (hub_do (NewHub ''M0LTE-4'' MemStore NewMemStore id int)
     (OpJoin (demo_user ''g8pzt'' ''m0lte-4'' '''' ''lounge'')))"

lemma demo_hub_tidy: "tidy_reach demo_hub"
proof -
  have "\<not> moves_by_join (NewHub ''M0LTE-4'' MemStore NewMemStore id int) (OpJoin (demo_user ''g8pzt'' ''m0lte-4'' '''' ''lounge''))"
    by code_simp
  then show ?thesis unfolding demo_hub_def by (intro tidy_reach.intros)
qed

theorem UsersInTopic_tidy_witness:
  "tidy_reach demo_hub \<and> map u_call (Hub_UsersInTopic demo_hub ''  LOUNGE'') = [''G8PZT'']
   \<and> set (Hub_UsersInTopic demo_hub ''  LOUNGE'') =
       {u \<in> set (Hub_Users demo_hub). normTopicKey (u_topic u) = normTopicKey ''  LOUNGE''}"
proof (intro conjI)
  show "map u_call (Hub_UsersInTopic demo_hub ''  LOUNGE'') = [''G8PZT'']" by code_simp
qed (use UsersInTopic_tidy [OF demo_hub_tidy] demo_hub_tidy in blast)+

subsection \<open>The join that leaves a ghost\<close>

lemma joining_topic: "u_topic (joining h u) = (if u_topic u = '''' then DefaultTopic else u_topic u)"
  by (simp add: joining_def)

lemma Join_fields:
  assumes inv: "hub_inv h" and c: "normCall (u_call u) \<noteq> ''''" "normCall (o_node (u_origin u)) \<noteq> ''''"
  shows "h_users (fst (Hub_Join h u)) = AList.update (User_Key (joined h u)) (joined h u) (h_users h)"
    and "h_topics (fst (Hub_Join h u)) = h_topics (snd (ensureTopicLocked h (u_topic (joining h u))))"
    and "t \<noteq> normTopicKey (u_topic (joined h u)) \<Longrightarrow> map_of (h_member (fst (Hub_Join h u))) t =
      map_of (h_member (snd (ensureTopicLocked h (u_topic (joining h u))))) t"
proof -
  from c obtain ks where eq: "fst (Hub_Join h u) = emit [UserJoined (joined h u)] ((setUser (User_Key (joined h u)) (joined h u)
       (tick (snd (ensureTopicLocked h (u_topic (joining h u))))))
       \<lparr>h_member := AList.update (normTopicKey (u_topic (joined h u))) (List.insert (User_Key (joined h u)) ks)
          (h_member (tick (snd (ensureTopicLocked h (u_topic (joining h u))))))\<rparr>)"
    by (auto elim!: Join_accepted [OF inv, of u])
  show "h_users (fst (Hub_Join h u)) = AList.update (User_Key (joined h u)) (joined h u) (h_users h)"
    and "h_topics (fst (Hub_Join h u)) = h_topics (snd (ensureTopicLocked h (u_topic (joining h u))))"
    and "t \<noteq> normTopicKey (u_topic (joined h u)) \<Longrightarrow> map_of (h_member (fst (Hub_Join h u))) t =
      map_of (h_member (snd (ensureTopicLocked h (u_topic (joining h u))))) t"
    by (simp_all add: eq)
qed

lemma Join_result:
  assumes inv: "hub_inv h" and c: "normCall (u_call u) \<noteq> ''''" "normCall (o_node (u_origin u)) \<noteq> ''''"
  shows "Hub_User (fst (Hub_Join h u)) (UserKey (u_call u) (o_node (u_origin u))) = Some (joined h u)"
    and "normTopicKey (u_topic (joined h u)) = normTopicKey (if u_topic u = '''' then DefaultTopic else u_topic u)"
    and "t \<noteq> normTopicKey (u_topic (joined h u)) \<Longrightarrow>
      map_of (h_member (fst (Hub_Join h u))) t = map_of (h_member h) t \<and>
      map_of (h_topics (fst (Hub_Join h u))) t = map_of (h_topics h) t"
proof -
  note t = hub_invD(1) [OF inv]
  show "normTopicKey (u_topic (joined h u)) = normTopicKey (if u_topic u = '''' then DefaultTopic else u_topic u)"
    by (simp add: normTopicKey_joined [OF t] joining_topic)
  show "Hub_User (fst (Hub_Join h u)) (UserKey (u_call u) (o_node (u_origin u))) = Some (joined h u)"
    by (simp add: Hub_User_def Join_fields(1) [OF inv c])
  show "map_of (h_member (fst (Hub_Join h u))) t = map_of (h_member h) t \<and>
      map_of (h_topics (fst (Hub_Join h u))) t = map_of (h_topics h) t"
    if "t \<noteq> normTopicKey (u_topic (joined h u))"
    using that unfolding Join_fields(2) [OF inv c] Join_fields(3) [OF inv c that]
    by (simp add: ensureTopic_member ensureTopic_topics normTopicKey_joined [OF t])
qed

lemma Leave_eq: "map_of (h_users h) (canonKey key) = Some u \<Longrightarrow> Hub_Leave h key =
    emit [UserLeft u] (delMember (normTopicKey (u_topic u)) (canonKey key) (h\<lparr>h_users := AList.delete (canonKey key) (h_users h)\<rparr>))"
  by (simp add: Hub_Leave_def Let_def)

text \<open>
  C38: a join of an identity that is present in another topic (a second login, or a peer that
  repeats a J record) overwrites the user but leaves its key in the member list of the old topic:
  the old topic then lists the user although its topic is the new one, and after the user leaves
  the old topic still counts it.
\<close>

theorem rejoin_leaves_ghost:
  assumes inv: "hub_inv h" and u: "Hub_User h (UserKey (u_call v) (o_node (u_origin v))) = Some u"
    and ne: "normTopicKey (u_topic u) \<noteq> normTopicKey (if u_topic v = '''' then DefaultTopic else u_topic v)"
  shows "(\<exists>u' \<in> set (Hub_UsersInTopic (fst (Hub_Join h v)) (u_topic u)). normTopicKey (u_topic u') \<noteq> normTopicKey (u_topic u))
    \<and> (\<exists>n>0. (u_topic u, n) \<in>
         set (Hub_Topics (Hub_Leave (fst (Hub_Join h v)) (UserKey (u_call v) (o_node (u_origin v))))))"
proof -
  let ?key = "UserKey (u_call v) (o_node (u_origin v))" and ?h = "fst (Hub_Join h v)" and ?t = "normTopicKey (u_topic u)"
  have uk: "user_ok h (canonKey ?key) u"
    using hub_invD(2) [OF inv] u by (simp add: users_ok_def Hub_User_def)
  then have c: "normCall (u_call v) \<noteq> ''''" "normCall (o_node (u_origin v)) \<noteq> ''''"
    by (simp_all add: user_ok_def canonKey_def)
  from uk obtain ks where ks: "map_of (h_member h) ?t = Some ks" "canonKey ?key \<in> set ks"
    and tu: "map_of (h_topics h) ?t = Some (u_topic u)" by (auto simp: user_ok_def)
  note J = Join_result [OF inv c]
  have m: "map_of (h_member ?h) ?t = Some ks" "map_of (h_topics ?h) ?t = Some (u_topic u)"
    using J(3) [of ?t] ne ks(1) tu unfolding J(2) by simp_all
  have "joined h v \<in> set (Hub_UsersInTopic ?h (u_topic u))"
    using m(1) ks(2) J(1) unfolding UsersInTopic_set Hub_User_def by blast
  moreover have "map_of (h_member (Hub_Leave ?h ?key)) ?t = Some ks" "map_of (h_topics (Hub_Leave ?h ?key)) ?t = Some (u_topic u)"
    using m ne Leave_eq [OF J(1) [unfolded Hub_User_def]] unfolding J(2) by simp_all
  then have "(u_topic u, length ks) \<in> set (Hub_Topics (Hub_Leave ?h ?key))"
    by (rule Topics_member)
  moreover have "0 < length ks" using ks(2) by (cases ks) auto
  ultimately show ?thesis using ne [symmetric] unfolding J(2) [symmetric] by blast
qed

lemma demo_hub_inv: "hub_inv demo_hub"
  using tidy_reach_exact [OF demo_hub_tidy] ..

theorem rejoin_leaves_ghost_witness:
  "hub_inv demo_hub \<and>
   (\<exists>n>0. (''lounge'', n) \<in> set (Hub_Topics (Hub_Leave (fst (Hub_Join demo_hub (demo_user ''G8PZT'' ''M0LTE-4'' '''' ''''))) (UserKey ''G8PZT'' ''M0LTE-4''))))"
proof -
  let ?v = "demo_user ''G8PZT'' ''M0LTE-4'' '''' ''''"
  obtain u where u: "Hub_User demo_hub (UserKey (u_call ?v) (o_node (u_origin ?v))) = Some u" "u_topic u = ''lounge''"
  proof -
    have "map_option u_topic (Hub_User demo_hub (UserKey (u_call ?v) (o_node (u_origin ?v)))) = Some ''lounge''" by code_simp
    then show ?thesis using that by auto
  qed
  have "normTopicKey ''lounge'' \<noteq> normTopicKey (if u_topic ?v = '''' then DefaultTopic else u_topic ?v)" by code_simp
  then have "\<exists>n>0. (u_topic u, n) \<in> set (Hub_Topics (Hub_Leave (fst (Hub_Join demo_hub ?v)) (UserKey (u_call ?v) (o_node (u_origin ?v)))))"
    by (intro rejoin_leaves_ghost [OF demo_hub_inv u(1), THEN conjunct2]) (simp only: u(2) not_False_eq_True)
  moreover have "UserKey (u_call ?v) (o_node (u_origin ?v)) = UserKey ''G8PZT'' ''M0LTE-4''" by code_simp
  ultimately show ?thesis using demo_hub_inv unfolding u(2) by simp
qed

subsection \<open>The cascade of a lost link\<close>

lemma map_of_fold_dropUser:
  "map_of (h_users (fold dropUser ps h)) k = (if k \<in> fst ` set ps then None else map_of (h_users h) k)"
  by (induction ps arbitrary: h) auto

lemma UnlinkNode_known:
  "map_of (h_nodes h) (normCall call) = Some n \<Longrightarrow> Hub_UnlinkNode h call =
     (emit (map (\<lambda>(_, u). UserLeft u) (filter (\<lambda>(_, u). learnedVia (normCall call) u) (h_users h)) @ [NodeUnlinked n])
        (fold dropUser (filter (\<lambda>(_, u). learnedVia (normCall call) u) (h_users h))
          (h\<lparr>h_nodes := AList.delete (normCall call) (h_nodes h)\<rparr>)), True)"
  by (simp add: Hub_UnlinkNode_def Let_def)

lemma UnlinkNode_users:
  assumes inv: "hub_inv h" and n: "map_of (h_nodes h) (normCall call) = Some n"
  shows "map_of (h_users (fst (Hub_UnlinkNode h call))) k = (case map_of (h_users h) k of None \<Rightarrow> None
    | Some u \<Rightarrow> if o_link (u_origin u) = normCall call \<or> o_node (u_origin u) = normCall call then None else Some u)"
proof -
  let ?left = "filter (\<lambda>(_, u). learnedVia (normCall call) u) (h_users h)"
  have g: "gomap (h_users h)" using users_ok_gomap [OF hub_invD(2) [OF inv]] .
  have "k \<in> fst ` set ?left \<longleftrightarrow> (\<exists>u. map_of (h_users h) k = Some u \<and> learnedVia (normCall call) u)" for k
    using g by (force simp: gomap_def)
  then show ?thesis
    by (simp add: UnlinkNode_known [OF n] map_of_fold_dropUser learnedVia_def split: option.split)
qed

lemma fold_offer_fits: "length ch + length es \<le> subBuffer \<Longrightarrow> fold offer es ch = ch @ es"
  by (induction es arbitrary: ch) (auto simp: offer_def)

text \<open>
  C30: dropping a known neighbour removes it from the node graph and removes exactly the users
  learned via it or homed on it, nobody else and nothing of anybody else's entry; a subscriber with
  room in its channel gets one \<^verbatim>\<open>UserLeft\<close> for each of them, each once, and then
  \<^verbatim>\<open>NodeUnlinked\<close> last.
\<close>

theorem UnlinkNode_cascade:
  assumes inv: "hub_inv h" and n: "map_of (h_nodes h) (normCall call) = Some n"
  shows "snd (Hub_UnlinkNode h call)
    \<and> map_of (h_nodes (fst (Hub_UnlinkNode h call))) = (map_of (h_nodes h))(normCall call := None)
    \<and> (\<forall>k. map_of (h_users (fst (Hub_UnlinkNode h call))) k =
         (case map_of (h_users h) k of None \<Rightarrow> None
          | Some u \<Rightarrow> if o_link (u_origin u) = normCall call \<or> o_node (u_origin u) = normCall call then None else Some u))
    \<and> (\<exists>gone. distinct gone \<and> set gone = {u \<in> set (Hub_Users h). learnedVia (normCall call) u} \<and>
         (\<forall>i ch. map_of (h_subs h) i = Some ch \<and> length ch + length gone < subBuffer \<longrightarrow>
            map_of (h_subs (fst (Hub_UnlinkNode h call))) i = Some (ch @ map UserLeft gone @ [NodeUnlinked n])))"
proof (intro conjI exI allI impI)
  let ?left = "filter (\<lambda>(_, u). learnedVia (normCall call) u) (h_users h)"
  note U = UnlinkNode_known [OF n] and lu = learned_users [OF inv]
  show "snd (Hub_UnlinkNode h call)" by (simp add: U)
  show "map_of (h_nodes (fst (Hub_UnlinkNode h call))) = (map_of (h_nodes h))(normCall call := None)"
    by (auto simp: U)
  show "map_of (h_users (fst (Hub_UnlinkNode h call))) k = (case map_of (h_users h) k of None \<Rightarrow> None
          | Some u \<Rightarrow> if o_link (u_origin u) = normCall call \<or> o_node (u_origin u) = normCall call then None else Some u)" for k
    by (rule UnlinkNode_users [OF inv n])
  have key: "User_Key u = k" if "(k, u) \<in> set ?left" for k u
    using hub_invD(2) [OF inv] lu(2) that by (fastforce simp: users_ok_def user_ok_def)
  have "map User_Key (map snd ?left) = map fst ?left" using key by (auto simp: comp_def)
  then have "distinct (map User_Key (map snd ?left))" using lu(1) by metis
  then show "distinct (map snd ?left)" by (simp only: distinct_map)
  show "set (map snd ?left) = {u \<in> set (Hub_Users h). learnedVia (normCall call) u}" by (force simp: Hub_Users_def)
  show "map_of (h_subs (fst (Hub_UnlinkNode h call))) i = Some (ch @ map UserLeft (map snd ?left) @ [NodeUnlinked n])"
    if "map_of (h_subs h) i = Some ch \<and> length ch + length (map snd ?left) < subBuffer" for i ch
    using that by (simp add: U emit_subs fold_offer_fits offer_def comp_def split_def)
qed

definition demo_linked :: "mem_store hub" where
  "demo_linked = fst (hub_do (fst (hub_do demo_hub (OpLinkNode ''GB7RDG-4'' ''RDGCHT'' ''6.0'')))
     (OpJoin (demo_user ''2E0XYZ'' ''GB7BSK-4'' ''GB7RDG-4'' '''')))"

theorem UnlinkNode_cascade_witness:
  "hub_inv demo_linked \<and> map u_call (Hub_Users demo_linked) = [''2E0XYZ'', ''G8PZT'']
   \<and> map_of (h_users (fst (Hub_UnlinkNode demo_linked ''gb7rdg-4''))) (UserKey ''2E0XYZ'' ''GB7BSK-4'') = None"
proof -
  have inv: "hub_inv demo_linked"
    unfolding demo_linked_def by (intro hub_do_inv demo_hub_inv)
  obtain n where n: "map_of (h_nodes demo_linked) (normCall ''gb7rdg-4'') = Some n"
  proof -
    have "map_of (h_nodes demo_linked) (normCall ''gb7rdg-4'') \<noteq> None" by code_simp
    then show ?thesis using that by blast
  qed
  have "(case map_of (h_users demo_linked) (UserKey ''2E0XYZ'' ''GB7BSK-4'') of None \<Rightarrow> None | Some u \<Rightarrow>
      if o_link (u_origin u) = normCall ''gb7rdg-4'' \<or> o_node (u_origin u) = normCall ''gb7rdg-4'' then None else Some u) = None"
    "map u_call (Hub_Users demo_linked) = [''2E0XYZ'', ''G8PZT'']" by code_simp+
  then show ?thesis using inv UnlinkNode_cascade [OF inv n] by simp
qed

subsection \<open>What a post leaves behind\<close>

lemma record_and_emit_mem:
  assumes "h_vt h = MemStore" "mem_inv (h_store h)" "m_id m \<noteq> ''''"
  shows "snd (record_and_emit h m ev) = Inr m"
    and "mem_inv (h_store (fst (record_and_emit h m ev)))"
    and "ms_msgs (h_store (fst (record_and_emit h m ev))) =
      (if m_id m \<in> m_id ` set (ms_msgs (h_store h)) then ms_msgs (h_store h) else ms_msgs (h_store h) @ [m])"
    and "map_of (h_subs (fst (record_and_emit h m ev))) i = map_option (offer (ev m)) (map_of (h_subs h) i)"
proof -
  obtain s' where s': "sv_SaveMessage MemStore (h_store h) m = Inr s'"
    using assms by (auto simp: MemStore_Save_eq)
  note l = mem.save_ok [OF assms(2,3) s'] mem.save_msgs [OF assms(2,3) s']
  have eq: "record_and_emit h m ev = (emit [ev m] ((snd (Hub_Seen h (m_id m)))\<lparr>h_store := s'\<rparr>), Inr m)"
    using s' by (simp add: record_and_emit_def Let_def assms(1))
  show "snd (record_and_emit h m ev) = Inr m"
    and "mem_inv (h_store (fst (record_and_emit h m ev)))"
    and "ms_msgs (h_store (fst (record_and_emit h m ev))) =
      (if m_id m \<in> m_id ` set (ms_msgs (h_store h)) then ms_msgs (h_store h) else ms_msgs (h_store h) @ [m])"
    and "map_of (h_subs (fst (record_and_emit h m ev))) i = map_option (offer (ev m)) (map_of (h_subs h) i)"
    using l by (simp_all add: eq emit_subs)
qed

lemma hex_encode_empty [simp]: "hex_encode s = [] \<longleftrightarrow> s = []"
  by (cases s) (simp_all add: hex_encode_def)

lemma SynthID_ne: "(\<And>x. hash x \<noteq> '''') \<Longrightarrow> SynthID hash node call kind scope text \<noteq> ''''"
  by (simp add: SynthID_def)

lemma SynthID_canon [simp]:
  "SynthID H (normCall node) (normCall call) kind scope text = SynthID H node call kind scope text"
  by (simp add: SynthID_def synth_bytes_def)

text \<open>
  On the in-memory store a post fails, changing nothing, exactly for a blank text
  (\<^verbatim>\<open>ErrEmptyText\<close>) and for an absent user (\<^verbatim>\<open>ErrNoSuchUser\<close>); otherwise it
  returns the message with the clipped text in the user's current topic under the content id,
  every subscriber is offered it, and the log gets it at its end unless a message with that id is
  already there.
\<close>

theorem Post_spec:
  assumes vt: "h_vt h = MemStore" "mem_inv (h_store h)" and hash: "\<forall>x. h_hash h x \<noteq> ''''"
  shows "(clip text = '''' \<longrightarrow> Hub_Post h key text = (h, Inl ErrEmptyText))
    \<and> (clip text \<noteq> '''' \<and> Hub_User h key = None \<longrightarrow> Hub_Post h key text = (h, Inl ErrNoSuchUser))
    \<and> (\<forall>u. clip text \<noteq> '''' \<and> Hub_User h key = Some u \<longrightarrow>
         (\<exists>h' m. Hub_Post h key text = (h', Inr m)
           \<and> m_text m = clip text \<and> m_topic m = u_topic u \<and> m_kind m = KindTopic
           \<and> m_fromCall m = normCall (uk_call key) \<and> m_originNode m = normCall (uk_node key)
           \<and> m_id m = SynthID (h_hash h) (uk_node key) (uk_call key) KindTopic (u_topic u) (clip text)
           \<and> ms_msgs (h_store h') = (if m_id m \<in> m_id ` set (ms_msgs (h_store h)) then ms_msgs (h_store h)
                                     else ms_msgs (h_store h) @ [m])
           \<and> mem_inv (h_store h')
           \<and> (\<forall>i. map_of (h_subs h') i = map_option (offer (TopicMessage m)) (map_of (h_subs h) i))))"
proof (intro conjI allI impI)
  fix u assume u: "clip text \<noteq> '''' \<and> Hub_User h key = Some u"
  let ?h = "tick (tick (setUser (canonKey key) (u\<lparr>u_lastActive := now h\<rparr>) h))"
  let ?m = "post_msg h (canonKey key) (u_topic u) (clip text)"
  have eq: "Hub_Post h key text = record_and_emit ?h ?m TopicMessage"
    using u by (simp add: Post_eq Hub_User_def)
  have ids: "m_id ?m = SynthID (h_hash h) (uk_node key) (uk_call key) KindTopic (u_topic u) (clip text)"
    by (simp add: post_msg_def SynthID_canon)
  then have ne: "m_id ?m \<noteq> ''''" using hash by (simp add: SynthID_ne)
  have vt': "h_vt ?h = MemStore" "mem_inv (h_store ?h)" using vt by simp_all
  note R = record_and_emit_mem [OF vt' ne, of TopicMessage]
  show "\<exists>h' m. Hub_Post h key text = (h', Inr m)
           \<and> m_text m = clip text \<and> m_topic m = u_topic u \<and> m_kind m = KindTopic
           \<and> m_fromCall m = normCall (uk_call key) \<and> m_originNode m = normCall (uk_node key)
           \<and> m_id m = SynthID (h_hash h) (uk_node key) (uk_call key) KindTopic (u_topic u) (clip text)
           \<and> ms_msgs (h_store h') = (if m_id m \<in> m_id ` set (ms_msgs (h_store h)) then ms_msgs (h_store h)
                                     else ms_msgs (h_store h) @ [m])
           \<and> mem_inv (h_store h')
           \<and> (\<forall>i. map_of (h_subs h') i = map_option (offer (TopicMessage m)) (map_of (h_subs h) i))"
    by (rule exI [of _ "fst (Hub_Post h key text)"], rule exI [of _ ?m])
      (use R ids in \<open>simp add: eq prod_eq_iff post_msg_def canonKey_def\<close>)
qed (simp_all add: Post_eq Hub_User_def)

lemma Join_vt: "h_vt (fst (Hub_Join h u)) = h_vt h"
  by (simp add: Hub_Join_def Let_def split_def split: option.split)

lemma NewHub_vt: "h_vt (NewHub n vt st hash clk) = vt"
  by (simp add: NewHub_def)

lemma post_hub_witness: "h_vt demo_hub = MemStore" "mem_inv (h_store demo_hub)"
proof -
  show "h_vt demo_hub = MemStore" by (simp add: demo_hub_def Join_vt NewHub_vt)
  have "h_store demo_hub = NewMemStore" by code_simp
  then show "mem_inv (h_store demo_hub)" by (simp add: mem_inv_def NewMemStore_def)
qed

theorem Post_spec_witness:
  "\<exists>h' m. Hub_Post (demo_hub\<lparr>h_hash := \<lambda>x. ''#'' @ x\<rparr>) (UserKey ''g8pzt'' ''M0LTE-4'') '' hello '' = (h', Inr m) \<and>
     m_text m = ''hello'' \<and> m_topic m = ''lounge''"
proof -
  let ?h = "demo_hub\<lparr>h_hash := \<lambda>x. ''#'' @ x\<rparr>"
  have h: "h_vt ?h = MemStore" "mem_inv (h_store ?h)" "\<forall>x. h_hash ?h x \<noteq> ''''"
    using post_hub_witness by simp_all
  obtain u where u: "Hub_User ?h (UserKey ''g8pzt'' ''M0LTE-4'') = Some u" "u_topic u = ''lounge''"
  proof -
    have "map_option u_topic (Hub_User demo_hub (UserKey ''g8pzt'' ''M0LTE-4'')) = Some ''lounge''" by code_simp
    then show ?thesis using that by (auto simp: Hub_User_def)
  qed
  have "clip '' hello '' = ''hello''" by code_simp
  then show ?thesis using Post_spec [OF h, of "'' hello ''" "UserKey ''g8pzt'' ''M0LTE-4''"] u by fastforce
qed

text \<open>
  The log deduplicates on the content id without any time limit. Once a message is in
  the log, a later post of the same text by the same user in the same topic succeeds and is
  offered to the subscribers, whatever time has passed, yet the log does not change: the second
  message never appears in a history.
\<close>

theorem repost_not_logged:
  assumes vt: "h_vt h = MemStore" "mem_inv (h_store h)" and hash: "\<forall>x. h_hash h x \<noteq> ''''"
    and u: "Hub_User h key = Some u" and ct: "clip text \<noteq> ''''"
    and m: "m \<in> set (ms_msgs (h_store h))"
      "m_id m = SynthID (h_hash h) (uk_node key) (uk_call key) KindTopic (u_topic u) (clip text)"
  shows "\<exists>m'. snd (Hub_Post h key text) = Inr m' \<and> ms_msgs (h_store (fst (Hub_Post h key text))) = ms_msgs (h_store h) \<and>
     (\<forall>i ch. map_of (h_subs h) i = Some ch \<and> length ch < subBuffer \<longrightarrow>
        map_of (h_subs (fst (Hub_Post h key text))) i = Some (ch @ [TopicMessage m']))"
proof -
  let ?h = "tick (tick (setUser (canonKey key) (u\<lparr>u_lastActive := now h\<rparr>) h))"
  let ?m = "post_msg h (canonKey key) (u_topic u) (clip text)"
  have eq: "Hub_Post h key text = record_and_emit ?h ?m TopicMessage"
    using u ct by (simp add: Post_eq Hub_User_def)
  have ids: "m_id ?m = m_id m" by (simp add: post_msg_def m(2))
  then have ne: "m_id ?m \<noteq> ''''" using hash by (simp add: m(2) SynthID_ne)
  have vt': "h_vt ?h = MemStore" "mem_inv (h_store ?h)" using vt by simp_all
  note R = record_and_emit_mem [OF vt' ne, of TopicMessage]
  have "m_id ?m \<in> m_id ` set (ms_msgs (h_store ?h))" using m(1) by (simp add: ids)
  then show ?thesis using R by (intro exI [of _ ?m]) (simp add: eq offer_def)
qed

lemma repost_example:
  obtains h u m where "h_vt h = MemStore" "mem_inv (h_store h)" "\<forall>x. h_hash h x \<noteq> ''''"
    "Hub_User h (UserKey ''g8pzt'' ''M0LTE-4'') = Some u" "m \<in> set (ms_msgs (h_store h))"
    "m_id m = SynthID (h_hash h) ''M0LTE-4'' ''g8pzt'' KindTopic (u_topic u) (clip ''hello'')"
proof -
  let ?hash = "\<lambda>x. ''#'' @ x" and ?key = "UserKey ''g8pzt'' ''M0LTE-4''"
  let ?m = "sample_message\<lparr>m_id := SynthID ?hash ''M0LTE-4'' ''g8pzt'' KindTopic ''lounge'' (clip ''hello'')\<rparr>"
  let ?h = "demo_hub\<lparr>h_hash := ?hash, h_store := NewMemStore\<lparr>ms_msgs := [?m], ms_ids := [m_id ?m]\<rparr>\<rparr>"
  obtain u where u: "Hub_User demo_hub ?key = Some u" "u_topic u = ''lounge''"
  proof -
    have "map_option u_topic (Hub_User demo_hub ?key) = Some ''lounge''" by code_simp
    then show ?thesis using that by auto
  qed
  have "m_id ?m \<noteq> ''''" by (simp add: SynthID_ne)
  then have "mem_inv (h_store ?h)" by (auto simp: mem_inv_def)
  then show ?thesis using that [of ?h u ?m] u post_hub_witness(1) by (simp add: Hub_User_def)
qed

theorem repost_not_logged_witness:
  "\<exists>(h :: mem_store hub) m'. ms_msgs (h_store h) \<noteq> [] \<and> snd (Hub_Post h (UserKey ''g8pzt'' ''M0LTE-4'') ''hello'') = Inr m' \<and>
     ms_msgs (h_store (fst (Hub_Post h (UserKey ''g8pzt'' ''M0LTE-4'') ''hello''))) = ms_msgs (h_store h)"
proof -
  obtain h u m where h: "h_vt h = MemStore" "mem_inv (h_store h)" "\<forall>x. h_hash h x \<noteq> ''''"
    "Hub_User h (UserKey ''g8pzt'' ''M0LTE-4'') = Some u" "m \<in> set (ms_msgs (h_store h))"
    "m_id m = SynthID (h_hash h) ''M0LTE-4'' ''g8pzt'' KindTopic (u_topic u) (clip ''hello'')"
    by (rule repost_example)
  have "clip ''hello'' \<noteq> ''''" by code_simp
  from repost_not_logged [OF h(1-4) this h(5)] h(6)
  obtain m' where "snd (Hub_Post h (UserKey ''g8pzt'' ''M0LTE-4'') ''hello'') = Inr m'"
    "ms_msgs (h_store (fst (Hub_Post h (UserKey ''g8pzt'' ''M0LTE-4'') ''hello''))) = ms_msgs (h_store h)" by auto
  moreover have "ms_msgs (h_store h) \<noteq> []" using h(5) by auto
  ultimately show ?thesis by blast
qed

subsection \<open>Fan-out\<close>

lemma fold_offer: "length ch \<le> subBuffer \<Longrightarrow> fold offer es ch = ch @ take (subBuffer - length ch) es"
proof (induction es arbitrary: ch)
  case (Cons e es)
  then show ?case
  proof (cases "length ch < subBuffer")
    case True
    then have "subBuffer - length ch = Suc (subBuffer - Suc (length ch))" by simp
    then show ?thesis using True Cons.IH [of "ch @ [e]"] by (simp add: offer_def)
  next
    case False
    then show ?thesis using Cons by (simp add: offer_def)
  qed
qed simp

text \<open>
  C37: fan-out is isolated and ordered. Each subscriber's channel is what it was followed by as
  many of the new events, in order, as fit into the 256 slots; what one subscriber has buffered
  never changes what another one gets.
\<close>

theorem emit_channels:
  assumes "hub_inv h"
  shows "map_of (h_subs (emit es h)) i = map_option (\<lambda>ch. ch @ take (256 - length ch) es) (map_of (h_subs h) i)"
proof (cases "map_of (h_subs h) i")
  case (Some ch)
  then have "length ch \<le> subBuffer" using hub_invD(4) [OF assms] by (simp add: subs_ok_def)
  then show ?thesis using Some by (simp add: emit_subs fold_offer) (simp add: subBuffer_def)
qed (simp add: emit_subs)

theorem emit_channels_witness:
  "hub_inv (snd (Hub_Subscribe demo_hub)) \<and>
   map_of (h_subs (emit [UserLeft (demo_user ''A'' ''B'' '''' '''')] (snd (Hub_Subscribe demo_hub)))) 0 =
     Some [UserLeft (demo_user ''A'' ''B'' '''' '''')]"
proof -
  have inv: "hub_inv (snd (Hub_Subscribe demo_hub))" by (intro hub_inv_Subscribe demo_hub_inv)
  moreover have "map_of (h_subs (snd (Hub_Subscribe demo_hub))) 0 = Some []" by code_simp
  ultimately show ?thesis using emit_channels [OF inv] by simp
qed

end
