(* ===== verification/Session.thy ===== *)
theory Session
  imports Session_Assembler Chat_Hub_Spec
begin

text \<open>
  \<^verbatim>\<open>internal/session/session.go\<close>: the interactive session of a connected user. An
  operation takes the hub and the session and returns both; what the user sees is \<open>se_out\<close>.
  The \<open>i\<close>-th \<^verbatim>\<open>conn.Send\<close> fails if \<open>se_fail i\<close>, and a failed send ends the
  session. The run loop is the step relation \<open>session_step\<close> over received chunks and hub
  events; once a session has ended the loop stops (what it may still render before it takes the
  \<^verbatim>\<open>done\<close> branch is left open by the code).
\<close>

datatype end_reason = EndPeerClosed | EndBye | EndQuit

record session =
  se_key :: user_key
  se_asm :: line_assembler
  se_sub :: nat
  se_out :: string
  se_fail :: "nat \<Rightarrow> bool"
  se_sends :: nat
  se_ended :: "end_reason option"

type_synonym 's sess = "'s hub \<times> session"

definition CR :: char where "CR = CHR 0x0D"

definition Session_end :: "end_reason \<Rightarrow> 's sess \<Rightarrow> 's sess" where
  "Session_end reason hs =
     (case se_ended (snd hs) of
        Some _ \<Rightarrow> hs
      | None \<Rightarrow>
          (Hub_Leave (Hub_cancel (fst hs) (se_sub (snd hs))) (se_key (snd hs)), (snd hs)\<lparr>se_ended := Some reason\<rparr>))"

definition send :: "string \<Rightarrow> 's sess \<Rightarrow> 's sess" where
  "send text hs =
     (let s = snd hs; ok = \<not> se_fail s (se_sends s); s = s\<lparr>se_sends := Suc (se_sends s)\<rparr>
      in if ok then (fst hs, s\<lparr>se_out := se_out s @ text\<rparr>) else Session_end EndPeerClosed (fst hs, s))"

definition sendLine :: "string \<Rightarrow> 's sess \<Rightarrow> 's sess" where
  "sendLine text hs = send (text @ [CR]) hs"

definition Session_name :: "'s sess \<Rightarrow> string" where
  "Session_name hs = (case Hub_User (fst hs) (se_key (snd hs)) of Some u \<Rightarrow> u_name u | None \<Rightarrow> '''')"

definition Session_qth :: "'s sess \<Rightarrow> string" where
  "Session_qth hs = (case Hub_User (fst hs) (se_key (snd hs)) of Some u \<Rightarrow> u_qth u | None \<Rightarrow> '''')"

definition formatMsg :: "string \<Rightarrow> string \<Rightarrow> string" where
  "formatMsg from text = ''<'' @ from @ ''> '' @ text"

definition alias_text :: "string \<Rightarrow> string" where
  "alias_text a = (if a = '''' then '''' else '' ('' @ a @ '')'')"

fun errText :: "hub_error \<Rightarrow> string" where
  "errText ErrNoSuchUser = ''You are not logged in.''"
| "errText ErrEmptyText = ''Nothing to send.''"
| "errText ErrNoSuchTopic = ''No such topic.''"
| "errText (StoreError e) = e"
| "errText NilMapPanic = ''''"

definition inMyTopic :: "'s sess \<Rightarrow> string \<Rightarrow> bool" where
  "inMyTopic hs topic =
     (case Hub_User (fst hs) (se_key (snd hs)) of None \<Rightarrow> False | Some u \<Rightarrow> EqualFold (u_topic u) topic)"

definition showUsers :: "'s sess \<Rightarrow> 's sess" where
  "showUsers hs =
     (let topic = (case Hub_User (fst hs) (se_key (snd hs)) of Some u \<Rightarrow> u_topic u | None \<Rightarrow> '''');
          who = (\<lambda>m. if o_node (u_origin m) \<noteq> h_ourNode (fst hs) then u_call m @ '' @ '' @ o_node (u_origin m) else u_call m)
      in send (''Users in '' @ topic @ '':'' @ [CR] @
               concat (map (\<lambda>m. ''  '' @ who m @ [CR]) (Hub_UsersInTopic (fst hs) topic))) hs)"

definition showNodes :: "'s sess \<Rightarrow> 's sess" where
  "showNodes hs =
     (let nodes = Hub_Nodes (fst hs)
      in if nodes = [] then sendLine ''No linked nodes.'' hs
         else send (''Linked nodes:'' @ [CR] @ concat (map (\<lambda>n. ''  '' @ n_call n @ alias_text (n_alias n) @ [CR]) nodes)) hs)"

definition help_cmd :: "'s sess \<Rightarrow> 's sess" where
  "help_cmd hs = send (''Commands (upper or lower case):'' @ [CR] @
     ''/U - show users    /T [topic] - show/join topic'' @ [CR] @
     ''/N [name] - name    /Q [qth] - QTH'' @ [CR] @
     ''/S call msg - private message'' @ [CR] @
     ''/P /K - show linked nodes'' @ [CR] @
     ''/B - back to node   /QUIT - disconnect   /H - help'' @ [CR]) hs"

definition topic_cmd :: "string \<Rightarrow> 's sess \<Rightarrow> 's sess" where
  "topic_cmd name hs =
     (if name = '''' then
        send (''Topics:'' @ [CR] @ concat (map (\<lambda>(t, n). ''  '' @ t @ '' ('' @ dec_nat n @ '')'' @ [CR]) (Hub_Topics (fst hs)))) hs
      else
        (case Hub_SetTopic (fst hs) (se_key (snd hs)) name of
           (h, Inl e) \<Rightarrow> sendLine (''*** '' @ errText e) (h, snd hs)
         | (h, Inr changed) \<Rightarrow>
             (case Hub_User h (se_key (snd hs)) of
                None \<Rightarrow> (h, snd hs)
              | Some u \<Rightarrow>
                  if changed then sendLine (''*** Now in topic '' @ u_topic u @ ''.'') (h, snd hs)
                  else sendLine (''*** Already in topic '' @ u_topic u @ ''.'') (h, snd hs))))"

definition setName :: "string \<Rightarrow> 's sess \<Rightarrow> 's sess" where
  "setName name hs =
     (if name = '''' then
        (case Hub_User (fst hs) (se_key (snd hs)) of Some u \<Rightarrow> sendLine (''Name is '' @ u_name u) hs | None \<Rightarrow> hs)
      else
        (case Hub_SetInfo (fst hs) (se_key (snd hs)) name (Session_qth hs) of
           (h, Inr _) \<Rightarrow> sendLine (''Name set to '' @ name) (h, snd hs)
         | (h, Inl _) \<Rightarrow> (h, snd hs)))"

definition setQTH :: "string \<Rightarrow> 's sess \<Rightarrow> 's sess" where
  "setQTH qth hs =
     (if qth = '''' then sendLine (''QTH is '' @ Session_qth hs) hs
      else
        (case Hub_SetInfo (fst hs) (se_key (snd hs)) (Session_name hs) qth of
           (h, Inr _) \<Rightarrow> sendLine (''QTH set to '' @ qth) (h, snd hs)
         | (h, Inl _) \<Rightarrow> (h, snd hs)))"

definition private_cmd :: "string \<Rightarrow> 's sess \<Rightarrow> 's sess" where
  "private_cmd rest hs =
     (case Cut rest (CHR '' '') of
        None \<Rightarrow> sendLine ''*** Usage: /S CALL message'' hs
      | Some (to, text) \<Rightarrow>
          if TrimSpace text = '''' then sendLine ''*** Usage: /S CALL message'' hs
          else
            (case Hub_Private (fst hs) (se_key (snd hs)) to (TrimSpace text) of
               (h, Inl _) \<Rightarrow> sendLine ''*** That user is not logged in.'' (h, snd hs)
             | (h, Inr _) \<Rightarrow> (h, snd hs)))"

definition command :: "string \<Rightarrow> 's sess \<Rightarrow> 's sess \<times> bool" where
  "command line hs =
     (let (verb, rest) = (case Cut line (CHR '' '') of None \<Rightarrow> (line, '''') | Some (v, r) \<Rightarrow> (v, TrimSpace r));
          v = ToUpper verb
      in if v = ''/U'' then (showUsers hs, False)
         else if v = ''/T'' then (topic_cmd rest hs, False)
         else if v = ''/N'' then (setName rest hs, False)
         else if v = ''/Q'' then (setQTH rest hs, False)
         else if v = ''/S'' then (private_cmd rest hs, False)
         else if v = ''/P'' \<or> v = ''/K'' then (showNodes hs, False)
         else if v = ''/H'' \<or> v = ''/?'' then (help_cmd hs, False)
         else if v = ''/B'' then (Session_end EndBye (sendLine ''*** Returning to node.'' hs), True)
         else if v = ''/QUIT'' then (Session_end EndQuit (sendLine ''*** 73!'' hs), True)
         else (sendLine ''*** Unknown command. /H for help.'' hs, False))"

definition processLine :: "string \<Rightarrow> 's sess \<Rightarrow> 's sess \<times> bool" where
  "processLine line hs =
     (let trimmed = TrimSpace (sanitise line)
      in if trimmed = '''' then (hs, False)
         else if trimmed ! 0 = CHR ''/'' then command trimmed hs
         else
           (case Hub_Post (fst hs) (se_key (snd hs)) trimmed of
              (h, Inl e) \<Rightarrow> (sendLine (''*** '' @ errText e) (h, snd hs), False)
            | (h, Inr _) \<Rightarrow> ((h, snd hs), False)))"

text \<open>The loop over the lines of one chunk: it stops after a line that ends the session.\<close>

fun processLines :: "string list \<Rightarrow> 's sess \<Rightarrow> 's sess \<times> bool" where
  "processLines [] hs = (hs, False)"
| "processLines (line # lines) hs =
     (case processLine line hs of (hs, True) \<Rightarrow> (hs, True) | (hs, False) \<Rightarrow> processLines lines hs)"

definition run_inbound :: "string \<Rightarrow> 's sess \<Rightarrow> 's sess \<times> bool" where
  "run_inbound data hs =
     (let (lines, asm) = Feed (se_asm (snd hs)) data in processLines lines (fst hs, (snd hs)\<lparr>se_asm := asm\<rparr>))"

fun render :: "event \<Rightarrow> 's sess \<Rightarrow> 's sess" where
  "render (TopicMessage m) hs =
     (if inMyTopic hs (m_topic m) then sendLine (formatMsg (m_fromCall m) (m_text m)) hs else hs)"
| "render (PrivateMessage m) hs =
     (if EqualFold (m_toCall m) (uk_call (se_key (snd hs)))
      then sendLine (''<*'' @ m_fromCall m @ ''*> '' @ m_text m) hs else hs)"
| "render (UserJoined u) hs =
     (if User_Key u \<noteq> se_key (snd hs) \<and> inMyTopic hs (u_topic u)
      then sendLine (''*** '' @ u_call u @ '' has joined '' @ u_topic u) hs else hs)"
| "render (UserLeft u) hs =
     (if User_Key u \<noteq> se_key (snd hs) then sendLine (''*** '' @ u_call u @ '' has left'') hs else hs)"
| "render (TopicChanged u _) hs =
     (if User_Key u \<noteq> se_key (snd hs) \<and> inMyTopic hs (u_topic u)
      then sendLine (''*** '' @ u_call u @ '' has joined '' @ u_topic u) hs else hs)"
| "render (UserInfoChanged _) hs = hs"
| "render (NodeLinked n) hs = sendLine (''*** Link to node '' @ n_call n @ '' established'') hs"
| "render (NodeUnlinked n) hs = sendLine (''*** Link to node '' @ n_call n @ '' lost'') hs"

definition greet :: "'s sess \<Rightarrow> 's sess" where
  "greet hs =
     showUsers
       (sendLine (''You are in topic '' @ DefaultTopic @ ''. Type /H for help.'')
         (sendLine (''Welcome to the '' @ h_ourNode (fst hs) @ '' chat node, '' @ uk_call (se_key (snd hs)) @ ''.'') hs))"

definition Session_New :: "'s hub \<Rightarrow> (nat \<Rightarrow> bool) \<Rightarrow> string \<Rightarrow> 's hub \<times> (hub_error + session)" where
  "Session_New hub fails callsign =
     (let (sub, hub) = Hub_Subscribe hub
      in case Hub_Join hub (mk_user callsign '''' '''' \<lparr>o_node = h_ourNode hub, o_local = True, o_link = ''''\<rparr>) of
           (hub, Inl e) \<Rightarrow> (Hub_cancel hub sub, Inl e)
         | (hub, Inr u) \<Rightarrow>
             (let (hub, s) = greet (hub, \<lparr>se_key = User_Key u, se_asm = NewLineAssembler (int MaxLine), se_sub = sub,
                                         se_out = '''', se_fail = fails, se_sends = 0, se_ended = None\<rparr>)
              in (hub, Inr s)))"

text \<open>The run loop: a chunk arrives, an event is taken from the subscription, or the user disconnects.\<close>

inductive session_step :: "'s sess \<Rightarrow> 's sess \<Rightarrow> bool" where
  inbound: "se_ended (snd hs) = None \<Longrightarrow> session_step hs (fst (run_inbound data hs))"
| event: "se_ended (snd hs) = None \<Longrightarrow> Hub_recv (fst hs) (se_sub (snd hs)) = (Some ev, h) \<Longrightarrow>
    session_step hs (render ev (h, snd hs))"
| close: "session_step hs (Session_end EndPeerClosed hs)"

inductive_cases session_stepE: "session_step hs hs'"

end
