(* ===== verification/Peer_Proto.thy ===== *)
theory Peer_Proto
  imports Go_Strings
begin

text \<open>
  \<^verbatim>\<open>internal/peer/proto.go\<close>: the BPQ inter-node wire records. A control record is
  \<open>FORMAT\<close> (Ctrl-A), a type byte and blank-separated fields; \<open>Decode\<close> parses one line
  (the CR already stripped) and the \<open>encode\<close> family builds one. A Go string and a Go byte
  are a \<open>string\<close> and a \<open>char\<close> here; \<open>Decode\<close> returning \<^verbatim>\<open>false\<close>
  is \<open>None\<close>.

  The lemmas characterise when a line is refused and what a decoded record holds, and give the
  round trips of the builders: which fields come back unchanged and which are normalised.
\<close>

definition FORMAT :: char where "FORMAT = CHR 0x01"

definition IDJoin :: char where "IDJoin = CHR ''J''"
definition IDLeave :: char where "IDLeave = CHR ''L''"
definition IDLink :: char where "IDLink = CHR ''N''"
definition IDUnlink :: char where "IDUnlink = CHR ''Q''"
definition IDData :: char where "IDData = CHR ''D''"
definition IDSend :: char where "IDSend = CHR ''S''"
definition IDTopic :: char where "IDTopic = CHR ''T''"
definition IDUser :: char where "IDUser = CHR ''I''"
definition IDKeepalive :: char where "IDKeepalive = CHR ''K''"
definition IDPoll :: char where "IDPoll = CHR ''P''"
definition IDPollResp :: char where "IDPollResp = CHR ''R''"

lemmas ID_defs = IDJoin_def IDLeave_def IDLink_def IDUnlink_def IDData_def IDSend_def IDTopic_def IDUser_def
  IDKeepalive_def IDPoll_def IDPollResp_def

definition rtlLogin :: string where "rtlLogin = ''*RTL''"

definition bannerPrefix :: string where "bannerPrefix = ''[BPQCHATSERVER-''"

definition banner :: string where "banner = bannerPrefix @ ''pdn]''"

definition isBanner :: "string \<Rightarrow> bool" where
  "isBanner line \<longleftrightarrow>
     length line \<ge> length bannerPrefix \<and> EqualFold (take (length bannerPrefix) line) bannerPrefix"

definition IsRTL :: "string \<Rightarrow> bool" where
  "IsRTL line \<longleftrightarrow> EqualFold (TrimSpace line) rtlLogin"

record wire_record =
  r_Raw :: string
  r_Type :: char
  r_Node :: string
  r_User :: string
  r_Args :: "string list"

definition Field :: "wire_record \<Rightarrow> nat \<Rightarrow> string" where
  "Field r i = (if i < length (r_Args r) then r_Args r ! i else '''')"

definition Tail :: "wire_record \<Rightarrow> nat \<Rightarrow> string" where
  "Tail r i = (if i < length (r_Args r) then Join (drop i (r_Args r)) (CHR '' '') else '''')"

definition IsControl :: "string \<Rightarrow> bool" where
  "IsControl line \<longleftrightarrow> length line \<ge> 2 \<and> line ! 0 = FORMAT"

text \<open>The loop over the bytes of the body: TAB becomes a blank, other control bytes refuse.\<close>

fun decode_body :: "string \<Rightarrow> string option" where
  "decode_body [] = Some []"
| "decode_body (c # s) =
     (if c = CHR 0x09 then map_option (\<lambda>b. CHR '' '' # b) (decode_body s)
      else if byte c < 0x20 \<and> c \<noteq> FORMAT then None
      else map_option (\<lambda>b. c # b) (decode_body s))"

definition Decode :: "string \<Rightarrow> wire_record option" where
  "Decode line =
     (if \<not> IsControl line then None
      else
        let typ = line ! 1; body = drop 2 line
        in case decode_body body of
             None \<Rightarrow> None
           | Some b \<Rightarrow>
               let fields = Fields b
               in if length fields < 2 then None
                  else Some \<lparr>r_Raw = line, r_Type = typ, r_Node = ToUpper (fields ! 0),
                             r_User = ToUpper (fields ! 1), r_Args = drop 2 fields\<rparr>)"

definition encode :: "char \<Rightarrow> string \<Rightarrow> string \<Rightarrow> string list \<Rightarrow> string" where
  "encode typ node user rest =
     [FORMAT, typ] @ node @ [CHR '' ''] @ user @ concat (map (\<lambda>f. CHR '' '' # f) rest)"

definition orDash :: "string \<Rightarrow> string" where
  "orDash s = (if TrimSpace s = '''' then ''?'' else ReplaceAll s (CHR '' '') (CHR ''_''))"

definition unDash :: "string \<Rightarrow> string" where
  "unDash s = (if s = ''?'' then '''' else ReplaceAll s (CHR ''_'') (CHR '' ''))"

definition encodeData :: "string \<Rightarrow> string \<Rightarrow> string \<Rightarrow> string" where
  "encodeData node user text = encode IDData node user [text]"

definition encodeJoin :: "string \<Rightarrow> string \<Rightarrow> string \<Rightarrow> string \<Rightarrow> string" where
  "encodeJoin node user name qth = encode IDJoin node user [orDash name, orDash qth]"

definition encodeLeave :: "string \<Rightarrow> string \<Rightarrow> string \<Rightarrow> string \<Rightarrow> string" where
  "encodeLeave node user name qth = encode IDLeave node user [orDash name, orDash qth]"

definition encodeTopic :: "string \<Rightarrow> string \<Rightarrow> string \<Rightarrow> string" where
  "encodeTopic node user topic = encode IDTopic node user [topic]"

definition encodeSend :: "string \<Rightarrow> string \<Rightarrow> string \<Rightarrow> string \<Rightarrow> string" where
  "encodeSend node user target text = encode IDSend node user [target, text]"

definition encodeKeepalive :: "string \<Rightarrow> string \<Rightarrow> string \<Rightarrow> string" where
  "encodeKeepalive node link version = encode IDKeepalive node link [version]"

definition encodePollResp :: "string \<Rightarrow> string \<Rightarrow> string" where
  "encodePollResp node link = encode IDPollResp node link []"

subsection \<open>What is decoded\<close>

definition clean :: "string \<Rightarrow> bool" where
  "clean s \<longleftrightarrow> (\<forall>c \<in> set s. 0x20 \<le> byte c \<or> c = CHR 0x09 \<or> c = FORMAT)"

lemma clean_simps [simp]: "clean []" "clean (c # s) \<longleftrightarrow> (0x20 \<le> byte c \<or> c = CHR 0x09 \<or> c = FORMAT) \<and> clean s"
  "clean (s @ t) \<longleftrightarrow> clean s \<and> clean t"
  by (auto simp: clean_def)

lemma decode_body_iff:
  "decode_body s = (if clean s then Some (ReplaceAll s (CHR 0x09) (CHR '' '')) else None)"
  by (induction s) (auto simp: ReplaceAll_def)

text \<open>A TAB and a blank separate fields alike.\<close>

lemma space_len_detab:
  "space_len (ReplaceAll s (CHR 0x09) (CHR '' '')) = space_len s"
  by (induction s rule: space_len.induct) (auto simp: ReplaceAll_def sp_defs)

lemma drop_ReplaceAll: "drop n (ReplaceAll s a b) = ReplaceAll (drop n s) a b"
  by (simp add: ReplaceAll_def drop_map)

lemma Fields_from_detab:
  "CHR 0x09 \<notin> set acc \<Longrightarrow> Fields_from acc (ReplaceAll s (CHR 0x09) (CHR '' '')) = Fields_from acc s"
proof (induction acc s rule: Fields_from.induct)
  case (1 acc s)
  let ?r = "\<lambda>s. ReplaceAll s (CHR 0x09) (CHR '' '')"
  consider "s = []" | "s \<noteq> []" "space_len s = 0" | "s \<noteq> []" "space_len s \<noteq> 0" by blast
  then show ?case
  proof cases
    case 2
    then obtain c t where s: "s = c # t" by (cases s) auto
    have "c \<noteq> CHR 0x09" using 2 space_len_sp1 [of c t] by (auto simp: s sp1_def)
    with "1.IH"(1) 2 "1.prems" have "Fields_from (c # acc) (?r t) = Fields_from (c # acc) t"
      by (simp add: s)
    moreover have "?r s = c # ?r t" "space_len (c # ?r t) = 0"
      using 2 \<open>c \<noteq> CHR 0x09\<close> space_len_detab [of s] by (simp_all add: s ReplaceAll_def)
    ultimately show ?thesis using 2 by (simp add: Fields_from.simps [of acc "c # _"] s)
  next
    case 3
    have r: "?r s \<noteq> []" using 3 by (simp add: ReplaceAll_def)
    have "Fields_from [] (?r (drop (space_len s) s)) = Fields_from [] (drop (space_len s) s)"
      using "1.IH"(2) 3 by simp
    with 3 r show ?thesis
      by (simp add: Fields_from.simps [of acc "?r s"] Fields_from.simps [of acc s] space_len_detab drop_ReplaceAll)
  qed (simp add: ReplaceAll_def)
qed

lemma Fields_detab: "Fields (ReplaceAll s (CHR 0x09) (CHR '' '')) = Fields s"
  by (simp add: Fields_def Fields_from_detab)
lemma Decode_eq:
  "Decode line = (if IsControl line \<and> clean (drop 2 line) \<and> 2 \<le> length (Fields (drop 2 line))
     then Some \<lparr>r_Raw = line, r_Type = line ! 1, r_Node = ToUpper (Fields (drop 2 line) ! 0),
                r_User = ToUpper (Fields (drop 2 line) ! 1), r_Args = drop 2 (Fields (drop 2 line))\<rparr>
     else None)"
  by (simp add: Decode_def Let_def decode_body_iff Fields_detab not_less)

lemma Decode_cons: "IsControl (FORMAT # typ # body)" "drop 2 (FORMAT # typ # body) = body" "(FORMAT # typ # body) ! 1 = typ"
  by (simp_all add: IsControl_def)

text \<open>What every decoded record satisfies.\<close>

definition record_ok :: "wire_record \<Rightarrow> bool" where
  "record_ok r \<longleftrightarrow>
     Decode (r_Raw r) = Some r \<and> r_Node r \<noteq> '''' \<and> nosp (r_Node r) \<and> ToUpper (r_Node r) = r_Node r
   \<and> r_User r \<noteq> '''' \<and> nosp (r_User r) \<and> ToUpper (r_User r) = r_User r
   \<and> (\<forall>a \<in> set (r_Args r). nosp a \<and> a \<noteq> '''')"

text \<open>
  A line decodes exactly if it starts with Ctrl-A and a type byte, holds no control byte
  but TAB and Ctrl-A after them, and has at least two fields; a decoded record keeps the line
  verbatim, has a non-empty node and user in upper case, and no field is empty or holds white
  space.
\<close>

theorem Decode_exact:
  "(Decode line \<noteq> None \<longleftrightarrow>
      2 \<le> length line \<and> line ! 0 = CHR 0x01 \<and> 2 \<le> length (Fields (drop 2 line)) \<and>
      (\<forall>c \<in> set (drop 2 line). 0x20 \<le> byte c \<or> c = CHR 0x09 \<or> c = CHR 0x01))
   \<and> (\<forall>r. Decode line = Some r \<longrightarrow> r_Raw r = line \<and> r_Type r = line ! 1 \<and> record_ok r)"
proof (intro conjI allI impI)
  show "(Decode line \<noteq> None) \<longleftrightarrow> 2 \<le> length line \<and> line ! 0 = CHR 0x01 \<and> 2 \<le> length (Fields (drop 2 line)) \<and>
      (\<forall>c \<in> set (drop 2 line). 0x20 \<le> byte c \<or> c = CHR 0x09 \<or> c = CHR 0x01)"
    by (auto simp: Decode_eq IsControl_def clean_def FORMAT_def)
next
  fix r assume d: "Decode line = Some r"
  let ?f = "Fields (drop 2 line)"
  have f: "2 \<le> length ?f" and r: "r = \<lparr>r_Raw = line, r_Type = line ! 1, r_Node = ToUpper (?f ! 0),
                r_User = ToUpper (?f ! 1), r_Args = drop 2 ?f\<rparr>"
    using d by (simp_all add: Decode_eq split: if_splits)
  have "nosp (?f ! i) \<and> ?f ! i \<noteq> ''''" if "i < length ?f" for i
    using Fields_sound [of "?f ! i" "drop 2 line"] that by simp
  moreover have "0 < length ?f" "1 < length ?f" using f by linarith+
  ultimately have n: "nosp (?f ! 0) \<and> ?f ! 0 \<noteq> ''''" "nosp (?f ! 1) \<and> ?f ! 1 \<noteq> ''''" by blast+
  moreover have "\<forall>a \<in> set (drop 2 ?f). nosp a \<and> a \<noteq> ''''"
    by (auto dest!: in_set_dropD Fields_sound)
  ultimately show "record_ok r" using d by (simp add: record_ok_def r)
  show "r_Raw r = line" "r_Type r = line ! 1" by (simp_all add: r)
qed

theorem Decode_exact_witness:
  "\<exists>r. Decode ([CHR 0x01, CHR ''T''] @ ''gb7rdg-4 2e0xyz lounge'') = Some r \<and> r_Node r = ''GB7RDG-4'' \<and> record_ok r"
proof -
  let ?l = "[CHR 0x01, CHR ''T''] @ ''gb7rdg-4 2e0xyz lounge''"
  have "map_option r_Node (Decode ?l) = Some ''GB7RDG-4''" by code_simp
  then obtain r where "Decode ?l = Some r" "r_Node r = ''GB7RDG-4''" by auto
  with Decode_exact [of ?l] show ?thesis by blast
qed

subsection \<open>Round trips\<close>

text \<open>A callsign-like field: no white space, not empty, no control byte.\<close>

definition token :: "string \<Rightarrow> bool" where
  "token s \<longleftrightarrow> nosp s \<and> s \<noteq> '''' \<and> clean s"

definition spaced :: "string list \<Rightarrow> string" where
  "spaced rest = concat (map (\<lambda>f. CHR '' '' # f) rest)"

lemma spaced_Cons: "spaced (f # fs) = CHR '' '' # f @ spaced fs"
  by (simp add: spaced_def)

lemma clean_spaced: "clean (spaced fs) \<longleftrightarrow> list_all clean fs"
  by (induction fs) (simp_all add: spaced_def)

lemma Fields_token_spaced: "token s \<Longrightarrow> Fields (s @ spaced (f # fs)) = s # Fields (f @ spaced fs)"
  by (simp add: spaced_Cons Fields_blank_append token_def)

lemma Fields_leading_blank: "Fields (CHR '' '' # s) = Fields s"
  using Fields_blank_append [of "''''" s] by simp

lemma Decode_encode:
  assumes "token node" "token user" "list_all clean rest"
  shows "Decode (encode typ node user rest) =
    Some \<lparr>r_Raw = encode typ node user rest, r_Type = typ, r_Node = ToUpper node, r_User = ToUpper user,
          r_Args = Fields (spaced rest)\<rparr>"
proof -
  have e: "encode typ node user rest = FORMAT # typ # node @ CHR '' '' # user @ spaced rest"
    by (simp add: encode_def spaced_def)
  have u: "Fields (user @ spaced rest) = user # Fields (spaced rest)"
  proof (cases rest)
    case Nil
    then show ?thesis using assms(2) by (simp add: spaced_def token_def Fields_nosp)
  next
    case (Cons f fs)
    then show ?thesis
      using Fields_token_spaced [OF assms(2)] by (simp add: spaced_Cons Fields_leading_blank)
  qed
  have "Fields (node @ CHR '' '' # user @ spaced rest) = node # user # Fields (spaced rest)"
    using assms(1) by (simp add: Fields_blank_append token_def u)
  moreover have "clean (node @ CHR '' '' # user @ spaced rest)"
    using assms by (simp add: token_def clean_spaced)
  ultimately show ?thesis unfolding e Decode_eq Decode_cons(2,3) by (simp add: Decode_cons(1))
qed

text \<open>
  A message record comes back with the node and the user upper-cased and with the text
  blank-normalised: every run of white space becomes one blank and the ends are trimmed. A text
  that is its own fields joined by blanks comes back unchanged.
\<close>

theorem encodeData_roundtrip:
  assumes "token node" "token user" "clean text"
  shows "\<exists>r. Decode (encodeData node user text) = Some r \<and> r_Type r = IDData \<and> r_Node r = ToUpper node
    \<and> r_User r = ToUpper user \<and> Tail r 0 = Join (Fields text) (CHR '' '')
    \<and> (\<forall>ws. text = Join ws (CHR '' '') \<and> list_all token ws \<longrightarrow> Tail r 0 = text)"
proof -
  have "Fields (spaced [text]) = Fields text" by (simp add: spaced_def Fields_leading_blank)
  moreover have "Fields text = ws" if "text = Join ws (CHR '' '')" "list_all token ws" for ws
    using that by (auto simp: token_def list_all_iff intro!: Fields_Join)
  ultimately show ?thesis
    unfolding encodeData_def using assms
    by (intro exI conjI, subst Decode_encode) (auto simp: Tail_def)
qed

lemma token_demo: "token ''M0LTE-4''" "token ''g8pzt''" "token ''hi''" "token ''all''" "clean ''hi  all ''"
  by code_simp+

theorem encodeData_roundtrip_witness:
  "\<exists>r. Decode (encodeData ''M0LTE-4'' ''g8pzt'' ''hi  all '') = Some r \<and> r_User r = ''G8PZT'' \<and> Tail r 0 = ''hi all''"
proof -
  have "Join (Fields ''hi  all '') (CHR '' '') = ''hi all''" "ToUpper ''g8pzt'' = ''G8PZT''" by code_simp+
  with encodeData_roundtrip [OF token_demo(1,2,5)] show ?thesis by auto
qed

text \<open>
  The name fields of a J, L or I record. Printable ASCII is what a name can hold without a byte
  of it being dropped or split on the way.
\<close>

definition printable :: "string \<Rightarrow> bool" where
  "printable s \<longleftrightarrow> (\<forall>c \<in> set s. 0x20 \<le> byte c \<and> byte c < 0x7F)"

lemma printable_simps [simp]: "printable []" "printable (c # s) \<longleftrightarrow> 0x20 \<le> byte c \<and> byte c < 0x7F \<and> printable s"
  by (auto simp: printable_def)

lemma printable_nosp: "printable s \<Longrightarrow> CHR '' '' \<notin> set s \<Longrightarrow> nosp s"
proof (induction s)
  case (Cons c s)
  have "byte c \<noteq> 32" 
  proof
    assume "byte c = 32"
    moreover have "byte (CHR '' '') = 32" by simp
    ultimately have "c = CHR '' ''" by (metis byte_inject)
    with Cons.prems(2) show False by simp
  qed
  then have "space_len (c # s) = 0" using Cons.prems(1)
    by (cases "c # s" rule: space_len.cases) (auto simp: sp_defs)
  with Cons show ?case by simp
qed simp

lemma printable_clean: "printable s \<Longrightarrow> clean s"
  by (auto simp: printable_def clean_def)

lemma printable_orDash: "printable s \<Longrightarrow> printable (orDash s)"
  by (auto simp: orDash_def ReplaceAll_def printable_def)

lemma orDash_noblank: "CHR '' '' \<notin> set (orDash s)"
  by (auto simp: orDash_def ReplaceAll_def)

lemma orDash_ne: "orDash s \<noteq> ''''"
  by (auto simp: orDash_def ReplaceAll_def)

lemma token_orDash: "printable s \<Longrightarrow> token (orDash s)"
  by (simp add: token_def printable_nosp printable_orDash orDash_noblank orDash_ne printable_clean)

lemma unDash_orDash:
  "CHR ''_'' \<notin> set s \<Longrightarrow> s \<noteq> ''?'' \<Longrightarrow> unDash (orDash s) = (if TrimSpace s = '''' then '''' else s)"
proof -
  assume a: "CHR ''_'' \<notin> set s" "s \<noteq> ''?''"
  have q: "ReplaceAll s (CHR '' '') (CHR ''_'') \<noteq> ''?''"
  proof
    assume "ReplaceAll s (CHR '' '') (CHR ''_'') = ''?''"
    then obtain c where "s = [c]" "(if c = CHR '' '' then CHR ''_'' else c) = CHR ''?''"
      by (auto simp: ReplaceAll_def map_eq_Cons_conv)
    with a(2) show False by (simp split: if_splits)
  qed
  have "ReplaceAll (ReplaceAll s (CHR '' '') (CHR ''_'')) (CHR ''_'') (CHR '' '') = s"
    using a(1) by (auto simp: ReplaceAll_def intro!: map_idI)
  then show ?thesis using q by (auto simp: orDash_def unDash_def)
qed

lemma Fields_two_tokens: "token a \<Longrightarrow> token b \<Longrightarrow> Fields (spaced [a, b]) = [a, b]"
  using Fields_Join [of "[a, b]"] by (simp add: spaced_def Fields_leading_blank token_def)

lemma encodeJoin_fields:
  assumes "token node" "token user" "printable name" "printable qth"
    and "CHR ''_'' \<notin> set name" "CHR ''_'' \<notin> set qth" "name \<noteq> ''?''" "qth \<noteq> ''?''"
  shows "\<exists>r. Decode (encodeJoin node user name qth) = Some r \<and> r_Type r = IDJoin \<and> r_Node r = ToUpper node
    \<and> r_User r = ToUpper user \<and> length (r_Args r) = 2
    \<and> unDash (Field r 0) = (if TrimSpace name = '''' then '''' else name)
    \<and> unDash (Field r 1) = (if TrimSpace qth = '''' then '''' else qth)"
proof -
  note t = token_orDash [OF assms(3)] token_orDash [OF assms(4)]
  have c: "list_all clean [orDash name, orDash qth]" using t by (simp add: token_def)
  show ?thesis
    unfolding encodeJoin_def Decode_encode [OF assms(1,2) c] Fields_two_tokens [OF t]
    using assms by (simp add: Field_def unDash_orDash)
qed

lemma encodeTopic_fields:
  assumes "token node" "token user" "token topic"
  shows "\<exists>r. Decode (encodeTopic node user topic) = Some r \<and> r_Type r = IDTopic \<and> r_Node r = ToUpper node
    \<and> r_User r = ToUpper user \<and> Field r 0 = topic"
proof -
  have f: "Fields (spaced [topic]) = [topic]"
    using assms(3) by (simp add: spaced_def Fields_leading_blank Fields_nosp token_def)
  have "list_all clean [topic]" using assms(3) by (simp add: token_def)
  from Decode_encode [OF assms(1,2) this] show ?thesis unfolding encodeTopic_def f by (simp add: Field_def)
qed

text \<open>
  The name and the QTH of a J record (and of an L record) come back as they were sent, a
  blank one as empty, if they are printable ASCII without an underscore and not a lone question
  mark: the placeholder keeps the two fields from shifting into each other.
\<close>

theorem encodeJoin_roundtrip:
  assumes "token node" "token user" "printable name" "printable qth"
    and "CHR ''_'' \<notin> set name" "CHR ''_'' \<notin> set qth" "name \<noteq> ''?''" "qth \<noteq> ''?''"
  shows "\<exists>r. Decode (encodeJoin node user name qth) = Some r \<and> r_Type r = IDJoin \<and> r_Node r = ToUpper node
    \<and> r_User r = ToUpper user \<and> length (r_Args r) = 2
    \<and> unDash (Field r 0) = (if TrimSpace name = '''' then '''' else name)
    \<and> unDash (Field r 1) = (if TrimSpace qth = '''' then '''' else qth)"
  using encodeJoin_fields [OF assms] .

theorem encodeJoin_roundtrip_witness:
  "\<exists>r. Decode (encodeJoin ''M0LTE-4'' ''g8pzt'' ''Tom F'' '''') = Some r \<and> unDash (Field r 0) = ''Tom F'' \<and> unDash (Field r 1) = ''''"
proof -
  have "printable ''Tom F''" "TrimSpace ''Tom F'' \<noteq> ''''" by code_simp+
  with encodeJoin_roundtrip [OF token_demo(1,2), of "''Tom F''" "''''"] show ?thesis by auto
qed

end
