(* ===== verification/Peer_Router.thy ===== *)
theory Peer_Router
  imports Peer_Proto Chat_Hub_Spec
begin

text \<open>
  \<^verbatim>\<open>internal/peer/router.go\<close>: the relay between the hub and the peer links. The record
  \<open>router\<close> has the fields of \<^verbatim>\<open>Router\<close>; the hub it drives is a component of it,
  and \<open>rt_sub\<close> is its subscription. A registered link is a handle of type \<open>'l\<close>; the
  writes of an operation to the links are its result, a list of handles with the record each
  gets, in the order of the calls of \<^verbatim>\<open>sendRaw\<close> (whose errors the code ignores). The
  links are iterated in the order of the association list: Go leaves the order of a map open, and
  no lemma depends on it.
\<close>

record ('s, 'l) router =
  rt_hub :: "'s hub"
  rt_ourNode :: string
  rt_links :: "(string, 'l) gomap"
  rt_sub :: nat

definition NewRouter :: "'s hub \<Rightarrow> ('s, 'l) router" where
  "NewRouter hub =
     (let (sub, hub) = Hub_Subscribe hub
      in \<lparr>rt_hub = hub, rt_ourNode = h_ourNode hub, rt_links = [], rt_sub = sub\<rparr>)"

definition Router_Close :: "('s, 'l) router \<Rightarrow> ('s, 'l) router" where
  "Router_Close r = r\<lparr>rt_hub := Hub_cancel (rt_hub r) (rt_sub r)\<rparr>"

text \<open>\<open>i\<close> is \<^verbatim>\<open>l.id()\<close>.\<close>

definition Router_Add :: "('s, 'l) router \<Rightarrow> string \<Rightarrow> 'l \<Rightarrow> ('s, 'l) router" where
  "Router_Add r i l = r\<lparr>rt_links := AList.update i l (rt_links r)\<rparr>"

definition Router_Remove :: "('s, 'l) router \<Rightarrow> string \<Rightarrow> ('s, 'l) router" where
  "Router_Remove r i = r\<lparr>rt_links := AList.delete i (rt_links r)\<rparr>"

definition isLocal :: "('s, 'l) router \<Rightarrow> user \<Rightarrow> bool" where
  "isLocal r u \<longleftrightarrow> o_node (u_origin u) = rt_ourNode r"

fun encodeLocal :: "('s, 'l) router \<Rightarrow> event \<Rightarrow> string option" where
  "encodeLocal r (TopicMessage m) =
     (if m_originNode m = rt_ourNode r then Some (encodeData (rt_ourNode r) (m_fromCall m) (m_text m)) else None)"
| "encodeLocal r (PrivateMessage m) =
     (if m_originNode m = rt_ourNode r
      then Some (encodeSend (rt_ourNode r) (m_fromCall m) (m_toCall m) (m_text m)) else None)"
| "encodeLocal r (UserJoined u) =
     (if isLocal r u then Some (encodeJoin (rt_ourNode r) (u_call u) (u_name u) (u_qth u)) else None)"
| "encodeLocal r (UserLeft u) =
     (if isLocal r u then Some (encodeLeave (rt_ourNode r) (u_call u) (u_name u) (u_qth u)) else None)"
| "encodeLocal r (TopicChanged u _) =
     (if isLocal r u then Some (encodeTopic (rt_ourNode r) (u_call u) (u_topic u)) else None)"
| "encodeLocal r (UserInfoChanged u) =
     (if isLocal r u
      then Some (encode IDUser (rt_ourNode r) (u_call u) [orDash (u_name u), orDash (u_qth u)]) else None)"
| "encodeLocal r (NodeLinked _) = None"
| "encodeLocal r (NodeUnlinked _) = None"

definition forward :: "('s, 'l) router \<Rightarrow> string \<Rightarrow> string \<Rightarrow> ('l \<times> string) list" where
  "forward r raw exceptID = map (\<lambda>(_, l). (l, raw)) (filter (\<lambda>(i, _). i \<noteq> exceptID) (rt_links r))"

text \<open>One turn of the loop of \<^verbatim>\<open>fanOutLocal\<close>: the next buffered event, if there is one.\<close>

definition fanOutLocal :: "('s, 'l) router \<Rightarrow> ('s, 'l) router \<times> ('l \<times> string) list" where
  "fanOutLocal r =
     (let (ev, hub) = Hub_recv (rt_hub r) (rt_sub r);
          r = r\<lparr>rt_hub := hub\<rparr>
      in case ev of
           None \<Rightarrow> (r, [])
         | Some ev \<Rightarrow>
             (case encodeLocal r ev of
                None \<Rightarrow> (r, [])
              | Some raw \<Rightarrow> (r, forward r raw '''')))"

definition topicOf :: "('s, 'l) router \<Rightarrow> user_key \<Rightarrow> string" where
  "topicOf r key = (case Hub_User (rt_hub r) key of Some u \<Rightarrow> u_topic u | None \<Rightarrow> DefaultTopic)"

text \<open>The Go conversion \<^verbatim>\<open>string(b)\<close> of a byte: the UTF-8 encoding of the rune \<open>b\<close>.\<close>

definition string_of_byte :: "char \<Rightarrow> string" where
  "string_of_byte c =
     (if byte c < 0x80 then [c] else [char_of (0xC0 + byte c div 64), char_of (0x80 + byte c mod 64)])"

definition recordID :: "('s, 'l) router \<Rightarrow> wire_record \<Rightarrow> string" where
  "recordID r rc =
     (let key = UserKey (r_User rc) (r_Node rc)
      in if r_Type rc = IDData then
           SynthID (h_hash (rt_hub r)) (r_Node rc) (r_User rc) KindTopic (topicOf r key) (Tail rc 0)
         else if r_Type rc = IDSend then
           SynthID (h_hash (rt_hub r)) (r_Node rc) (r_User rc) KindPrivate (Field rc 0) (Tail rc 1)
         else ''rec:'' @ string_of_byte (r_Type rc) @ '':'' @ r_Raw rc)"

definition ensureUser :: "'s hub \<Rightarrow> wire_record \<Rightarrow> string \<Rightarrow> 's hub" where
  "ensureUser hub rc fromID =
     (case Hub_User hub (UserKey (r_User rc) (r_Node rc)) of
        Some _ \<Rightarrow> hub
      | None \<Rightarrow>
          let (name, qth) = (if r_Type rc = IDJoin \<or> r_Type rc = IDUser
                             then (unDash (Field rc 0), unDash (Field rc 1)) else ('''', ''''))
          in fst (Hub_Join hub (mk_user (r_User rc) name qth
                   \<lparr>o_node = r_Node rc, o_local = False, o_link = fromID\<rparr>)))"

definition apply_rec :: "'s hub \<Rightarrow> wire_record \<Rightarrow> string \<Rightarrow> 's hub" where
  "apply_rec hub rc fromID =
     (let key = UserKey (r_User rc) (r_Node rc); t = r_Type rc
      in if t = IDJoin then
           let hub = ensureUser hub rc fromID; name = unDash (Field rc 0); qth = unDash (Field rc 1)
           in if name \<noteq> '''' \<or> qth \<noteq> '''' then fst (Hub_SetInfo hub key name qth) else hub
         else if t = IDLeave then Hub_Leave hub key
         else if t = IDUser then
           fst (Hub_SetInfo (ensureUser hub rc fromID) key (unDash (Field rc 0)) (unDash (Field rc 1)))
         else if t = IDTopic then fst (Hub_SetTopic (ensureUser hub rc fromID) key (Field rc 0))
         else if t = IDData then fst (Hub_Post (ensureUser hub rc fromID) key (Tail rc 0))
         else if t = IDSend then fst (Hub_Private (ensureUser hub rc fromID) key (Field rc 0) (Tail rc 1))
         else if t = IDLink then fst (Hub_LinkNode hub (Field rc 0) (unDash (Field rc 1)) (Field rc 2))
         else if t = IDUnlink then fst (Hub_UnlinkNode hub (Field rc 0))
         else hub)"

definition Ingest :: "('s, 'l) router \<Rightarrow> wire_record \<Rightarrow> string \<Rightarrow> ('s, 'l) router \<times> ('l \<times> string) list" where
  "Ingest r rc fromID =
     (if r_Node rc = '''' \<or> EqualFold (r_Node rc) (rt_ourNode r) then (r, [])
      else
        let i = recordID r rc;
            (dup, hub) = (if i \<noteq> '''' then Hub_Seen (rt_hub r) i else (False, rt_hub r));
            r = r\<lparr>rt_hub := hub\<rparr>
        in if dup then (r, [])
           else
             let r = r\<lparr>rt_hub := apply_rec (rt_hub r) rc fromID\<rparr>
             in (r, forward r (r_Raw rc) fromID))"

subsection \<open>What an inbound record can touch\<close>

text \<open>An event the fan-out of a node called \<open>n\<close> ignores.\<close>

fun foreign :: "string \<Rightarrow> event \<Rightarrow> bool" where
  "foreign n (TopicMessage m) \<longleftrightarrow> m_originNode m \<noteq> n"
| "foreign n (PrivateMessage m) \<longleftrightarrow> m_originNode m \<noteq> n"
| "foreign n (UserJoined u) \<longleftrightarrow> o_node (u_origin u) \<noteq> n"
| "foreign n (UserLeft u) \<longleftrightarrow> o_node (u_origin u) \<noteq> n"
| "foreign n (TopicChanged u _) \<longleftrightarrow> o_node (u_origin u) \<noteq> n"
| "foreign n (UserInfoChanged u) \<longleftrightarrow> o_node (u_origin u) \<noteq> n"
| "foreign n (NodeLinked _) \<longleftrightarrow> True"
| "foreign n (NodeUnlinked _) \<longleftrightarrow> True"

lemma encodeLocal_None_iff: "encodeLocal r e = None \<longleftrightarrow> foreign (rt_ourNode r) e"
  by (cases e) (auto simp: isLocal_def)

text \<open>
  \<open>h'\<close> comes from \<open>h\<close> by changing at most the user \<open>k\<close>, and the channels grew by
  events that a node called \<open>n\<close> does not announce.
\<close>

definition touches :: "string \<Rightarrow> user_key \<Rightarrow> 's hub \<Rightarrow> 's hub \<Rightarrow> bool" where
  "touches n k h h' \<longleftrightarrow>
     (\<forall>k'. k' \<noteq> k \<longrightarrow> map_of (h_users h') k' = map_of (h_users h) k')
   \<and> (\<forall>i. \<exists>es. map_of (h_subs h') i = map_option (\<lambda>ch. ch @ es) (map_of (h_subs h) i) \<and> (\<forall>e \<in> set es. foreign n e))"

lemma touches_refl: "h_users h' = h_users h \<Longrightarrow> h_subs h' = h_subs h \<Longrightarrow> touches n k h h'"
  by (auto simp: touches_def intro!: exI [of _ "[]"] simp: option.map_id [unfolded id_def])

lemma touches_trans:
  assumes "touches n k h h'" "touches n k h' h''"
  shows "touches n k h h''"
  unfolding touches_def
proof (intro conjI allI)
  fix i
  obtain es es' where "map_of (h_subs h') i = map_option (\<lambda>ch. ch @ es) (map_of (h_subs h) i)" "\<forall>e \<in> set es. foreign n e"
    "map_of (h_subs h'') i = map_option (\<lambda>ch. ch @ es') (map_of (h_subs h') i)" "\<forall>e \<in> set es'. foreign n e"
    using assms unfolding touches_def by meson
  then show "\<exists>es. map_of (h_subs h'') i = map_option (\<lambda>ch. ch @ es) (map_of (h_subs h) i) \<and> (\<forall>e \<in> set es. foreign n e)"
    by (intro exI [of _ "es @ es'"]) (auto simp: option.map_comp comp_def)
qed (use assms in \<open>auto simp: touches_def\<close>)

lemma fold_offer_subset: "\<exists>es'. fold offer es ch = ch @ es' \<and> set es' \<subseteq> set es"
proof (induction es arbitrary: ch)
  case (Cons e es)
  from Cons [of "offer e ch"] show ?case by (auto simp: offer_def split: if_splits)
qed simp

lemma touches_emit:
  assumes "\<And>k'. k' \<noteq> k \<Longrightarrow> map_of (h_users h') k' = map_of (h_users h) k'" "h_subs h' = h_subs h"
    and "\<forall>e \<in> set es. foreign n e"
  shows "touches n k h (emit es h')"
  unfolding touches_def
proof (intro conjI allI)
  fix i
  show "\<exists>es'. map_of (h_subs (emit es h')) i = map_option (\<lambda>ch. ch @ es') (map_of (h_subs h) i) \<and> (\<forall>e \<in> set es'. foreign n e)"
  proof (cases "map_of (h_subs h) i")
    case (Some ch)
    obtain es' where "fold offer es ch = ch @ es'" "set es' \<subseteq> set es" using fold_offer_subset by blast
    then show ?thesis using Some assms(2,3) by (auto simp: emit_subs)
  qed (use assms(2) in \<open>auto simp: emit_subs intro: exI [of _ "[]"]\<close>)
qed (use assms(1) in auto)

text \<open>The operations on one user touch only that user and announce only its home node.\<close>

lemma touches_record:
  assumes "foreign n (ev m)"
  shows "touches n k h (fst (record_and_emit h m ev))"
proof -
  let ?h = "snd (Hub_Seen h (m_id m))"
  have "touches n k h ?h" by (rule touches_refl) simp_all
  moreover have "touches n k h (emit [ev m] (?h\<lparr>h_store := st\<rparr>))" for st
    by (rule touches_emit) (use assms in simp_all)
  ultimately show ?thesis by (simp add: record_and_emit_def Let_def split: sum.split)
qed

lemma touches_Join:
  assumes "hub_inv h" "normCall (o_node (u_origin u)) \<noteq> n"
  shows "touches n (canonKey (UserKey (u_call u) (o_node (u_origin u)))) h (fst (Hub_Join h u))"
proof (cases "normCall (u_call u) = '''' \<or> normCall (o_node (u_origin u)) = ''''")
  case False
  then show ?thesis by (auto elim!: Join_accepted [OF assms(1)] intro!: touches_emit simp: assms(2))
qed (simp add: Join_refused touches_refl)

lemma touches_Post: "normCall (uk_node key) \<noteq> n \<Longrightarrow> touches n (canonKey key) h (fst (Hub_Post h key text))"
proof -
  assume n: "normCall (uk_node key) \<noteq> n"
  have "touches n (canonKey key) h (fst (record_and_emit (tick (tick (setUser (canonKey key) u h)))
      (post_msg h (canonKey key) topic (clip text)) TopicMessage))" for u topic
  proof (rule touches_trans [OF _ touches_record])
    show "touches n (canonKey key) h (tick (tick (setUser (canonKey key) u h)))"
      using touches_emit [of "canonKey key" "tick (tick (setUser (canonKey key) u h))" h "[]" n] by (simp add: emit_def)
  qed (use n in \<open>simp add: post_msg_def\<close>)
  then show ?thesis by (simp add: Post_eq touches_refl split: option.split)
qed

lemma touches_Private: "normCall (uk_node key) \<noteq> n \<Longrightarrow> touches n (canonKey key) h (fst (Hub_Private h key c text))"
proof -
  assume n: "normCall (uk_node key) \<noteq> n"
  have "touches n (canonKey key) h (fst (record_and_emit (tick h) (private_msg h (canonKey key) (normCall c) (clip text)) PrivateMessage))"
    by (rule touches_trans [OF touches_refl touches_record]) (use n in \<open>simp_all add: private_msg_def\<close>)
  then show ?thesis by (simp add: Private_eq touches_refl)
qed

lemma user_node:
  "hub_inv h \<Longrightarrow> map_of (h_users h) (canonKey key) = Some u \<Longrightarrow> o_node (u_origin u) = normCall (uk_node key)"
  using hub_invD(2) [of h] by (auto simp: users_ok_def user_ok_def User_Key_def canonKey_def)

lemma touches_Leave:
  "hub_inv h \<Longrightarrow> normCall (uk_node key) \<noteq> n \<Longrightarrow> touches n (canonKey key) h (Hub_Leave h key)"
  by (auto simp: Hub_Leave_def Let_def touches_refl user_node split: option.split intro!: touches_emit)

lemma touches_SetInfo:
  "hub_inv h \<Longrightarrow> normCall (uk_node key) \<noteq> n \<Longrightarrow> touches n (canonKey key) h (fst (Hub_SetInfo h key name qth))"
  by (auto simp: Hub_SetInfo_def Let_def touches_refl user_node split: option.split intro!: touches_emit)

lemma touches_SetTopic:
  assumes "hub_inv h" "normCall (uk_node key) \<noteq> n"
  shows "touches n (canonKey key) h (fst (Hub_SetTopic h key name))"
proof (cases "\<exists>u. normTopicKey name \<noteq> '''' \<and> map_of (h_users h) (canonKey key) = Some u \<and>
    normTopicKey (u_topic u) \<noteq> normTopicKey name")
  case True
  then show ?thesis
    using user_node [OF assms(1)] assms(2)
    by (auto elim!: SetTopic_moves [OF assms(1)] intro!: touches_emit)
next
  case False
  then show ?thesis
    by (cases "map_of (h_users h) (canonKey key)") (auto simp: Hub_SetTopic_def Let_def touches_refl)
qed

lemma touches_LinkNode: "touches n k h (fst (Hub_LinkNode h c a v))"
proof (cases "normCall c = '''' \<or> map_of (h_nodes h) (normCall c) \<noteq> None")
  case True
  then show ?thesis by (auto simp: Hub_LinkNode_def Let_def intro!: touches_refl)
next
  case False
  then show ?thesis by (auto simp: Hub_LinkNode_def Let_def intro!: touches_emit)
qed

lemma hub_inv_ensureUser: "hub_inv h \<Longrightarrow> hub_inv (ensureUser h rc fromID)"
  by (auto simp: ensureUser_def Let_def split: option.split intro: inv_intros)

lemma hub_inv_apply_rec [inv_intros]: "hub_inv h \<Longrightarrow> hub_inv (apply_rec h rc fromID)"
  by (simp add: apply_rec_def Let_def inv_intros hub_inv_ensureUser)

lemma touches_ensureUser:
  assumes "hub_inv h" "normCall (r_Node rc) \<noteq> n"
  shows "touches n (canonKey (UserKey (r_User rc) (r_Node rc))) h (ensureUser h rc fromID)"
proof -
  have "touches n (canonKey (UserKey (r_User rc) (r_Node rc))) h (fst (Hub_Join h (mk_user (r_User rc) name qth
      \<lparr>o_node = r_Node rc, o_local = False, o_link = fromID\<rparr>)))" for name qth
    using touches_Join [OF assms(1), of "mk_user (r_User rc) name qth
      \<lparr>o_node = r_Node rc, o_local = False, o_link = fromID\<rparr>" n] assms(2) by simp
  then show ?thesis by (simp add: ensureUser_def Let_def touches_refl split: option.split)
qed

lemma touches_apply_rec:
  assumes inv: "hub_inv h" and n: "normCall (r_Node rc) \<noteq> n" and t: "r_Type rc \<noteq> IDUnlink"
  shows "touches n (canonKey (UserKey (r_User rc) (r_Node rc))) h (apply_rec h rc fromID)"
proof -
  note e = touches_ensureUser [OF inv n, of fromID]
  note inv' = hub_inv_ensureUser [OF inv, of rc fromID]
  have n': "normCall (uk_node (UserKey (r_User rc) (r_Node rc))) \<noteq> n" using n by simp
  show ?thesis
    using t e
    by (simp add: apply_rec_def Let_def touches_refl touches_LinkNode touches_Leave [OF inv n']
        touches_trans [OF e touches_SetInfo [OF inv' n']] touches_trans [OF e touches_SetTopic [OF inv' n']]
        touches_trans [OF e touches_Post [OF n']] touches_trans [OF e touches_Private [OF n']])
qed

text \<open>A record of another node, in the terms of the guard of \<^verbatim>\<open>Ingest\<close>.\<close>

lemma record_ok_normCall: "record_ok rc \<Longrightarrow> normCall (r_Node rc) = r_Node rc \<and> normCall (r_User rc) = r_User rc"
  by (simp add: record_ok_def normCall_def nosp_TrimSpace)

lemma upper_ourNode: "hub_inv h \<Longrightarrow> ToUpper (h_ourNode h) = h_ourNode h"
  using hub_invD(6) [of h] normCall_ToUpper(2) [of "h_ourNode h"] by simp

definition router_inv :: "('s, 'l) router \<Rightarrow> bool" where
  "router_inv r \<longleftrightarrow> hub_inv (rt_hub r) \<and> rt_ourNode r = h_ourNode (rt_hub r) \<and> gomap (rt_links r)"

lemma other_node:
  "router_inv r \<Longrightarrow> record_ok rc \<Longrightarrow> EqualFold (r_Node rc) (rt_ourNode r) \<longleftrightarrow> r_Node rc = rt_ourNode r"
  by (simp add: router_inv_def upper_ourNode record_ok_def EqualFold_upper)

lemma recordID_ne:
  "\<forall>x. h_hash (rt_hub r) x \<noteq> '''' \<Longrightarrow> recordID r rc \<noteq> ''''"
  by (simp add: recordID_def Let_def SynthID_ne)

lemma ensureUser_sel [simp]:
  assumes "hub_inv h"
  shows "h_ourNode (ensureUser h rc f) = h_ourNode h" "h_hash (ensureUser h rc f) = h_hash h"
    "h_clock (ensureUser h rc f) = h_clock h"
proof -
  have "h_ourNode (fst (Hub_Join h u)) = h_ourNode h \<and> h_hash (fst (Hub_Join h u)) = h_hash h \<and>
      h_clock (fst (Hub_Join h u)) = h_clock h" for u
    by (cases "normCall (u_call u) = '''' \<or> normCall (o_node (u_origin u)) = ''''")
      (auto simp: Join_refused elim!: Join_accepted [OF assms])
  then show "h_ourNode (ensureUser h rc f) = h_ourNode h" "h_hash (ensureUser h rc f) = h_hash h"
    "h_clock (ensureUser h rc f) = h_clock h"
    by (simp_all add: ensureUser_def Let_def split: option.split)
qed

lemma SetTopic_sel:
  "h_ourNode (fst (Hub_SetTopic h k n)) = h_ourNode h" "h_hash (fst (Hub_SetTopic h k n)) = h_hash h"
  "h_clock (fst (Hub_SetTopic h k n)) = h_clock h" "h_seen (fst (Hub_SetTopic h k n)) = h_seen h"
  "h_reads (fst (Hub_SetTopic h k n)) = h_reads h"
  by (simp_all add: Hub_SetTopic_def Let_def split_def split: option.split)

lemma hub_ops_sel:
  "h_ourNode (Hub_Leave h k) = h_ourNode h" "h_hash (Hub_Leave h k) = h_hash h" "h_clock (Hub_Leave h k) = h_clock h"
  "h_ourNode (fst (Hub_SetInfo h k n q)) = h_ourNode h" "h_hash (fst (Hub_SetInfo h k n q)) = h_hash h"
  "h_clock (fst (Hub_SetInfo h k n q)) = h_clock h"
  "h_ourNode (fst (Hub_LinkNode h c a v)) = h_ourNode h" "h_hash (fst (Hub_LinkNode h c a v)) = h_hash h"
  "h_clock (fst (Hub_LinkNode h c a v)) = h_clock h"
  "h_ourNode (fst (Hub_UnlinkNode h c)) = h_ourNode h" "h_hash (fst (Hub_UnlinkNode h c)) = h_hash h"
  "h_clock (fst (Hub_UnlinkNode h c)) = h_clock h"
  "h_ourNode (fst (Hub_Post h k t)) = h_ourNode h" "h_hash (fst (Hub_Post h k t)) = h_hash h"
  "h_clock (fst (Hub_Post h k t)) = h_clock h"
  "h_ourNode (fst (Hub_Private h k c t)) = h_ourNode h" "h_hash (fst (Hub_Private h k c t)) = h_hash h"
  "h_clock (fst (Hub_Private h k c t)) = h_clock h"
  by (simp_all add: Hub_Leave_def Hub_SetInfo_def Hub_LinkNode_def Hub_UnlinkNode_def Post_eq Private_eq Let_def
      split: option.split)

lemma apply_rec_sel [simp]:
  assumes "hub_inv h"
  shows "h_ourNode (apply_rec h rc f) = h_ourNode h" "h_hash (apply_rec h rc f) = h_hash h"
    "h_clock (apply_rec h rc f) = h_clock h"
  using assms by (simp_all add: apply_rec_def Let_def hub_ops_sel SetTopic_sel)

lemma Ingest_links [simp]:
  "rt_links (fst (Ingest r rc f)) = rt_links r" "rt_ourNode (fst (Ingest r rc f)) = rt_ourNode r" "rt_sub (fst (Ingest r rc f)) = rt_sub r"
  by (simp_all add: Ingest_def Let_def split_def)

lemma router_inv_Ingest: "router_inv r \<Longrightarrow> router_inv (fst (Ingest r rc f))"
  by (auto simp: router_inv_def Ingest_def Let_def split_def hub_inv_Seen inv_intros)

lemma Ingest_hash: "router_inv r \<Longrightarrow> h_hash (rt_hub (fst (Ingest r rc f))) = h_hash (rt_hub r)"
  by (auto simp: router_inv_def Ingest_def Let_def split_def hub_inv_Seen)

text \<open>The two outcomes for a record of another node: dropped as seen, or applied and relayed.\<close>

lemma Ingest_eq:
  assumes "router_inv r" "record_ok rc" "r_Node rc \<noteq> rt_ourNode r" "\<forall>x. h_hash (rt_hub r) x \<noteq> ''''"
  shows "Ingest r rc fromID =
    (let h = snd (Hub_Seen (rt_hub r) (recordID r rc))
     in if live (now (rt_hub r)) (h_seen (rt_hub r)) (recordID r rc) then (r\<lparr>rt_hub := h\<rparr>, [])
        else (r\<lparr>rt_hub := apply_rec h rc fromID\<rparr>, forward r (r_Raw rc) fromID))"
proof -
  have "seen_inv (h_seen (rt_hub r))" using assms(1) hub_invD(5) by (auto simp: router_inv_def)
  moreover have "r_Node rc \<noteq> ''''" using assms(2) by (simp add: record_ok_def)
  ultimately show ?thesis
    using recordID_ne [OF assms(4), of rc] assms(3) other_node [OF assms(1,2)]
    by (auto simp: Ingest_def Let_def split_def Seen_answer forward_def)
qed

subsection \<open>Relay, de-duplication and isolation\<close>

lemma forward_targets:
  "gomap (rt_links r) \<Longrightarrow> (l, raw') \<in> set (forward r raw x) \<longleftrightarrow>
     raw' = raw \<and> (\<exists>i. i \<noteq> x \<and> map_of (rt_links r) i = Some l)"
  by (force simp: forward_def gomap_def)

text \<open>
  C8: what \<^verbatim>\<open>Ingest\<close> does with a decoded record. A record of our own node, and a
  record whose id is live in the seen-set, is neither applied nor relayed (the second kind only
  refreshes the entry in the seen-set); any other record is applied and its line goes out verbatim
  once on every registered link except the one it came in on, and on no other.
\<close>

theorem Ingest_relay:
  assumes inv: "router_inv r" and rc: "record_ok rc" and hash: "\<forall>x. h_hash (rt_hub r) x \<noteq> ''''"
  shows "(r_Node rc = rt_ourNode r \<longrightarrow> Ingest r rc fromID = (r, []))
    \<and> (r_Node rc \<noteq> rt_ourNode r \<and> live (now (rt_hub r)) (h_seen (rt_hub r)) (recordID r rc) \<longrightarrow>
         snd (Ingest r rc fromID) = [] \<and>
         (\<exists>s. fst (Ingest r rc fromID) = r\<lparr>rt_hub := (tick (rt_hub r))\<lparr>h_seen := s\<rparr>\<rparr>))
    \<and> (r_Node rc \<noteq> rt_ourNode r \<and> \<not> live (now (rt_hub r)) (h_seen (rt_hub r)) (recordID r rc) \<longrightarrow>
         rt_hub (fst (Ingest r rc fromID)) = apply_rec (snd (Hub_Seen (rt_hub r) (recordID r rc))) rc fromID \<and>
         length (snd (Ingest r rc fromID)) = card {i. i \<noteq> fromID \<and> map_of (rt_links r) i \<noteq> None} \<and>
         set (snd (Ingest r rc fromID)) = {(l, r_Raw rc) |l. \<exists>i. i \<noteq> fromID \<and> map_of (rt_links r) i = Some l})"
proof (intro conjI impI, goal_cases)
  case 1
  then show ?case by (simp add: Ingest_def)
next
  case 2
  then show ?case by (simp add: Ingest_eq [OF inv rc _ hash])
next
  case 3
  then show ?case by (auto simp: Ingest_eq [OF inv rc _ hash] Let_def Hub_Seen_def split_def)
next
  case 4
  then show ?case by (simp add: Ingest_eq [OF inv rc _ hash] Let_def)
next
  case 5
  have g: "gomap (rt_links r)" using inv by (simp add: router_inv_def)
  have "{i. i \<noteq> fromID \<and> map_of (rt_links r) i \<noteq> None} = fst ` set (filter (\<lambda>(i, _). i \<noteq> fromID) (rt_links r))"
    by (force simp: map_of_eq_None_iff)
  moreover have "distinct (map fst (filter (\<lambda>(i, _). i \<noteq> fromID) (rt_links r)))"
    using g by (simp add: gomap_def distinct_map_filter)
  then have "card (fst ` set (filter (\<lambda>(i, _). i \<noteq> fromID) (rt_links r))) = length (filter (\<lambda>(i, _). i \<noteq> fromID) (rt_links r))"
    by (metis distinct_card length_map list.set_map)
  ultimately show ?case using 5 by (simp add: Ingest_eq [OF inv rc _ hash] Let_def forward_def)
next
  case 6
  have "gomap (rt_links r)" using inv by (simp add: router_inv_def)
  then show ?case using 6 by (auto simp: Ingest_eq [OF inv rc _ hash] Let_def forward_targets)
qed

definition demo_record :: wire_record where
  "demo_record = the (Decode (encodeTopic ''GB7RDG-4'' ''2E0XYZ'' ''lounge''))"

lemma demo_record_ok: "record_ok demo_record" "r_Node demo_record = ''GB7RDG-4''" "r_Type demo_record = IDTopic"
  "r_User demo_record = ''2E0XYZ''"
  by code_simp+

definition demo_router :: "(mem_store, string) router" where
  "demo_router = Router_Add (Router_Add (NewRouter (demo_hub\<lparr>h_hash := \<lambda>x. ''#'' @ x\<rparr>)) ''GB7RDG-4'' ''link-1'') ''GB7BSK-4'' ''link-2''"

lemma gomap_Add: "gomap (rt_links r) \<Longrightarrow> gomap (rt_links (Router_Add r i l))"
  by (simp add: Router_Add_def)

lemma router_inv_New: "hub_inv h \<Longrightarrow> router_inv (NewRouter h)"
  using hub_inv_Subscribe [of h]
  by (simp add: router_inv_def NewRouter_def split_def Let_def gomap_def Hub_Subscribe_def)

lemma router_inv_Add: "router_inv r \<Longrightarrow> router_inv (Router_Add r i l)"
  by (simp add: router_inv_def Router_Add_def)

lemma hub_inv_hash [simp]: "hub_inv (h\<lparr>h_hash := H\<rparr>) = hub_inv h"
  by (simp add: hub_inv_def topics_ok_def users_ok_def user_ok_def nodes_ok_def subs_ok_def)

lemma demo_router_inv: "router_inv demo_router" "\<forall>x. h_hash (rt_hub demo_router) x \<noteq> ''''"
proof -
  show "router_inv demo_router"
    unfolding demo_router_def by (intro router_inv_Add router_inv_New) (simp add: demo_hub_inv)
  show "\<forall>x. h_hash (rt_hub demo_router) x \<noteq> ''''"
    by (simp add: demo_router_def NewRouter_def Router_Add_def Hub_Subscribe_def Let_def split_def)
qed

theorem Ingest_relay_witness:
  "router_inv demo_router \<and> record_ok demo_record \<and>
   set (snd (Ingest demo_router demo_record ''GB7RDG-4'')) =
     {(l, r_Raw demo_record) |l. \<exists>i. i \<noteq> ''GB7RDG-4'' \<and> map_of (rt_links demo_router) i = Some l}"
proof -
  have "r_Node demo_record \<noteq> rt_ourNode demo_router"
    "\<not> live (now (rt_hub demo_router)) (h_seen (rt_hub demo_router)) (recordID demo_router demo_record)" by code_simp+
  with Ingest_relay [OF demo_router_inv(1) demo_record_ok(1) demo_router_inv(2)]
  show ?thesis using demo_router_inv demo_record_ok(1) by blast
qed

text \<open>
  C11: a record of another node, of any type but Q, leaves every user but the one it names
  untouched, and whatever it makes the hub announce is ignored by the local fan-out: no event it
  causes is encoded and sent to the peers a second time.
\<close>

theorem Ingest_isolated:
  assumes inv: "router_inv r" and rc: "record_ok rc" and hash: "\<forall>x. h_hash (rt_hub r) x \<noteq> ''''"
    and t: "r_Type rc \<noteq> IDUnlink" and r': "r' = fst (Ingest r rc fromID)"
  shows "(\<forall>k. k \<noteq> UserKey (r_User rc) (r_Node rc) \<longrightarrow>
       map_of (h_users (rt_hub r')) k = map_of (h_users (rt_hub r)) k)
    \<and> (\<forall>i ch. map_of (h_subs (rt_hub r)) i = Some ch \<longrightarrow>
         (\<exists>es. map_of (h_subs (rt_hub r')) i = Some (ch @ es) \<and> (\<forall>e \<in> set es. encodeLocal r e = None)))"
proof -
  have k: "canonKey (UserKey (r_User rc) (r_Node rc)) = UserKey (r_User rc) (r_Node rc)"
    using record_ok_normCall [OF rc] by (simp add: canonKey_def)
  have "touches (rt_ourNode r) (UserKey (r_User rc) (r_Node rc)) (rt_hub r) (rt_hub r')"
  proof (cases "r_Node rc = rt_ourNode r")
    case True
    then show ?thesis by (simp add: r' Ingest_def touches_refl)
  next
    case False
    let ?h = "snd (Hub_Seen (rt_hub r) (recordID r rc))"
    have i: "hub_inv (rt_hub r)" using inv by (simp add: router_inv_def)
    have s: "touches (rt_ourNode r) k (rt_hub r) ?h" for k by (rule touches_refl) simp_all
    have "touches (rt_ourNode r) (canonKey (UserKey (r_User rc) (r_Node rc))) ?h (apply_rec ?h rc fromID)"
      by (rule touches_apply_rec) (use False t i record_ok_normCall [OF rc] in \<open>simp_all add: hub_inv_Seen\<close>)
    with s show ?thesis
      unfolding r' Ingest_eq [OF inv rc False hash] k by (auto simp: Let_def intro: touches_trans)
  qed
  then have u: "\<And>k. k \<noteq> UserKey (r_User rc) (r_Node rc) \<Longrightarrow> map_of (h_users (rt_hub r')) k = map_of (h_users (rt_hub r)) k"
    and s: "\<And>i. \<exists>es. map_of (h_subs (rt_hub r')) i = map_option (\<lambda>ch. ch @ es) (map_of (h_subs (rt_hub r)) i) \<and>
      (\<forall>e \<in> set es. foreign (rt_ourNode r) e)"
    by (simp_all add: touches_def)
  show ?thesis
  proof (intro conjI allI impI)
    fix i ch assume "map_of (h_subs (rt_hub r)) i = Some ch"
    with s [of i] show "\<exists>es. map_of (h_subs (rt_hub r')) i = Some (ch @ es) \<and> (\<forall>e \<in> set es. encodeLocal r e = None)"
      by (simp add: encodeLocal_None_iff)
  qed (use u in blast)
qed

theorem Ingest_isolated_witness:
  "router_inv demo_router \<and>
   map_of (h_users (rt_hub (fst (Ingest demo_router demo_record ''GB7RDG-4'')))) (UserKey ''G8PZT'' ''M0LTE-4'') =
     map_of (h_users (rt_hub demo_router)) (UserKey ''G8PZT'' ''M0LTE-4'')"
  using Ingest_isolated [OF demo_router_inv(1) demo_record_ok(1) demo_router_inv(2) _ refl, of "''GB7RDG-4''"]
    demo_router_inv(1) by (simp add: demo_record_ok ID_defs)

subsection \<open>Link and unlink records\<close>

lemma LinkNode_known:
  "normCall c \<noteq> '''' \<Longrightarrow> map_of (h_nodes (fst (Hub_LinkNode h c a v))) (normCall c) \<noteq> None"
  by (auto simp: Hub_LinkNode_def Let_def split: option.split)

lemma LinkNode_sel [simp]:
  "h_users (fst (Hub_LinkNode h c a v)) = h_users h" "h_hash (fst (Hub_LinkNode h c a v)) = h_hash h"
  "h_ourNode (fst (Hub_LinkNode h c a v)) = h_ourNode h" "h_seen (fst (Hub_LinkNode h c a v)) = h_seen h"
  by (simp_all add: Hub_LinkNode_def Let_def split: option.split)

lemma recordID_plain:
  "r_Type rc \<noteq> IDData \<Longrightarrow> r_Type rc \<noteq> IDSend \<Longrightarrow> recordID r rc = ''rec:'' @ string_of_byte (r_Type rc) @ '':'' @ r_Raw rc"
  by (simp add: recordID_def Let_def)

lemma apply_Link: "r_Type rc = IDLink \<Longrightarrow> apply_rec h rc f = fst (Hub_LinkNode h (Field rc 0) (unDash (Field rc 1)) (Field rc 2))"
  by (simp add: apply_rec_def ID_defs Let_def)

lemma apply_Unlink: "r_Type rc = IDUnlink \<Longrightarrow> apply_rec h rc f = fst (Hub_UnlinkNode h (Field rc 0))"
  by (simp add: apply_rec_def ID_defs Let_def)

text \<open>
  On the wire an N record is \<^verbatim>\<open>node newnode alias version\<close> and a Q record is
  \<^verbatim>\<open>node lostnode\<close> (the table of record types in proto.go), so the second node is the
  user field of the decoded record. \<^verbatim>\<open>apply\<close> reads the field after it: a Q record in
  that form never unlinks a node, and an N record registers a node named by the alias, with the
  version as its alias.
\<close>

theorem link_records_off_by_one:
  assumes "hub_inv h" "token node" "token other" "token alias" "token version"
  shows "(\<exists>q. Decode (encode IDUnlink node other []) = Some q \<and> apply_rec h q f = h)
    \<and> (\<exists>n. Decode (encode IDLink node other [alias, version]) = Some n \<and> r_User n = ToUpper other \<and>
         apply_rec h n f = fst (Hub_LinkNode h alias (unDash version) ''''))"
proof
  have un: "Hub_UnlinkNode h '''' = (h, False)"
  proof -
    have "map_of (h_nodes h) '''' = None" 
      using hub_invD(3) [OF assms(1)] by (cases "map_of (h_nodes h) ''''") (auto simp: nodes_ok_def)
    then show ?thesis by (simp add: Hub_UnlinkNode_def normCall_def)
  qed
  have s: "Fields (spaced []) = []" by (simp add: spaced_def Fields_nosp)
  have "Decode (encode IDUnlink node other []) = Some \<lparr>r_Raw = encode IDUnlink node other [], r_Type = IDUnlink,
      r_Node = ToUpper node, r_User = ToUpper other, r_Args = []\<rparr>"
    using Decode_encode [OF assms(2,3), of "[]" IDUnlink] by (simp only: s list.pred_inject simp_thms)
  then show "\<exists>q. Decode (encode IDUnlink node other []) = Some q \<and> apply_rec h q f = h"
    by (simp add: apply_Unlink Field_def un)
  have "list_all clean [alias, version]" using assms(4,5) by (simp add: token_def)
  from Decode_encode [OF assms(2,3) this, of IDLink]
  show "\<exists>n. Decode (encode IDLink node other [alias, version]) = Some n \<and> r_User n = ToUpper other \<and>
         apply_rec h n f = fst (Hub_LinkNode h alias (unDash version) '''')"
    unfolding Fields_two_tokens [OF assms(4,5)] by (simp add: apply_Link Field_def)
qed

theorem link_records_off_by_one_witness:
  "hub_inv demo_hub \<and> (\<exists>q. Decode (encode IDUnlink ''GB7RDG-4'' ''GB7BSK-4'' []) = Some q \<and> apply_rec demo_hub q ''GB7RDG-4'' = demo_hub)"
proof -
  have "token ''GB7RDG-4''" "token ''GB7BSK-4''" by code_simp+
  from link_records_off_by_one [OF demo_hub_inv this this] demo_hub_inv show ?thesis by blast
qed

text \<open>
  C39: two records of a peer evict every local user of our node: an N record with our own
  callsign in the field after the user, which puts our node into the graph as a neighbour, and
  then a Q record with it, which drops everybody homed on it.
\<close>

theorem peer_evicts_local_users:
  assumes inv: "router_inv r" and hash: "\<forall>x. h_hash (rt_hub r) x \<noteq> ''''" and our: "rt_ourNode r \<noteq> ''''"
    and n: "record_ok n" "r_Type n = IDLink" "r_Node n \<noteq> rt_ourNode r" "normCall (Field n 0) = rt_ourNode r"
    and q: "record_ok q" "r_Type q = IDUnlink" "r_Node q \<noteq> rt_ourNode r" "normCall (Field q 0) = rt_ourNode r"
    and r1: "r1 = fst (Ingest r n f)" and r2: "r2 = fst (Ingest r1 q f)"
    and new: "\<not> live (now (rt_hub r)) (h_seen (rt_hub r)) (recordID r n)"
      "\<not> live (now (rt_hub r1)) (h_seen (rt_hub r1)) (recordID r1 q)"
  shows "map_of (h_users (rt_hub r2)) k = Some u \<Longrightarrow> o_node (u_origin u) \<noteq> rt_ourNode r"
proof -
  let ?h = "snd (Hub_Seen (rt_hub r) (recordID r n))"
  let ?h1 = "fst (Hub_LinkNode ?h (Field n 0) (unDash (Field n 1)) (Field n 2))"
  have e1: "r1 = r\<lparr>rt_hub := ?h1\<rparr>"
    using new(1) by (simp add: r1 Ingest_eq [OF inv n(1,3) hash] Let_def apply_Link [OF n(2)])
  have inv1: "router_inv r1" and hash1: "\<forall>x. h_hash (rt_hub r1) x \<noteq> ''''"
    using inv hash by (simp_all add: e1 router_inv_def hub_inv_Seen inv_intros)
  let ?h2 = "snd (Hub_Seen ?h1 (recordID r1 q))"
  have q1: "r_Node q \<noteq> rt_ourNode r1" using q(3) by (simp add: e1)
  have e2: "rt_hub r2 = fst (Hub_UnlinkNode ?h2 (Field q 0))"
    using new(2) by (simp add: r2 Ingest_eq [OF inv1 q(1) q1 hash1] Let_def apply_Unlink [OF q(2)]) (simp add: e1)
  have "hub_inv ?h1" using inv1 by (simp add: router_inv_def e1)
  then have i2: "hub_inv ?h2" by (simp add: hub_inv_Seen)
  obtain nd where nd: "map_of (h_nodes ?h2) (normCall (Field q 0)) = Some nd"
    using LinkNode_known [of "Field n 0" ?h] our by (auto simp: n(4) q(4))
  show "o_node (u_origin u) \<noteq> rt_ourNode r" if "map_of (h_users (rt_hub r2)) k = Some u"
    using that UnlinkNode_users [OF i2 nd] unfolding e2 q(4) by (auto split: option.splits if_splits)
qed

theorem peer_evicts_local_users_witness:
  "\<exists>n q. record_ok n \<and> record_ok q \<and> map_of (h_users (rt_hub demo_router)) (UserKey ''G8PZT'' ''M0LTE-4'') \<noteq> None \<and>
     map_of (h_users (rt_hub (fst (Ingest (fst (Ingest demo_router n ''GB7RDG-4'')) q ''GB7RDG-4''))))
       (UserKey ''G8PZT'' ''M0LTE-4'') = None"
proof -
  let ?n = "the (Decode (encode IDLink ''GB7RDG-4'' ''X'' [''m0lte-4'']))"
  let ?q = "the (Decode (encode IDUnlink ''GB7RDG-4'' ''X'' [''m0lte-4'']))"
  let ?r1 = "fst (Ingest demo_router ?n ''GB7RDG-4'')"
  let ?r2 = "fst (Ingest ?r1 ?q ''GB7RDG-4'')"
  have n: "record_ok ?n" "r_Type ?n = IDLink" "r_Node ?n \<noteq> rt_ourNode demo_router" "normCall (Field ?n 0) = rt_ourNode demo_router"
    and q: "record_ok ?q" "r_Type ?q = IDUnlink" "r_Node ?q \<noteq> rt_ourNode demo_router" "normCall (Field ?q 0) = rt_ourNode demo_router"
    and our: "rt_ourNode demo_router \<noteq> ''''" and empty: "h_seen (rt_hub demo_router) = NewSeenSet DefaultSeenTTL"
    and here: "map_of (h_users (rt_hub demo_router)) (UserKey ''G8PZT'' ''M0LTE-4'') \<noteq> None"
    and home: "rt_ourNode demo_router = ''M0LTE-4''"
    by code_simp+
  have ids: "recordID ?r1 ?q \<noteq> recordID demo_router ?n"
  proof -
    have "IDUnlink \<noteq> IDData" "IDUnlink \<noteq> IDSend" "IDLink \<noteq> IDData" "IDLink \<noteq> IDSend"
      "string_of_byte IDLink = [IDLink]" "string_of_byte IDUnlink = [IDUnlink]" "IDUnlink \<noteq> IDLink" by (simp_all add: ID_defs string_of_byte_def)
    then show ?thesis by (simp add: recordID_plain n(2) q(2))
  qed
  have new1: "\<not> live (now (rt_hub demo_router)) (h_seen (rt_hub demo_router)) (recordID demo_router ?n)"
    by (simp add: empty live_def)
  have "h_seen (rt_hub ?r1) = snd (SeenSet_Seen (now (rt_hub demo_router)) (h_seen (rt_hub demo_router)) (recordID demo_router ?n))"
    using new1 by (simp add: Ingest_eq [OF demo_router_inv(1) n(1,3) demo_router_inv(2)] Let_def apply_Link [OF n(2)])
  then have new2: "\<not> live (now (rt_hub ?r1)) (h_seen (rt_hub ?r1)) (recordID ?r1 ?q)"
    using ids by (simp add: empty live_Seen NewSeenSet_inv) (simp add: live_def)
  note new = new1 new2
  have "o_node (u_origin u) \<noteq> rt_ourNode demo_router"
    if "map_of (h_users (rt_hub ?r2)) (UserKey ''G8PZT'' ''M0LTE-4'') = Some u" for u
    by (rule peer_evicts_local_users [OF demo_router_inv our n q refl refl new that])
  moreover have "users_ok (rt_hub ?r2)"
    by (rule hub_invD(2)) (use router_inv_Ingest [OF router_inv_Ingest [OF demo_router_inv(1)]] in \<open>simp add: router_inv_def\<close>)
  then have "o_node (u_origin u) = ''M0LTE-4''"
    if "map_of (h_users (rt_hub ?r2)) (UserKey ''G8PZT'' ''M0LTE-4'') = Some u" for u
    using that by (auto simp: users_ok_def user_ok_def User_Key_def)
  ultimately have "map_of (h_users (rt_hub ?r2)) (UserKey ''G8PZT'' ''M0LTE-4'') = None"
    using home by (cases "map_of (h_users (rt_hub ?r2)) (UserKey ''G8PZT'' ''M0LTE-4'')") auto
  then show ?thesis using n(1) q(1) here by blast
qed

end
