(* ===== verification/Peer_Mesh.thy ===== *)
theory Peer_Mesh
  imports Peer_Router "HOL-Library.Multiset"
begin

text \<open>
  The relay seen from outside: one record flooding a network of routers. A node is named by its
  callsign; the link to a peer is registered under the callsign of the peer, so the handle of a
  link is that name and a relayed line from \<open>p\<close> to \<open>q\<close> is ingested at \<open>q\<close> with
  the ingress \<open>p\<close>. The network may be any graph, cycles included, and the lines in flight
  are delivered in any order.

  The locale \<open>flood_relay\<close> is what a node promises about one record: once it has seen it, it
  never relays it again; the first time, it relays it to every peer but the ingress. From this
  alone follow termination with an explicit bound, at most one application per node, and
  coverage of the connected component. The interpretation on \<^verbatim>\<open>Router.Ingest\<close>
  discharges the promises while the clocks stay within one TTL.
\<close>

subsection \<open>The network\<close>

type_synonym 'st net = "(string \<Rightarrow> 'st) \<times> (string \<times> string) multiset"

text \<open>
  One delivery, with the node it happens at and whether the record was new there, and a run of
  deliveries. \<open>ingest\<close> is what a node does with the record from a given peer (its new state
  and the peers it relays to), \<open>seen\<close> whether it counts as known.
\<close>

inductive deliver :: "('st \<Rightarrow> string \<Rightarrow> 'st \<times> string list) \<Rightarrow> ('st \<Rightarrow> bool) \<Rightarrow> 'st net \<Rightarrow> string \<times> bool \<Rightarrow> 'st net \<Rightarrow> bool"
  for ingest seen where
  "(p, q) \<in># F \<Longrightarrow>
     deliver ingest seen (net, F) (q, \<not> seen (net q))
       (net(q := fst (ingest (net q) p)),
        F - {#(p, q)#} + mset (map (Pair q) (snd (ingest (net q) p))))"

inductive run :: "('st \<Rightarrow> string \<Rightarrow> 'st \<times> string list) \<Rightarrow> ('st \<Rightarrow> bool) \<Rightarrow> 'st net \<Rightarrow> (string \<times> bool) list \<Rightarrow> 'st net \<Rightarrow> bool"
  for ingest seen where
  run_Nil: "run ingest seen n [] n"
| run_snoc: "run ingest seen n es n' \<Longrightarrow> deliver ingest seen n' e n'' \<Longrightarrow> run ingest seen n (es @ [e]) n''"

text \<open>The nodes a flood from \<open>a\<close> can reach.\<close>

inductive connected :: "('st \<Rightarrow> string list) \<Rightarrow> 'st net \<Rightarrow> string \<Rightarrow> string \<Rightarrow> bool" for peers n a where
  self: "connected peers n a a"
| hop: "connected peers n a b \<Longrightarrow> c \<in> set (peers (fst n b)) \<Longrightarrow> connected peers n a c"

definition closed_net :: "('st \<Rightarrow> string list) \<Rightarrow> ('st \<Rightarrow> bool) \<Rightarrow> string set \<Rightarrow> 'st net \<Rightarrow> bool" where
  "closed_net peers ok N n \<longleftrightarrow> finite N \<and> (\<forall>q \<in> N. ok (fst n q) \<and> set (peers (fst n q)) \<subseteq> N) \<and>
     (\<forall>(p, q) \<in># snd n. p \<in> N \<and> q \<in> N)"

text \<open>A network in which only the origin knows the record and has just sent it to its peers.\<close>

definition launched ::
    "('st \<Rightarrow> bool) \<Rightarrow> ('st \<Rightarrow> string list) \<Rightarrow> ('st \<Rightarrow> bool) \<Rightarrow> string set \<Rightarrow> string \<Rightarrow> 'st net \<Rightarrow> bool" where
  "launched seen peers ok N a n \<longleftrightarrow> closed_net peers ok N n \<and> a \<in> N \<and> seen (fst n a) \<and>
     (\<forall>q \<in> N - {a}. \<not> seen (fst n q)) \<and> snd n = mset (map (Pair a) (peers (fst n a)))"

subsection \<open>What a node promises\<close>

locale flood_relay =
  fixes ingest :: "'st \<Rightarrow> string \<Rightarrow> 'st \<times> string list"
    and seen :: "'st \<Rightarrow> bool"
    and peers :: "'st \<Rightarrow> string list"
    and ok :: "'st \<Rightarrow> bool"
  assumes ok_ingest: "ok s \<Longrightarrow> ok (fst (ingest s p))"
    and peers_ingest: "ok s \<Longrightarrow> peers (fst (ingest s p)) = peers s"
    and seen_ingest: "ok s \<Longrightarrow> seen (fst (ingest s p))"
    and drop_seen: "ok s \<Longrightarrow> seen s \<Longrightarrow> snd (ingest s p) = []"
    and relay_once: "ok s \<Longrightarrow> \<not> seen s \<Longrightarrow> set (snd (ingest s p)) = set (peers s) - {p}"
    and relay_length: "ok s \<Longrightarrow> length (snd (ingest s p)) \<le> length (peers s)"
begin

definition bound :: "string set \<Rightarrow> 'st net \<Rightarrow> nat" where
  "bound N n = size (snd n) + (\<Sum>q \<in> {q \<in> N. \<not> seen (fst n q)}. length (peers (fst n q)))"

lemma sends_in_peers: "ok s \<Longrightarrow> set (snd (ingest s p)) \<subseteq> set (peers s)"
  using drop_seen [of s p] relay_once [of s p] by (cases "seen s") auto

lemma deliver_closed: "deliver ingest seen n e n' \<Longrightarrow> closed_net peers ok N n \<Longrightarrow> closed_net peers ok N n'"
proof (induction rule: deliver.induct)
  case (1 p q F net)
  then have q: "q \<in> N" "ok (net q)" "set (peers (net q)) \<subseteq> N" by (auto simp: closed_net_def)
  have "set (snd (ingest (net q) p)) \<subseteq> N" using sends_in_peers [OF q(2)] q(3) by blast
  then show ?case
    using 1 q by (fastforce simp: closed_net_def ok_ingest peers_ingest dest: in_diffD)
qed

text \<open>Every delivery uses up at least one unit of the bound.\<close>

lemma deliver_bound: "deliver ingest seen n e n' \<Longrightarrow> closed_net peers ok N n \<Longrightarrow> bound N n' < bound N n"
proof (induction rule: deliver.induct)
  case (1 p q F net)
  let ?net = "net(q := fst (ingest (net q) p))" and ?out = "snd (ingest (net q) p)"
  let ?U = "\<lambda>net. {x \<in> N. \<not> seen (net x)}"
  from 1 have q: "q \<in> N" "ok (net q)" "finite N" by (auto simp: closed_net_def)
  have U: "?U ?net = ?U net - {q}" using seen_ingest [OF q(2)] by auto
  have sz: "size (F - {#(p, q)#} + mset (map (Pair q) ?out)) + 1 = size F + length ?out"
    using multi_member_split [OF 1(1)] by auto
  have sum: "(\<Sum>x \<in> ?U ?net. length (peers (?net x))) = (\<Sum>x \<in> ?U net - {q}. length (peers (net x)))"
    unfolding U by (rule sum.cong) auto
  show ?case
  proof (cases "seen (net q)")
    case True
    then have "?U net - {q} = ?U net" by auto
    then show ?thesis using sz sum drop_seen [OF q(2) True, of p] by (simp add: bound_def)
  next
    case False
    then have "(\<Sum>x \<in> ?U net. length (peers (net x))) = length (peers (net q)) + (\<Sum>x \<in> ?U net - {q}. length (peers (net x)))"
      using q by (intro sum.remove) auto
    then show ?thesis using sz sum relay_length [OF q(2), of p] by (simp add: bound_def)
  qed
qed

lemma run_closed_bound: "run ingest seen n es n' \<Longrightarrow> closed_net peers ok N n \<Longrightarrow> closed_net peers ok N n' \<and> length es + bound N n' \<le> bound N n"
proof (induction rule: run.induct)
  case (run_snoc n es n' e n'')
  then show ?case using deliver_closed [of n' e n'' N] deliver_bound [of n' e n'' N] by fastforce
qed simp

text \<open>A node never forgets the record, and applies it at most once.\<close>

lemma deliver_seen: "deliver ingest seen n e n' \<Longrightarrow> closed_net peers ok N n \<Longrightarrow> q \<in> N \<Longrightarrow> seen (fst n q) \<or> fst e = q \<Longrightarrow> seen (fst n' q)"
  by (induction rule: deliver.induct) (auto simp: closed_net_def seen_ingest)

lemma run_seen: "run ingest seen n es n' \<Longrightarrow> closed_net peers ok N n \<Longrightarrow> q \<in> N \<Longrightarrow> seen (fst n q) \<or> q \<in> fst ` set es \<Longrightarrow> seen (fst n' q)"
proof (induction rule: run.induct)
  case (run_snoc n es n' e n'')
  then have "closed_net peers ok N n'" using run_closed_bound by blast
  with run_snoc show ?case using deliver_seen [of n' e n'' N q] by auto
qed auto

lemma deliver_fresh: "deliver ingest seen n (q, True) n' \<Longrightarrow> \<not> seen (fst n q)"
  by (cases rule: deliver.cases) auto

lemma deliver_at: "deliver ingest seen n e n' \<Longrightarrow> closed_net peers ok N n \<Longrightarrow> fst e \<in> N"
  by (induction rule: deliver.induct) (auto simp: closed_net_def)

lemma run_at_most_once:
  "run ingest seen n es n' \<Longrightarrow> closed_net peers ok N n \<Longrightarrow> distinct (map fst (filter snd es)) \<and>
     (\<forall>q \<in> N. seen (fst n q) \<longrightarrow> (q, True) \<notin> set es)"
proof (induction rule: run.induct)
  case (run_snoc n es n' e n'')
  have c: "closed_net peers ok N n'" using run_closed_bound run_snoc by blast
  obtain q b where e: "e = (q, b)" by (cases e)
  have q: "q \<in> N" using deliver_at [OF run_snoc(2) c] by (simp add: e)
  have "\<not> seen (fst n' q)" if b using deliver_fresh that run_snoc(2) by (simp add: e)
  then have "q \<notin> fst ` set es" "\<not> seen (fst n q)" if b
    using run_seen [OF run_snoc(1) run_snoc.prems q] that by blast+
  then show ?case using run_snoc.IH [OF run_snoc.prems] by (auto simp: e)
qed simp

text \<open>
  Coverage: a node that has seen the record has sent it on, so a neighbour has seen it or the line
  is still in flight.
\<close>

definition covered :: "string set \<Rightarrow> 'st net \<Rightarrow> bool" where
  "covered N n \<longleftrightarrow> (\<forall>(p, q) \<in># snd n. seen (fst n p)) \<and>
     (\<forall>a \<in> N. seen (fst n a) \<longrightarrow> (\<forall>b \<in> set (peers (fst n a)). seen (fst n b) \<or> (a, b) \<in># snd n))"

lemma deliver_covered: "deliver ingest seen n e n' \<Longrightarrow> closed_net peers ok N n \<Longrightarrow> covered N n \<Longrightarrow> covered N n'"
proof (induction rule: deliver.induct)
  case (1 p q F net)
  let ?net = "net(q := fst (ingest (net q) p))" and ?out = "snd (ingest (net q) p)"
  from 1 have q: "q \<in> N" "ok (net q)" "seen (net p)" by (auto simp: closed_net_def covered_def)
  have s: "seen (?net x)" if "seen (net x) \<or> x = q" for x using that seen_ingest [OF q(2)] by auto
  have "seen (?net b) \<or> (a, b) \<in># F - {#(p, q)#} + mset (map (Pair q) ?out)"
    if a: "a \<in> N" "seen (?net a)" "b \<in> set (peers (?net a))" for a b
  proof (cases "seen (net a)")
    case True
    then have "seen (net b) \<or> (a, b) \<in># F"
      using 1(3) a by (auto simp: covered_def peers_ingest [OF q(2)] split: if_splits)
    moreover obtain F' where "F = add_mset (p, q) F'" using multi_member_split [OF 1(1)] by blast
    ultimately show ?thesis using s [of b] by auto
  next
    case False
    then have "a = q" using a(2) by (auto split: if_splits)
    then have "b = p \<or> b \<in> set ?out"
      using relay_once [OF q(2), of p] False a(3) by (auto simp: peers_ingest [OF q(2)])
    then show ?thesis using s [of b] q(3) \<open>a = q\<close> by auto
  qed
  moreover have "seen (?net x)" if "(x, y) \<in># F - {#(p, q)#} + mset (map (Pair q) ?out)" for x y
    using that 1(3) s [of x] by (auto simp: covered_def dest: in_diffD)
  ultimately show ?case unfolding covered_def fst_conv snd_conv by blast
qed

lemma run_covered: "run ingest seen n es n' \<Longrightarrow> closed_net peers ok N n \<Longrightarrow> covered N n \<Longrightarrow> covered N n'"
  by (induction rule: run.induct) (auto intro: deliver_covered dest: run_closed_bound)

lemma deliver_peers: "deliver ingest seen n e n' \<Longrightarrow> closed_net peers ok N n \<Longrightarrow> x \<in> N \<Longrightarrow> peers (fst n' x) = peers (fst n x)"
  by (induction rule: deliver.induct) (auto simp: closed_net_def peers_ingest)

lemma run_peers: "run ingest seen n es n' \<Longrightarrow> closed_net peers ok N n \<Longrightarrow> x \<in> N \<Longrightarrow> peers (fst n' x) = peers (fst n x)"
proof (induction rule: run.induct)
  case (run_snoc n es n' e n'')
  then show ?case using deliver_peers [of n' e n'' N x] run_closed_bound by metis
qed simp

lemma connected_in: "connected peers n a b \<Longrightarrow> closed_net peers ok N n \<Longrightarrow> a \<in> N \<Longrightarrow> b \<in> N"
  by (induction rule: connected.induct) (auto simp: closed_net_def)

lemma quiescent_covers:
  assumes "run ingest seen n es n'" "closed_net peers ok N n" "covered N n" "snd n' = {#}" "a \<in> N" "seen (fst n a)" "connected peers n a b"
  shows "seen (fst n' b)"
  using assms(7)
proof (induction rule: connected.induct)
  case self
  show ?case using run_seen [OF assms(1,2,5)] assms(6) by blast
next
  case (hop b c)
  have b: "b \<in> N" using connected_in [OF hop.hyps(1) assms(2,5)] .
  have "c \<in> set (peers (fst n' b))" using hop.hyps(2) run_peers [OF assms(1,2) b] by simp
  then show ?case using run_covered [OF assms(1-3)] hop.IH b assms(4) by (auto simp: covered_def)
qed

lemma launched_covered: "launched seen peers ok N a n \<Longrightarrow> covered N n"
  by (auto simp: launched_def covered_def)

lemma launched_bound:
  assumes "launched seen peers ok N a n"
  shows "bound N n = (\<Sum>q \<in> N. length (peers (fst n q)))"
proof -
  from assms have "{q \<in> N. \<not> seen (fst n q)} = N - {a}" "a \<in> N" "finite N" by (auto simp: launched_def closed_net_def)
  then have "(\<Sum>q \<in> N. length (peers (fst n q))) = length (peers (fst n a)) + (\<Sum>q \<in> {q \<in> N. \<not> seen (fst n q)}. length (peers (fst n q)))"
    by (metis (no_types, lifting) sum.remove)
  then show ?thesis using assms by (simp add: bound_def launched_def)
qed

text \<open>The three facts on a flood.\<close>

lemma flood_launched:
  assumes "launched seen peers ok N a n" "run ingest seen n es n'"
  shows "length es \<le> (\<Sum>q \<in> N. length (peers (fst n q)))"
    and "distinct (map fst (filter snd es))"
    and "snd n' = {#} \<Longrightarrow> connected peers n a b \<Longrightarrow> seen (fst n' b)"
proof -
  have c: "closed_net peers ok N n" "a \<in> N" "seen (fst n a)" using assms(1) by (simp_all add: launched_def)
  show "length es \<le> (\<Sum>q \<in> N. length (peers (fst n q)))"
    using run_closed_bound [OF assms(2) c(1)] launched_bound [OF assms(1)] by simp
  show "distinct (map fst (filter snd es))" using run_at_most_once [OF assms(2) c(1)] by blast
  show "seen (fst n' b)" if "snd n' = {#}" "connected peers n a b"
    using quiescent_covers [OF assms(2) c(1) launched_covered [OF assms(1)] that(1) c(2,3) that(2)] .
qed

text \<open>A network with lines in flight can always make a delivery.\<close>

lemma deliver_progress: "F \<noteq> {#} \<Longrightarrow> \<exists>e n'. deliver ingest seen (net, F) e n'"
  using deliver.intros [of _ _ F ingest seen net] by (metis multiset_nonemptyE surj_pair)

end

subsection \<open>The router keeps the promises\<close>

text \<open>
  The readings of the clock of a hub lie in the TTL that starts at \<open>a\<close>; an id is known there
  if its entry outlives that window.
\<close>

definition calm :: "time \<Rightarrow> 's hub \<Rightarrow> bool" where
  "calm a h \<longleftrightarrow> (\<forall>i \<ge> h_reads h. a \<le> h_clock h i \<and> h_clock h i < a + ss_ttl (h_seen h))"

definition known :: "time \<Rightarrow> 's hub \<Rightarrow> string \<Rightarrow> bool" where
  "known a h i \<longleftrightarrow> (\<exists>e. map_of (ss_entries (h_seen h)) i = Some e \<and> a + ss_ttl (h_seen h) \<le> e)"

text \<open>What every hub operation does to the clock and the seen-set.\<close>

definition advances :: "'s hub \<Rightarrow> 's hub \<Rightarrow> bool" where
  "advances h h' \<longleftrightarrow> h_clock h' = h_clock h \<and> h_reads h \<le> h_reads h' \<and> ss_ttl (h_seen h') = ss_ttl (h_seen h) \<and>
     (\<forall>a i. hub_inv h \<and> calm a h \<and> known a h i \<longrightarrow> known a h' i)"

lemma calm_mono: "calm a h \<Longrightarrow> advances h h' \<Longrightarrow> calm a h'"
  by (auto simp: calm_def advances_def)

lemma known_mono: "hub_inv h \<Longrightarrow> calm a h \<Longrightarrow> advances h h' \<Longrightarrow> known a h i \<Longrightarrow> known a h' i"
  by (auto simp: advances_def)

lemma advances_same:
  "h_clock h' = h_clock h \<Longrightarrow> h_reads h \<le> h_reads h' \<Longrightarrow> h_seen h' = h_seen h \<Longrightarrow> advances h h'"
  by (simp add: advances_def known_def)

lemma advances_trans: "hub_inv h' \<Longrightarrow> advances h h' \<Longrightarrow> advances h' h'' \<Longrightarrow> advances h h''"
  by (auto simp: advances_def calm_def)

lemma advances_Seen: "advances h (snd (Hub_Seen h i))"
proof -
  have "known a (snd (Hub_Seen h i)) j" if "hub_inv h" "calm a h" "known a h j" for a j
  proof -
    have "a \<le> now h" "now h < a + ss_ttl (h_seen h)" using that(2) by (auto simp: calm_def now_def)
    then show ?thesis
      using that(3) Seen_lookup [OF hub_invD(5) [OF that(1)], of "now h" i j] by (auto simp: known_def)
  qed
  then show ?thesis by (simp add: advances_def)
qed

lemma known_Seen: "hub_inv h \<Longrightarrow> calm a h \<Longrightarrow> known a (snd (Hub_Seen h i)) i"
  using Seen_lookup [OF hub_invD(5), of h "now h" i i] by (auto simp: known_def calm_def now_def)

lemma advances_record: "hub_inv h \<Longrightarrow> advances h (fst (record_and_emit h m ev))"
proof -
  assume inv: "hub_inv h"
  let ?h = "snd (Hub_Seen h (m_id m))"
  have i: "hub_inv ?h" using inv by (rule hub_inv_Seen)
  have "advances ?h (fst (record_and_emit h m ev))" by (rule advances_same) simp_all
  with i advances_Seen show ?thesis using advances_trans by blast
qed

lemma advances_Join: "hub_inv h \<Longrightarrow> advances h (fst (Hub_Join h u))"
  by (cases "normCall (u_call u) = '''' \<or> normCall (o_node (u_origin u)) = ''''")
    (auto simp: Join_refused elim!: Join_accepted intro!: advances_same)

lemma advances_Post:
  assumes "hub_inv h"
  shows "advances h (fst (Hub_Post h key text))"
proof -
  have "advances h (fst (record_and_emit (tick (tick (setUser (canonKey key) (u\<lparr>u_lastActive := t\<rparr>) h))) m ev))"
    if "map_of (h_users h) (canonKey key) = Some u" for u t m ev
  proof (rule advances_trans)
    let ?h = "tick (tick (setUser (canonKey key) (u\<lparr>u_lastActive := t\<rparr>) h))"
    show i: "hub_inv ?h"
      using hub_inv_modify [OF assms that, of "u\<lparr>u_lastActive := t\<rparr>"] by (simp add: User_Key_def)
    show "advances h ?h" by (rule advances_same) simp_all
    show "advances ?h (fst (record_and_emit ?h m ev))" using i by (rule advances_record)
  qed
  then show ?thesis by (simp add: Post_eq advances_same split: option.split)
qed

lemma advances_Private: "hub_inv h \<Longrightarrow> advances h (fst (Hub_Private h key c text))"
proof -
  assume inv: "hub_inv h"
  have "advances h (tick h)" by (rule advances_same) simp_all
  then have "advances h (fst (record_and_emit (tick h) m PrivateMessage))" for m
    using inv by (auto intro!: advances_trans [of "tick h", OF _ _ advances_record])
  then show ?thesis by (simp add: Private_eq advances_same)
qed

lemma advances_simple:
  "advances h (Hub_Leave h k)" "advances h (fst (Hub_SetInfo h k n q))" "advances h (fst (Hub_SetTopic h k t))"
  "advances h (fst (Hub_LinkNode h c a v))" "advances h (fst (Hub_UnlinkNode h c))"
proof -
  show "advances h (fst (Hub_SetTopic h k t))" by (rule advances_same) (simp_all add: SetTopic_sel)
qed (rule advances_same;
    simp add: Hub_Leave_def Hub_SetInfo_def Hub_LinkNode_def Hub_UnlinkNode_def Let_def split: option.split)+

lemma advances_ensureUser: "hub_inv h \<Longrightarrow> advances h (ensureUser h rc f)"
  by (auto simp: ensureUser_def Let_def advances_Join split: option.split intro!: advances_same)

lemma advances_apply_rec:
  assumes inv: "hub_inv h"
  shows "advances h (apply_rec h rc f)"
proof -
  note i = hub_inv_ensureUser [OF inv, of rc f] and e = advances_ensureUser [OF inv, of rc f]
  note step = advances_trans [OF i e]
  have refl: "advances h h" by (rule advances_same) simp_all
  show ?thesis
    by (simp add: apply_rec_def Let_def e refl advances_simple step [OF advances_simple(2)] step [OF advances_simple(3)]
        step [OF advances_Post [OF i]] step [OF advances_Private [OF i]])
qed

text \<open>The record keeps its id at a node: applying it does not move its user to another topic.\<close>

lemma DefaultTopic_ne: "DefaultTopic \<noteq> ''''"
  by (simp add: DefaultTopic_def)

lemma ensureUser_topic:
  assumes inv: "hub_inv h" and rc: "record_ok rc"
  shows "\<exists>u. Hub_User (ensureUser h rc f) (UserKey (r_User rc) (r_Node rc)) = Some u \<and>
    u_topic u = (case Hub_User h (UserKey (r_User rc) (r_Node rc)) of Some u \<Rightarrow> u_topic u | None \<Rightarrow> DefaultTopic)"
proof (cases "Hub_User h (UserKey (r_User rc) (r_Node rc))")
  case (Some u)
  then show ?thesis by (simp add: ensureUser_def)
next
  case None
  have c: "normCall (r_User rc) \<noteq> ''''" "normCall (r_Node rc) \<noteq> ''''"
    using record_ok_normCall [OF rc] rc by (simp_all add: record_ok_def)
  define u where "u = (let (name, qth) = (if r_Type rc = IDJoin \<or> r_Type rc = IDUser
      then (unDash (Field rc 0), unDash (Field rc 1)) else ('''', ''''))
      in mk_user (r_User rc) name qth \<lparr>o_node = r_Node rc, o_local = False, o_link = f\<rparr>)"
  have u: "u_call u = r_User rc" "o_node (u_origin u) = r_Node rc" "u_topic u = ''''"
    by (simp_all add: u_def Let_def)
  have e: "ensureUser h rc f = fst (Hub_Join h u)"
    using None by (simp add: ensureUser_def u_def Let_def split_def)
  have "map_of (h_topics h) (normTopicKey DefaultTopic) = Some DefaultTopic"
    using topics_okD(7) [OF hub_invD(1) [OF inv]] .
  then have "u_topic (joined h u) = DefaultTopic"
    by (simp add: joined_def ensureTopic_fst joining_topic u)
  moreover have "Hub_User (fst (Hub_Join h u)) (UserKey (u_call u) (o_node (u_origin u))) = Some (joined h u)"
    by (rule Join_result(1) [OF inv]) (use c u in simp_all)
  ultimately show ?thesis using None by (simp add: e u)
qed

lemma Post_topic:
  "Hub_User h key = Some u \<Longrightarrow> \<exists>u'. Hub_User (fst (Hub_Post h key text)) key = Some u' \<and> u_topic u' = u_topic u"
  by (auto simp: Hub_User_def Post_eq)

lemma recordID_apply:
  assumes inv: "hub_inv h" and rc: "record_ok rc"
  shows "recordID (r\<lparr>rt_hub := apply_rec (snd (Hub_Seen h i)) rc f\<rparr>) rc = recordID (r\<lparr>rt_hub := h\<rparr>) rc"
proof (cases "r_Type rc = IDData")
  case False
  then show ?thesis using inv by (simp add: recordID_def Let_def hub_inv_Seen)
next
  case True
  let ?h = "snd (Hub_Seen h i)" and ?key = "UserKey (r_User rc) (r_Node rc)"
  have inv': "hub_inv ?h" using inv by (rule hub_inv_Seen)
  have U: "Hub_User ?h ?key = Hub_User h ?key" by (simp add: Hub_User_def)
  have a: "apply_rec ?h rc f = fst (Hub_Post (ensureUser ?h rc f) ?key (Tail rc 0))"
    using True by (simp add: apply_rec_def ID_defs Let_def)
  obtain u where u: "Hub_User (ensureUser ?h rc f) ?key = Some u"
    "u_topic u = (case Hub_User h ?key of Some u \<Rightarrow> u_topic u | None \<Rightarrow> DefaultTopic)"
    using ensureUser_topic [OF inv' rc, of f] unfolding U by blast
  obtain u' where u': "Hub_User (apply_rec ?h rc f) ?key = Some u'" "u_topic u' = u_topic u"
    using Post_topic [OF u(1), of "Tail rc 0"] unfolding a by blast
  have "topicOf (r\<lparr>rt_hub := apply_rec ?h rc f\<rparr>) ?key = topicOf (r\<lparr>rt_hub := h\<rparr>) ?key"
    by (simp add: topicOf_def u' u(2))
  then show ?thesis using inv' by (simp add: recordID_def Let_def)
qed

text \<open>The node's view of one record \<open>rc\<close>, in the window that starts at \<open>a\<close>.\<close>

definition mesh_ingest :: "wire_record \<Rightarrow> ('s, string) router \<Rightarrow> string \<Rightarrow> ('s, string) router \<times> string list" where
  "mesh_ingest rc r p = map_prod id (map fst) (Ingest r rc p)"

definition mesh_seen :: "wire_record \<Rightarrow> time \<Rightarrow> ('s, string) router \<Rightarrow> bool" where
  "mesh_seen rc a r \<longleftrightarrow> r_Node rc = rt_ourNode r \<or> known a (rt_hub r) (recordID r rc)"

definition mesh_peers :: "('s, string) router \<Rightarrow> string list" where
  "mesh_peers r = map fst (rt_links r)"

definition mesh_ok :: "wire_record \<Rightarrow> time \<Rightarrow> ('s, string) router \<Rightarrow> bool" where
  "mesh_ok rc a r \<longleftrightarrow> record_ok rc \<and> router_inv r \<and> (\<forall>x. h_hash (rt_hub r) x \<noteq> '''') \<and>
     (\<forall>(i, l) \<in> set (rt_links r). l = i) \<and> calm a (rt_hub r) \<and>
     (map_of (ss_entries (h_seen (rt_hub r))) (recordID r rc) = None \<or> known a (rt_hub r) (recordID r rc))"

lemma mesh_live:
  assumes "mesh_ok rc a r"
  shows "live (now (rt_hub r)) (h_seen (rt_hub r)) (recordID r rc) \<longleftrightarrow> known a (rt_hub r) (recordID r rc)"
proof -
  have "now (rt_hub r) < a + ss_ttl (h_seen (rt_hub r))" using assms by (auto simp: mesh_ok_def calm_def now_def)
  then show ?thesis using assms by (auto simp: mesh_ok_def live_def known_def)
qed

lemma mesh_Ingest:
  assumes ok: "mesh_ok rc a r" and other: "r_Node rc \<noteq> rt_ourNode r"
  shows "known a (rt_hub r) (recordID r rc) \<Longrightarrow>
      Ingest r rc p = (r\<lparr>rt_hub := snd (Hub_Seen (rt_hub r) (recordID r rc))\<rparr>, [])"
    and "\<not> known a (rt_hub r) (recordID r rc) \<Longrightarrow>
      Ingest r rc p = (r\<lparr>rt_hub := apply_rec (snd (Hub_Seen (rt_hub r) (recordID r rc))) rc p\<rparr>, forward r (r_Raw rc) p)"
  using ok Ingest_eq [OF _ _ other] mesh_live [OF ok] by (simp_all add: mesh_ok_def Let_def)

lemma recordID_Seen: "recordID (r\<lparr>rt_hub := snd (Hub_Seen (rt_hub r) i)\<rparr>) rc = recordID r rc"
  by (simp add: recordID_def Let_def topicOf_def Hub_User_def)

lemma mesh_after:
  assumes ok: "mesh_ok rc a r" and other: "r_Node rc \<noteq> rt_ourNode r" and r'_def: "r' = fst (Ingest r rc p)"
  shows "recordID r' rc = recordID r rc" and "calm a (rt_hub r')" and "known a (rt_hub r') (recordID r rc)"
proof -
  let ?h = "snd (Hub_Seen (rt_hub r) (recordID r rc))"
  have rc: "record_ok rc" and inv: "hub_inv (rt_hub r)" and c: "calm a (rt_hub r)"
    using ok by (auto simp: mesh_ok_def router_inv_def)
  have inv': "hub_inv ?h" using inv by (rule hub_inv_Seen)
  have c': "calm a ?h" using c advances_Seen by (rule calm_mono)
  have k: "known a ?h (recordID r rc)" using inv c by (rule known_Seen)
  note adv = advances_apply_rec [OF inv', of rc p]
  have two: "rt_hub r' = ?h \<or> rt_hub r' = apply_rec ?h rc p"
    unfolding r'_def using mesh_Ingest [OF ok other, of p] by (cases "known a (rt_hub r) (recordID r rc)") simp_all
  then show "calm a (rt_hub r')" "known a (rt_hub r') (recordID r rc)"
    using c' k calm_mono [OF c' adv] known_mono [OF inv' c' adv k] by auto
  show "recordID r' rc = recordID r rc"
    unfolding r'_def using mesh_Ingest [OF ok other, of p] recordID_Seen [of r _ rc] recordID_apply [OF inv rc, where r = r]
    by (cases "known a (rt_hub r) (recordID r rc)") simp_all
qed

lemma map_fst_links:
  "\<forall>(i, l) \<in> set xs. l = i \<Longrightarrow>
     map fst (map (\<lambda>(_, l). (l, raw)) (filter (\<lambda>(i, _). i \<noteq> p) xs)) = filter (\<lambda>i. i \<noteq> p) (map fst xs)"
  by (induction xs) auto

lemma mesh_forward:
  "mesh_ok rc a r \<Longrightarrow> map fst (forward r raw p) = filter (\<lambda>i. i \<noteq> p) (mesh_peers r)"
  unfolding forward_def mesh_peers_def by (rule map_fst_links) (simp add: mesh_ok_def)

interpretation mesh: flood_relay "mesh_ingest rc" "mesh_seen rc a" mesh_peers "mesh_ok rc a" for rc a
proof (unfold_locales, goal_cases)
  case (1 r p)
  show ?case
  proof (cases "r_Node rc = rt_ourNode r")
    case True
    then show ?thesis using 1 by (simp add: mesh_ingest_def Ingest_def)
  next
    case False
    have h: "h_hash (rt_hub (fst (Ingest r rc p))) = h_hash (rt_hub r)"
      using 1 by (intro Ingest_hash) (simp add: mesh_ok_def)
    show ?thesis
      using 1 mesh_after [OF 1 False refl, of p] router_inv_Ingest [of r rc p] h
      by (simp add: mesh_ingest_def mesh_ok_def)
  qed
next
  case (2 r p)
  then show ?case by (simp add: mesh_ingest_def mesh_peers_def)
next
  case (3 r p)
  then show ?case
    using mesh_after [OF 3 _ refl, of p]
    by (cases "r_Node rc = rt_ourNode r") (simp_all add: mesh_seen_def mesh_ingest_def)
next
  case (4 r p)
  then show ?case
  proof (cases "r_Node rc = rt_ourNode r")
    case True
    then show ?thesis by (simp add: mesh_ingest_def Ingest_def)
  next
    case False
    then show ?thesis using 4 by (simp add: mesh_ingest_def mesh_seen_def mesh_Ingest(1))
  qed
next
  case (5 r p)
  then have "r_Node rc \<noteq> rt_ourNode r" "\<not> known a (rt_hub r) (recordID r rc)" by (simp_all add: mesh_seen_def)
  then show ?case
    using 5 by (auto simp: mesh_ingest_def mesh_Ingest(2) mesh_forward simp del: set_map)
next
  case (6 r p)
  consider "r_Node rc = rt_ourNode r" | "r_Node rc \<noteq> rt_ourNode r" "known a (rt_hub r) (recordID r rc)"
    | "r_Node rc \<noteq> rt_ourNode r" "\<not> known a (rt_hub r) (recordID r rc)" by blast
  then show ?case
  proof cases
    case 1
    then show ?thesis by (simp add: mesh_ingest_def Ingest_def)
  next
    case 2
    then show ?thesis by (simp add: mesh_ingest_def mesh_Ingest(1) [OF 6])
  next
    case 3
    have "length (snd (mesh_ingest rc r p)) = length (filter (\<lambda>i. i \<noteq> p) (mesh_peers r))"
      using arg_cong [OF mesh_forward [OF 6, of "r_Raw rc" p], of length] by (simp add: mesh_ingest_def mesh_Ingest(2) [OF 6 3])
    then show ?thesis by simp
  qed
qed


text \<open>A ring of three nodes, for the concrete instance.\<close>

definition ring_node :: "string \<Rightarrow> string list \<Rightarrow> (mem_store, string) router" where
  "ring_node call peers =
     fold (\<lambda>p r. Router_Add r p p) peers (NewRouter (NewHub call MemStore NewMemStore (\<lambda>x. ''#'' @ x) (\<lambda>_. 1)))"

definition ring :: "string \<Rightarrow> (mem_store, string) router" where
  "ring q = ring_node q (filter (\<lambda>p. p \<noteq> q) [''A'', ''B'', ''C''])"

definition ring_record :: wire_record where
  "ring_record = the (Decode (encodeJoin ''A'' ''G8PZT'' ''Tom'' ''''))"

lemma ring_record_ok: "record_ok ring_record" "r_Node ring_record = ''A''" "r_Type ring_record = IDJoin"
  by code_simp+

lemma fold_Add_inv: "router_inv r \<Longrightarrow> router_inv (fold (\<lambda>p r. Router_Add r p p) ps r)"
  by (induction ps arbitrary: r) (auto intro: router_inv_Add)

lemma fold_Add_hub: "rt_hub (fold (\<lambda>p r. Router_Add r p p) ps r) = rt_hub r"
  by (induction ps arbitrary: r) (simp_all add: Router_Add_def)

lemma ring_inv: "router_inv (ring_node call peers)"
  unfolding ring_node_def by (intro fold_Add_inv router_inv_New NewHub_inv)

lemma ring_hub: "rt_hub (ring_node call peers) = snd (Hub_Subscribe (NewHub call MemStore NewMemStore (\<lambda>x. ''#'' @ x) (\<lambda>_. 1)))"
  by (simp add: ring_node_def fold_Add_hub NewRouter_def split_def Let_def)

lemma NewHub_sel [simp]:
  "h_clock (NewHub c vt st hash clk) = clk" "h_hash (NewHub c vt st hash clk) = hash" "h_reads (NewHub c vt st hash clk) = 0"
  "h_seen (NewHub c vt st hash clk) = NewSeenSet DefaultSeenTTL" "h_ourNode (NewHub c vt st hash clk) = normCall c"
  by (simp_all add: NewHub_def)

lemma DefaultSeenTTL_pos: "0 < DefaultSeenTTL"
  by (simp add: DefaultSeenTTL_def second_def)

lemma ring_links: "mesh_peers (ring ''A'') = [''B'', ''C'']" "mesh_peers (ring ''B'') = [''A'', ''C'']" "mesh_peers (ring ''C'') = [''A'', ''B'']"
  "rt_links (ring ''A'') = [(''B'', ''B''), (''C'', ''C'')]" "rt_links (ring ''B'') = [(''A'', ''A''), (''C'', ''C'')]"
  "rt_links (ring ''C'') = [(''A'', ''A''), (''B'', ''B'')]"
  by code_simp+

lemma ring_ok:
  assumes "q \<in> {''A'', ''B'', ''C''}"
  shows "mesh_ok ring_record 1 (ring q)" and "mesh_seen ring_record 1 (ring q) \<longleftrightarrow> q = ''A''"
proof -
  have h: "rt_hub (ring q) = snd (Hub_Subscribe (NewHub q MemStore NewMemStore (\<lambda>x. ''#'' @ x) (\<lambda>_. 1)))"
    by (simp add: ring_def ring_hub)
  have our: "rt_ourNode (ring q) = normCall q"
    using ring_inv [of q] by (simp add: router_inv_def ring_def ring_hub Hub_Subscribe_def Let_def)
  have s: "h_seen (rt_hub (ring q)) = NewSeenSet DefaultSeenTTL" by (simp add: h Hub_Subscribe_def Let_def)
  have "calm 1 (rt_hub (ring q))"
    using DefaultSeenTTL_pos by (simp add: calm_def h Hub_Subscribe_def Let_def)
  moreover have "\<forall>(i, l) \<in> set (rt_links (ring q)). l = i" using assms ring_links by auto
  moreover have "router_inv (ring q)" by (simp add: ring_def ring_inv)
  ultimately show "mesh_ok ring_record 1 (ring q)"
    using ring_record_ok(1) by (simp add: mesh_ok_def s) (simp add: h Hub_Subscribe_def Let_def)
  have "normCall ''A'' = ''A''" "normCall ''B'' = ''B''" "normCall ''C'' = ''C''" by code_simp+
  then show "mesh_seen ring_record 1 (ring q) \<longleftrightarrow> q = ''A''"
    using assms by (auto simp: mesh_seen_def known_def s ring_record_ok(2) our)
qed

lemma ring_launched:
  "launched (mesh_seen ring_record 1) mesh_peers (mesh_ok ring_record 1) {''A'', ''B'', ''C''} ''A''
     (ring, {#(''A'', ''B''), (''A'', ''C'')#})"
  using ring_ok by (simp add: launched_def closed_net_def ring_links)


subsection \<open>Presence repeated within the window\<close>

lemma ensureUser_seen: "hub_inv h \<Longrightarrow> h_seen (ensureUser h rc f) = h_seen h"
proof -
  have "hub_inv h \<Longrightarrow> h_seen (fst (Hub_Join h u)) = h_seen h" for u
    by (cases "normCall (u_call u) = '''' \<or> normCall (o_node (u_origin u)) = ''''")
      (auto simp: Join_refused elim!: Join_accepted)
  then show "hub_inv h \<Longrightarrow> h_seen (ensureUser h rc f) = h_seen h"
    by (simp add: ensureUser_def Let_def split: option.split)
qed

lemma presence_seen:
  "r_Type rc \<in> {IDJoin, IDLeave, IDTopic} \<Longrightarrow> hub_inv h \<Longrightarrow> h_seen (apply_rec h rc f) = h_seen h"
  using ensureUser_seen [of h rc f]
  by (auto simp: apply_rec_def Let_def ID_defs Hub_SetInfo_def Hub_Leave_def SetTopic_sel split: option.split)

lemma presence_ids:
  assumes l: "r_Type l = IDLeave" and j: "r_Type j = IDJoin"
  shows "recordID x l \<noteq> recordID y j" "recordID x l = recordID y l" "recordID x j = recordID y j"
proof -
  have t: "string_of_byte IDLeave = [IDLeave]" "string_of_byte IDJoin = [IDJoin]" "IDLeave \<noteq> IDJoin"
    "IDLeave \<noteq> IDData" "IDLeave \<noteq> IDSend" "IDJoin \<noteq> IDData" "IDJoin \<noteq> IDSend"
    by (simp_all add: ID_defs string_of_byte_def)
  have p: "recordID x l = ''rec:'' @ [IDLeave] @ '':'' @ r_Raw l" "recordID x j = ''rec:'' @ [IDJoin] @ '':'' @ r_Raw j" for x
    using recordID_plain [of l x] recordID_plain [of j x] by (simp_all add: l j t)
  show "recordID x l \<noteq> recordID y j" "recordID x l = recordID y l" "recordID x j = recordID y j"
    unfolding p using t(3) by simp_all
qed

lemma join_applied:
  assumes "hub_inv h" "record_ok j" "r_Type j = IDJoin"
  shows "Hub_User (apply_rec h j f) (UserKey (r_User j) (r_Node j)) \<noteq> None"
proof -
  obtain u where "Hub_User (ensureUser h j f) (UserKey (r_User j) (r_Node j)) = Some u"
    using ensureUser_topic [OF assms(1,2)] by blast
  then show ?thesis
    by (auto simp: apply_rec_def assms(3) Let_def Hub_SetInfo_def Hub_User_def split: option.split)
qed

text \<open>What is known stays known when a user leaves.\<close>

lemma known_Leave:
  assumes "hub_inv h" "calm a h" "known a h i"
  shows "known a (Hub_Leave (snd (Hub_Seen h k)) key) i"
proof -
  have "known a (snd (Hub_Seen h k)) i" by (rule known_mono [OF assms(1,2) advances_Seen assms(3)])
  then show ?thesis
    by (rule known_mono [OF hub_inv_Seen [OF assms(1)] calm_mono [OF assms(2) advances_Seen] advances_simple(1)])
qed

text \<open>
  C40: a J, an L and then the same J line again, all within one TTL: the third record is
  dropped as already seen, so the user stays absent although the peer announced it last.
\<close>

theorem repeated_join_lost:
  assumes ok: "mesh_ok j a r" and j: "r_Type j = IDJoin" "r_Node j \<noteq> rt_ourNode r"
    and l: "record_ok l" "r_Type l = IDLeave" "r_Node l = r_Node j" "r_User l = r_User j"
    and fresh: "map_of (ss_entries (h_seen (rt_hub r))) (recordID r j) = None"
      "map_of (ss_entries (h_seen (rt_hub r))) (recordID r l) = None"
    and r1: "r1 = fst (Ingest r j f)" and r2: "r2 = fst (Ingest r1 l f)" and r3: "r3 = fst (Ingest r2 j f)"
  shows "Hub_User (rt_hub r1) (UserKey (r_User j) (r_Node j)) \<noteq> None \<and> Hub_User (rt_hub r3) (UserKey (r_User j) (r_Node j)) = None"
proof -
  let ?key = "UserKey (r_User j) (r_Node j)" and ?h = "snd (Hub_Seen (rt_hub r) (recordID r j))"
  have inv: "router_inv r" "hub_inv (rt_hub r)" and rj: "record_ok j" and hash: "\<forall>x. h_hash (rt_hub r) x \<noteq> ''''"
    and lk: "\<forall>(i, l) \<in> set (rt_links r). l = i"
    using ok by (auto simp: mesh_ok_def router_inv_def)
  have ih: "hub_inv ?h" using inv(2) by (rule hub_inv_Seen)
  note id = presence_ids [OF l(2) j(1)]
  have h1: "rt_hub r1 = apply_rec ?h j f"
    using mesh_Ingest(2) [OF ok j(2)] fresh(1) by (simp add: r1 known_def)
  have u1: "Hub_User (rt_hub r1) ?key \<noteq> None" unfolding h1 using ih rj j(1) by (rule join_applied)
  have e1: "map_of (ss_entries (h_seen (rt_hub r1))) (recordID r1 l) = None"
    using Seen_lookup [OF hub_invD(5) [OF inv(2)], of _ "recordID r j" "recordID r l"] id(1) [of r r] fresh(2)
    unfolding id(2) [of r1 r] by (simp add: h1 presence_seen [OF _ ih] j(1))
  have m1: "mesh_ok j a r1" "known a (rt_hub r1) (recordID r j)"
    using mesh.ok_ingest [OF ok, of f] mesh_after(3) [OF ok j(2) r1] by (simp_all add: mesh_ingest_def r1)
  then have ok1: "mesh_ok l a r1" using l(1) e1 by (simp add: mesh_ok_def)
  have nl: "r_Node l \<noteq> rt_ourNode r1" using j(2) l(3) by (simp add: r1)
  let ?h1 = "snd (Hub_Seen (rt_hub r1) (recordID r1 l))"
  have i1: "hub_inv (rt_hub r1)" using m1(1) by (simp add: mesh_ok_def router_inv_def)
  have h2: "rt_hub r2 = Hub_Leave ?h1 ?key"
    using mesh_Ingest(2) [OF ok1 nl] e1 l(2-) by (simp add: r2 known_def apply_rec_def ID_defs)
  have u2: "Hub_User (rt_hub r2) ?key = None" by (simp add: h2 Hub_Leave_def Hub_User_def Let_def split: option.split)
  have k2: "known a (rt_hub r2) (recordID r j)"
    unfolding h2 using i1 m1 by (intro known_Leave) (simp_all add: mesh_ok_def)
  have c2: "mesh_ok j a r2"
    using mesh_after(2) [OF ok1 nl r2] router_inv_Ingest [of r1 l f] Ingest_hash [of r1 l f] m1(1) k2 id(3) [of r2 r]
    by (simp add: mesh_ok_def r2)
  have "rt_hub r3 = snd (Hub_Seen (rt_hub r2) (recordID r2 j))"
    using mesh_Ingest(1) [OF c2, of f] k2 j(2) id(3) [of r2 r] by (simp add: r3 r2 r1)
  then show ?thesis using u1 u2 by (simp add: Hub_User_def)
qed

theorem repeated_join_lost_witness:
  "\<exists>l. Hub_User (rt_hub (fst (Ingest (ring ''B'') ring_record ''A''))) (UserKey ''G8PZT'' ''A'') \<noteq> None \<and>
     Hub_User (rt_hub (fst (Ingest (fst (Ingest (fst (Ingest (ring ''B'') ring_record ''A'')) l ''A'')) ring_record ''A'')))
       (UserKey ''G8PZT'' ''A'') = None"
proof -
  let ?l = "the (Decode (encodeLeave ''A'' ''G8PZT'' ''Tom'' ''''))"
  have l: "record_ok ?l" "r_Type ?l = IDLeave" "r_Node ?l = r_Node ring_record" "r_User ?l = r_User ring_record"
    and u: "r_User ring_record = ''G8PZT''" and n: "r_Node ring_record \<noteq> rt_ourNode (ring ''B'')"
    and s: "ss_entries (h_seen (rt_hub (ring ''B''))) = []"
    by code_simp+
  have "mesh_ok ring_record 1 (ring ''B'')" by (rule ring_ok(1)) simp
  from repeated_join_lost [OF this ring_record_ok(3) n l _ _ refl refl refl, of "''A''"] show ?thesis
    by (simp add: s u ring_record_ok(2)) blast
qed

end
