(* ===== verification/Peer_Allow.thy ===== *)
theory Peer_Allow
  imports Chat_Store "HOL-Library.Word"
begin

text \<open>
  \<^verbatim>\<open>internal/peer/allow.go\<close> and \<^verbatim>\<open>allow_store.go\<close>: who may link in. A Go map
  used as a set is a set of strings; a \<^verbatim>\<open>*AllowList\<close> that may be nil is an
  \<open>option\<close>, and a method that changes the list returns the changed one. The telemetry counter
  is an \<^verbatim>\<open>int64\<close>, a 64-bit word. The persistence functions take the two operations of
  the store they use as arguments; their contract is the locale \<open>config_kv\<close>.

  The lemmas give the admission decision after any sequence of edits, and the round trip through
  the store.
\<close>

record allow_list =
  al_allowed :: "string set"
  al_pinned :: "string set"
  al_rejected :: "64 word"

definition normCallsign :: "string \<Rightarrow> string" where
  "normCallsign c = ToUpper (TrimSpace c)"

text \<open>The loop that puts the canonical forms of the non-blank callsigns into a set.\<close>

fun addCallsigns :: "string list \<Rightarrow> string set \<Rightarrow> string set" where
  "addCallsigns [] s = s"
| "addCallsigns (c # cs) s = addCallsigns cs (if normCallsign c \<noteq> '''' then insert (normCallsign c) s else s)"

definition NewAllowList :: "string list \<Rightarrow> allow_list" where
  "NewAllowList callsigns = \<lparr>al_allowed = addCallsigns callsigns {}, al_pinned = {}, al_rejected = 0\<rparr>"

definition AllowList_Pin :: "allow_list option \<Rightarrow> string list \<Rightarrow> allow_list option" where
  "AllowList_Pin a callsigns =
     (case a of None \<Rightarrow> None | Some a \<Rightarrow> Some (a\<lparr>al_pinned := addCallsigns callsigns (al_pinned a)\<rparr>))"

definition AllowList_Allowed :: "allow_list option \<Rightarrow> string \<Rightarrow> bool" where
  "AllowList_Allowed a callsign =
     (case a of None \<Rightarrow> False
      | Some a \<Rightarrow>
          let cc = normCallsign callsign
          in if cc = '''' then False else if cc \<in> al_allowed a then True else cc \<in> al_pinned a)"

definition AllowList_Replace :: "allow_list option \<Rightarrow> string list \<Rightarrow> allow_list option" where
  "AllowList_Replace a callsigns =
     (case a of None \<Rightarrow> None | Some a \<Rightarrow> Some (a\<lparr>al_allowed := addCallsigns callsigns {}\<rparr>))"

definition AllowList_Add :: "allow_list option \<Rightarrow> string \<Rightarrow> allow_list option \<times> bool" where
  "AllowList_Add a callsign =
     (case a of None \<Rightarrow> (None, False)
      | Some l \<Rightarrow>
          let cc = normCallsign callsign
          in if cc = '''' then (a, False)
             else if cc \<in> al_allowed l then (a, False)
             else (Some (l\<lparr>al_allowed := insert cc (al_allowed l)\<rparr>), True))"

definition AllowList_Remove :: "allow_list option \<Rightarrow> string \<Rightarrow> allow_list option \<times> bool" where
  "AllowList_Remove a callsign =
     (case a of None \<Rightarrow> (None, False)
      | Some l \<Rightarrow>
          let cc = normCallsign callsign
          in if cc = '''' then (a, False)
             else if cc \<notin> al_allowed l then (a, False)
             else (Some (l\<lparr>al_allowed := al_allowed l - {cc}\<rparr>), True))"

definition AllowList_Reject :: "allow_list option \<Rightarrow> allow_list option \<times> 64 word" where
  "AllowList_Reject a =
     (case a of None \<Rightarrow> (None, 0)
      | Some l \<Rightarrow> (Some (l\<lparr>al_rejected := al_rejected l + 1\<rparr>), al_rejected l + 1))"

definition AllowList_Rejected :: "allow_list option \<Rightarrow> 64 word" where
  "AllowList_Rejected a = (case a of None \<Rightarrow> 0 | Some l \<Rightarrow> al_rejected l)"

definition AllowList_Entries :: "allow_list option \<Rightarrow> string list" where
  "AllowList_Entries a = (case a of None \<Rightarrow> [] | Some l \<Rightarrow> sorted_list_of_set (al_allowed l))"

definition AllowList_AllEntries :: "allow_list option \<Rightarrow> string list" where
  "AllowList_AllEntries a = (case a of None \<Rightarrow> [] | Some l \<Rightarrow> sorted_list_of_set (al_allowed l \<union> al_pinned l))"

subsection \<open>Persistence\<close>

definition ConfigKVAllowKey :: string where
  "ConfigKVAllowKey = ''peer_allow''"

definition allowSep :: "char \<Rightarrow> bool" where
  "allowSep c \<longleftrightarrow> c = CHR 0x0A \<or> c = CHR 0x0D \<or> c = CHR '','' \<or> c = CHR '' '' \<or> c = CHR 0x09"

definition encodeAllow :: "string list \<Rightarrow> string" where
  "encodeAllow callsigns = Join (sort (filter (\<lambda>cc. cc \<noteq> '''') (map normCallsign callsigns))) (CHR 0x0A)"

definition decodeAllow :: "string \<Rightarrow> string list" where
  "decodeAllow raw = filter (\<lambda>cc. cc \<noteq> '''') (map normCallsign (FieldsFunc raw allowSep))"

type_synonym 's get_config = "'s \<Rightarrow> string \<Rightarrow> string + string option"
type_synonym 's set_config = "'s \<Rightarrow> string \<Rightarrow> string \<Rightarrow> string + 's"

definition PersistAllowList :: "'s set_config \<Rightarrow> 's option \<Rightarrow> allow_list option \<Rightarrow> string + 's option" where
  "PersistAllowList put store a =
     (case store of None \<Rightarrow> Inr None
      | Some s \<Rightarrow>
          (case put s ConfigKVAllowKey (encodeAllow (AllowList_Entries a)) of
             Inl e \<Rightarrow> Inl e | Inr s \<Rightarrow> Inr (Some s)))"

definition LoadAllowList ::
    "'s get_config \<Rightarrow> 's set_config \<Rightarrow> 's option \<Rightarrow> string list \<Rightarrow> string + (allow_list option \<times> 's option)" where
  "LoadAllowList get put store envSeed =
     (let a = Some (NewAllowList [])
      in case store of
           None \<Rightarrow> Inr (AllowList_Replace a envSeed, None)
         | Some s \<Rightarrow>
             (case get s ConfigKVAllowKey of
                Inl e \<Rightarrow> Inl e
              | Inr (Some raw) \<Rightarrow> Inr (AllowList_Replace a (decodeAllow raw), store)
              | Inr None \<Rightarrow>
                  let a = AllowList_Replace a envSeed
                  in (case PersistAllowList put store a of
                        Inl e \<Rightarrow> Inl e
                      | Inr store \<Rightarrow> Inr (a, store))))"

definition ReloadAllowList :: "'s get_config \<Rightarrow> 's option \<Rightarrow> allow_list option \<Rightarrow> string + allow_list option" where
  "ReloadAllowList get store a =
     (case store of
        None \<Rightarrow> Inr a
      | Some s \<Rightarrow>
          if a = None then Inr a
          else (case get s ConfigKVAllowKey of
                  Inl e \<Rightarrow> Inl e
                | Inr None \<Rightarrow> Inr a
                | Inr (Some raw) \<Rightarrow> Inr (AllowList_Replace a (decodeAllow raw))))"

subsection \<open>The admission decision\<close>

definition canonical :: "string \<Rightarrow> bool" where
  "canonical c \<longleftrightarrow> normCallsign c = c \<and> c \<noteq> ''''"

definition allow_ok :: "allow_list \<Rightarrow> bool" where
  "allow_ok a \<longleftrightarrow> finite (al_allowed a) \<and> finite (al_pinned a) \<and> (\<forall>c \<in> al_allowed a. canonical c) \<and> (\<forall>c \<in> al_pinned a. canonical c)"

lemma normCallsign_idem [simp]: "normCallsign (normCallsign c) = normCallsign c"
  by (simp add: normCallsign_def TrimSpace_ToUpper)

lemma normCallsign_Nil [simp]: "normCallsign '''' = ''''"
  by (simp add: normCallsign_def)

lemma canonical_norm [simp]: "canonical (normCallsign c) \<longleftrightarrow> normCallsign c \<noteq> ''''"
  by (simp add: canonical_def)

lemma addCallsigns_eq: "addCallsigns cs s = s \<union> (normCallsign ` set cs - {''''})"
  by (induction cs arbitrary: s) auto

lemma allow_ok_updates:
  "allow_ok (NewAllowList cs)"
  "allow_ok a \<Longrightarrow> allow_ok (a\<lparr>al_pinned := addCallsigns cs (al_pinned a)\<rparr>)"
  "allow_ok a \<Longrightarrow> allow_ok (a\<lparr>al_allowed := addCallsigns cs {}\<rparr>)"
  "allow_ok a \<Longrightarrow> normCallsign c \<noteq> '''' \<Longrightarrow> allow_ok (a\<lparr>al_allowed := insert (normCallsign c) (al_allowed a)\<rparr>)"
  "allow_ok a \<Longrightarrow> allow_ok (a\<lparr>al_allowed := al_allowed a - S\<rparr>)"
  by (auto simp: allow_ok_def NewAllowList_def addCallsigns_eq)

lemma Allowed_iff: "allow_ok a \<Longrightarrow> AllowList_Allowed (Some a) c \<longleftrightarrow> normCallsign c \<in> al_allowed a \<union> al_pinned a"
  by (auto simp: AllowList_Allowed_def Let_def allow_ok_def canonical_def)

text \<open>The live edits, and what the editable set holds after them in terms of the edits alone.\<close>

datatype allow_edit = EditReplace "string list" | EditAdd string | EditRemove string

fun allow_do :: "allow_list option \<Rightarrow> allow_edit \<Rightarrow> allow_list option" where
  "allow_do a (EditReplace cs) = AllowList_Replace a cs"
| "allow_do a (EditAdd c) = fst (AllowList_Add a c)"
| "allow_do a (EditRemove c) = fst (AllowList_Remove a c)"

fun listed :: "bool \<Rightarrow> string \<Rightarrow> allow_edit \<Rightarrow> bool" where
  "listed b cc (EditReplace cs) \<longleftrightarrow> cc \<in> normCallsign ` set cs"
| "listed b cc (EditAdd c) \<longleftrightarrow> b \<or> normCallsign c = cc"
| "listed b cc (EditRemove c) \<longleftrightarrow> b \<and> normCallsign c \<noteq> cc"

lemma allow_do_step:
  assumes "allow_ok a"
  shows "\<exists>b. allow_do (Some a) e = Some b \<and> allow_ok b \<and> al_pinned b = al_pinned a \<and>
    (\<forall>cc. cc \<noteq> '''' \<longrightarrow> (cc \<in> al_allowed b \<longleftrightarrow> listed (cc \<in> al_allowed a) cc e))"
proof (cases e)
  case (EditReplace cs)
  then show ?thesis using allow_ok_updates(3) [OF assms, of cs] by (auto simp: AllowList_Replace_def addCallsigns_eq)
next
  case (EditAdd c)
  then show ?thesis using allow_ok_updates(4) [OF assms, of c] assms by (auto simp: AllowList_Add_def Let_def)
next
  case (EditRemove c)
  then show ?thesis using allow_ok_updates(5) [OF assms, of "{normCallsign c}"] assms
    by (auto simp: AllowList_Remove_def Let_def)
qed

lemma allow_do_steps:
  "allow_ok a \<Longrightarrow> \<exists>b. fold (\<lambda>e a. allow_do a e) es (Some a) = Some b \<and> allow_ok b \<and> al_pinned b = al_pinned a \<and>
     (\<forall>cc. cc \<noteq> '''' \<longrightarrow> (cc \<in> al_allowed b \<longleftrightarrow> fold (\<lambda>e b. listed b cc e) es (cc \<in> al_allowed a)))"
proof (induction es arbitrary: a)
  case (Cons e es)
  obtain b where "allow_do (Some a) e = Some b" "allow_ok b" "al_pinned b = al_pinned a"
    "\<forall>cc. cc \<noteq> '''' \<longrightarrow> (cc \<in> al_allowed b \<longleftrightarrow> listed (cc \<in> al_allowed a) cc e)"
    using allow_do_step [OF Cons.prems] by blast
  with Cons.IH [of b] show ?case by auto
qed auto

text \<open>
  C32: default deny. A list that started from a seed and pinned the peers we dial admits,
  after any sequence of live edits, exactly the callsigns that are pinned or that the edits leave
  listed, compared in canonical form with the SSID; the pinned ones whatever the edits; a blank
  callsign never; and a nil list nobody.
\<close>

theorem Allowed_after_edits:
  "AllowList_Allowed (fold (\<lambda>e a. allow_do a e) es (AllowList_Pin (Some (NewAllowList seed)) pins)) c \<longleftrightarrow>
     normCallsign c \<noteq> '''' \<and>
     (normCallsign c \<in> normCallsign ` set pins \<or>
      fold (\<lambda>e b. listed b (normCallsign c) e) es (normCallsign c \<in> normCallsign ` set seed))
   \<and> \<not> AllowList_Allowed None c"
proof -
  let ?a = "(NewAllowList seed)\<lparr>al_pinned := addCallsigns pins {}\<rparr>"
  have p: "AllowList_Pin (Some (NewAllowList seed)) pins = Some ?a"
    by (simp add: AllowList_Pin_def NewAllowList_def)
  have "allow_ok ?a" using allow_ok_updates(2) [OF allow_ok_updates(1), of pins seed] by (simp add: NewAllowList_def)
  then obtain b where b: "fold (\<lambda>e a. allow_do a e) es (Some ?a) = Some b" "allow_ok b" "al_pinned b = al_pinned ?a"
    "\<forall>cc. cc \<noteq> '''' \<longrightarrow> (cc \<in> al_allowed b \<longleftrightarrow> fold (\<lambda>e b. listed b cc e) es (cc \<in> al_allowed ?a))"
    using allow_do_steps by blast
  have ne: "\<forall>x \<in> al_allowed b \<union> al_pinned b. x \<noteq> ''''" using b(2) by (auto simp: allow_ok_def canonical_def)
  have i: "normCallsign c \<in> al_allowed ?a \<longleftrightarrow> normCallsign c \<in> normCallsign ` set seed" if "normCallsign c \<noteq> ''''"
    using that by (simp add: NewAllowList_def addCallsigns_eq)
  show ?thesis
  proof (cases "normCallsign c = ''''")
    case True
    then show ?thesis unfolding p b(1) using ne by (auto simp: Allowed_iff [OF b(2)])
  next
    case False
    then show ?thesis unfolding p b(1) Allowed_iff [OF b(2)] using b(4) i [OF False]
      by (auto simp: b(3) addCallsigns_eq AllowList_Allowed_def)
  qed
qed

subsection \<open>The round trip through the store\<close>

lemma normCallsign_fix: "nosp c \<Longrightarrow> ToUpper c = c \<Longrightarrow> normCallsign c = c"
  by (simp add: normCallsign_def nosp_TrimSpace)

lemma set_sorted_entries: "allow_ok a \<Longrightarrow> set (AllowList_Entries (Some a)) = al_allowed a"
  by (simp add: AllowList_Entries_def allow_ok_def)

text \<open>A callsign none of whose bytes is a separator of the stored form.\<close>

definition storable :: "string \<Rightarrow> bool" where
  "storable c \<longleftrightarrow> list_all (\<lambda>b. \<not> allowSep b) c"

lemma decode_encode:
  assumes "\<forall>c \<in> set cs. canonical c \<and> storable c"
  shows "set (decodeAllow (encodeAllow cs)) = set cs"
proof -
  let ?cs = "sort (filter (\<lambda>cc. cc \<noteq> '''') (map normCallsign cs))"
  have m: "map normCallsign cs = cs" using assms by (auto simp: canonical_def intro: map_idI)
  have f: "filter (\<lambda>cc. cc \<noteq> '''') cs = cs" using assms by (auto simp: canonical_def filter_id_conv)
  have s: "set ?cs = set cs" by (simp add: m f)
  have "FieldsFunc (Join ?cs (CHR 0x0A)) allowSep = ?cs"
    by (rule FieldsFunc_Join)
      (use assms in \<open>auto simp: m f list_all_iff storable_def canonical_def allowSep_def\<close>)
  then have "decodeAllow (encodeAllow cs) = filter (\<lambda>cc. cc \<noteq> '''') (map normCallsign ?cs)"
    by (simp add: decodeAllow_def encodeAllow_def)
  moreover have "map normCallsign ?cs = ?cs" using assms s by (intro map_idI) (auto simp: canonical_def)
  ultimately show ?thesis using assms s by (auto simp: canonical_def)
qed

lemma addCallsigns_decoded:
  assumes "allow_ok a" "\<forall>c \<in> al_allowed a. storable c"
  shows "addCallsigns (decodeAllow (encodeAllow (AllowList_Entries (Some a)))) {} = al_allowed a"
proof -
  have "set (decodeAllow (encodeAllow (AllowList_Entries (Some a)))) = al_allowed a"
    using decode_encode [of "AllowList_Entries (Some a)"] assms set_sorted_entries [OF assms(1)]
    by (auto simp: allow_ok_def)
  moreover have "normCallsign ` al_allowed a = al_allowed a" "'''' \<notin> al_allowed a"
    using assms(1) by (auto simp: allow_ok_def canonical_def image_iff)
  ultimately show ?thesis by (simp add: addCallsigns_eq)
qed

context config_kv
begin

lemma persisted_load:
  assumes "ok s" "allow_ok a" "\<forall>c \<in> al_allowed a. storable c" "PersistAllowList put (Some s) (Some a) = Inr (Some s')"
  shows "LoadAllowList get put (Some s') seed = Inr (Some ((NewAllowList [])\<lparr>al_allowed := al_allowed a\<rparr>), Some s')"
    and "ReloadAllowList get (Some s') (Some b) = Inr (Some (b\<lparr>al_allowed := al_allowed a\<rparr>))"
proof -
  have "put s ConfigKVAllowKey (encodeAllow (AllowList_Entries (Some a))) = Inr s'"
    using assms(4) by (auto simp: PersistAllowList_def split: sum.splits)
  then have "get s' ConfigKVAllowKey = Inr (Some (encodeAllow (AllowList_Entries (Some a))))"
    using get_put [OF assms(1)] by simp
  then show "LoadAllowList get put (Some s') seed = Inr (Some ((NewAllowList [])\<lparr>al_allowed := al_allowed a\<rparr>), Some s')"
    and "ReloadAllowList get (Some s') (Some b) = Inr (Some (b\<lparr>al_allowed := al_allowed a\<rparr>))"
    using addCallsigns_decoded [OF assms(2,3)]
    by (simp_all add: LoadAllowList_def ReloadAllowList_def AllowList_Replace_def Let_def NewAllowList_def)
qed

text \<open>A first start persists the seed, so the next one finds it whatever its own seed is.\<close>

lemma seed_persists:
  assumes "ok s" "get s ConfigKVAllowKey = Inr None" "\<forall>c \<in> set seed. normCallsign c = '''' \<or> storable (normCallsign c)"
    and "LoadAllowList get put (Some s) seed = Inr (a, Some s')"
  shows "\<exists>b. a = Some b \<and> LoadAllowList get put (Some s') seed' = Inr (Some ((NewAllowList [])\<lparr>al_allowed := al_allowed b\<rparr>), Some s')"
proof -
  let ?b = "(NewAllowList [])\<lparr>al_allowed := addCallsigns seed {}\<rparr>"
  have ok: "allow_ok ?b" by (intro allow_ok_updates)
  have st: "\<forall>c \<in> al_allowed ?b. storable c" using assms(3) by (auto simp: addCallsigns_eq)
  have p: "a = Some ?b" "PersistAllowList put (Some s) (Some ?b) = Inr (Some s')"
    using assms(2,4) by (auto simp: LoadAllowList_def Let_def AllowList_Replace_def split: sum.splits)
  show ?thesis using persisted_load(1) [OF assms(1) ok st p(2)] p(1) by blast
qed

end

text \<open>
  An edited list that is persisted survives a restart: loading gives the same editable
  set whatever the environment seeds, and reloading into a running list replaces its editable set
  and keeps its pinned peers, provided no callsign holds a separator of the stored form (newline,
  CR, comma, blank, TAB).
\<close>

theorem persist_roundtrip:
  assumes "allow_ok a" "\<forall>c \<in> al_allowed a. storable c"
  shows "\<exists>s'. PersistAllowList MemStore_SetConfig (Some s) (Some a) = Inr (Some s') \<and>
    LoadAllowList MemStore_GetConfig MemStore_SetConfig (Some s') seed =
      Inr (Some ((NewAllowList [])\<lparr>al_allowed := al_allowed a\<rparr>), Some s') \<and>
    ReloadAllowList MemStore_GetConfig (Some s') (Some b) = Inr (Some (b\<lparr>al_allowed := al_allowed a\<rparr>))"
proof -
  obtain s' where "PersistAllowList MemStore_SetConfig (Some s) (Some a) = Inr (Some s')"
    by (auto simp: PersistAllowList_def MemStore_SetConfig_def)
  with mem_kv.persisted_load [OF TrueI assms this] show ?thesis by blast
qed

theorem persist_roundtrip_witness:
  "allow_ok (NewAllowList ['' gb7ndh-3'', ''M0LTE'']) \<and>
   (\<exists>s'. PersistAllowList MemStore_SetConfig (Some NewMemStore) (Some (NewAllowList ['' gb7ndh-3'', ''M0LTE''])) = Inr (Some s') \<and>
      LoadAllowList MemStore_GetConfig MemStore_SetConfig (Some s') [''G0XXX''] =
        Inr (Some (NewAllowList ['' gb7ndh-3'', ''M0LTE'']), Some s'))"
proof -
  let ?a = "NewAllowList ['' gb7ndh-3'', ''M0LTE'']"
  have s: "\<forall>c \<in> al_allowed ?a. storable c" by code_simp
  have "(NewAllowList [])\<lparr>al_allowed := al_allowed ?a\<rparr> = ?a" by (simp add: NewAllowList_def)
  with persist_roundtrip [OF allow_ok_updates(1) s, of NewMemStore "[''G0XXX'']"] show ?thesis
    using allow_ok_updates(1) by fastforce
qed

text \<open>
  Without that proviso the stored form is ambiguous. The editor accepts any text as one
  callsign; \<^verbatim>\<open>A,B\<close> is one entry that admits neither A nor B, but after a restart the list
  admits both and no longer the entry itself.
\<close>

theorem unchecked_callsign_splits:
  "\<exists>a s'. fst (AllowList_Add (Some (NewAllowList [])) ''A,B'') = Some a \<and>
     \<not> AllowList_Allowed (Some a) ''A'' \<and> \<not> AllowList_Allowed (Some a) ''B'' \<and>
     PersistAllowList MemStore_SetConfig (Some NewMemStore) (Some a) = Inr (Some s') \<and>
     (\<exists>b. LoadAllowList MemStore_GetConfig MemStore_SetConfig (Some s') [] = Inr (Some b, Some s') \<and>
        AllowList_Allowed (Some b) ''A'' \<and> AllowList_Allowed (Some b) ''B'' \<and> \<not> AllowList_Allowed (Some b) ''A,B'')"
proof -
  let ?a = "the (fst (AllowList_Add (Some (NewAllowList [])) ''A,B''))"
  let ?s = "NewMemStore\<lparr>ms_config := [(''peer_allow'', ''A,B'')]\<rparr>"
  have "fst (AllowList_Add (Some (NewAllowList [])) ''A,B'') = Some ?a" "\<not> AllowList_Allowed (Some ?a) ''A''"
    "\<not> AllowList_Allowed (Some ?a) ''B''"
    "PersistAllowList MemStore_SetConfig (Some NewMemStore) (Some ?a) = Inr (Some ?s)"
    "LoadAllowList MemStore_GetConfig MemStore_SetConfig (Some ?s) [] = Inr (Some (NewAllowList [''A'', ''B'']), Some ?s)"
    "AllowList_Allowed (Some (NewAllowList [''A'', ''B''])) ''A''" "AllowList_Allowed (Some (NewAllowList [''A'', ''B''])) ''B''"
    "\<not> AllowList_Allowed (Some (NewAllowList [''A'', ''B''])) ''A,B''"
    by code_simp+
  then show ?thesis by blast
qed

end
