(* ===== verification/Peer_Link.thy ===== *)
theory Peer_Link
  imports Peer_Mesh Peer_Allow
begin

text \<open>
  \<^verbatim>\<open>internal/peer/link.go\<close> and \<^verbatim>\<open>dialer.go\<close>: one node-to-node session over a
  byte stream. A connection \<open>conn\<close> holds the bytes that will arrive before the stream ends and
  the bytes written so far; the \<open>i\<close>-th write fails if \<open>c_wfail i\<close>, so every error path
  of a write is a branch. A link is the record of \<^verbatim>\<open>Link\<close> with its connection; readings
  of \<^verbatim>\<open>time.Now\<close> are arguments. The router holds link handles; the links of a router
  are told apart by a handle of type \<open>'l\<close>, and what the router writes to other links while
  this one is served is returned as in \<open>Ingest\<close>.

  The reader goroutine cancels the context when the stream ends, so how many of the lines read are
  still handled is a race in the code: it is the argument \<open>handled\<close> of \<open>serve\<close>.
\<close>

datatype link_error = EOF | WriteError | NoNode | Refused string | DeadlineExceeded | Cancelled

subsection \<open>The byte stream\<close>

record conn =
  c_in :: string
  c_out :: string
  c_wfail :: "nat \<Rightarrow> bool"
  c_writes :: nat

definition conn_write :: "conn \<Rightarrow> string \<Rightarrow> conn \<times> link_error option" where
  "conn_write c s =
     (if c_wfail c (c_writes c) then (c\<lparr>c_writes := Suc (c_writes c)\<rparr>, Some WriteError)
      else (c\<lparr>c_out := c_out c @ s, c_writes := Suc (c_writes c)\<rparr>, None))"

definition maxLine :: nat where
  "maxLine = 4096"

definition eol :: "char \<Rightarrow> bool" where
  "eol c \<longleftrightarrow> c = CHR 0x0D \<or> c = CHR 0x0A"

text \<open>\<open>b\<close> is the builder; the result is the line, or \<open>None\<close> at the end of the stream, and
  the bytes left.\<close>

fun readLine :: "string \<Rightarrow> string \<Rightarrow> string option \<times> string" where
  "readLine b [] = (None, [])"
| "readLine b (c # s) =
     (if eol c then (Some b, s) else readLine (if length b < maxLine then b @ [c] else b) s)"

lemma readLine_shrinks: "readLine b s = (Some l, s') \<Longrightarrow> length s' < length s"
  by (induction b s rule: readLine.induct) (auto split: if_splits)

function readUntil :: "string \<Rightarrow> (string \<Rightarrow> bool) \<Rightarrow> link_error option \<times> string" where
  "readUntil s pred =
     (case readLine '''' s of
        (None, s') \<Rightarrow> (Some EOF, s')
      | (Some line, s') \<Rightarrow> if pred line then (None, s') else readUntil s' pred)"
  by pat_completeness auto
termination
  by (relation "measure (\<lambda>(s, _). length s)") (auto dest: readLine_shrinks [OF sym])

function readFirstRecord :: "string \<Rightarrow> (link_error + wire_record) \<times> string" where
  "readFirstRecord s =
     (case readLine '''' s of
        (None, s') \<Rightarrow> (Inl EOF, s')
      | (Some line, s') \<Rightarrow> (case Decode line of Some rc \<Rightarrow> (Inr rc, s') | None \<Rightarrow> readFirstRecord s'))"
  by pat_completeness auto
termination
  by (relation "measure length") (auto dest: readLine_shrinks [OF sym])

text \<open>All lines of a stream, as \<^verbatim>\<open>readLines\<close> delivers them.\<close>

function readLines :: "string \<Rightarrow> string list" where
  "readLines s = (case readLine '''' s of (None, _) \<Rightarrow> [] | (Some line, s') \<Rightarrow> line # readLines s')"
  by pat_completeness auto
termination
  by (relation "measure length") (auto dest: readLine_shrinks [OF sym])

declare readUntil.simps [simp del] readFirstRecord.simps [simp del] readLines.simps [simp del]

subsection \<open>The link\<close>

record link =
  l_peerCall :: string
  l_ourNode :: string
  l_version :: string
  l_conn :: conn
  l_outbound :: bool
  l_greeted :: bool
  l_keepaliveEvery :: duration
  l_expectTimeout :: duration
  l_lastSeen :: time
  l_rtt :: duration
  l_sentPing :: time
  l_linkedAt :: time

record link_config =
  cfg_PeerCall :: string
  cfg_OurNode :: string
  cfg_Version :: string
  cfg_Outbound :: bool
  cfg_Greeted :: bool
  cfg_Keepalive :: duration
  cfg_ExpectTimeout :: duration

record link_status =
  st_PeerCall :: string
  st_Outbound :: bool
  st_LinkedAt :: time
  st_LastSeen :: time
  st_RTT :: duration

definition KeepaliveInterval :: duration where
  "KeepaliveInterval = 60 * second"

definition LinkTimeout :: duration where
  "LinkTimeout = 5 * 60 * second"

definition DefaultExpectTimeout :: duration where
  "DefaultExpectTimeout = 30 * second"

definition NewLink :: "conn \<Rightarrow> link_config \<Rightarrow> link" where
  "NewLink rw cfg =
     \<lparr>l_peerCall = ToUpper (cfg_PeerCall cfg), l_ourNode = ToUpper (cfg_OurNode cfg),
      l_version = (if cfg_Version cfg = '''' then ''pdn'' else cfg_Version cfg), l_conn = rw,
      l_outbound = cfg_Outbound cfg, l_greeted = cfg_Greeted cfg,
      l_keepaliveEvery = (if cfg_Keepalive cfg \<le> 0 then KeepaliveInterval else cfg_Keepalive cfg),
      l_expectTimeout = (if cfg_ExpectTimeout cfg \<le> 0 then DefaultExpectTimeout else cfg_ExpectTimeout cfg),
      l_lastSeen = 0, l_rtt = 0, l_sentPing = 0, l_linkedAt = 0\<rparr>"

definition Link_Status :: "link \<Rightarrow> link_status" where
  "Link_Status l =
     \<lparr>st_PeerCall = l_peerCall l, st_Outbound = l_outbound l, st_LinkedAt = l_linkedAt l,
      st_LastSeen = l_lastSeen l, st_RTT = l_rtt l\<rparr>"

text \<open>
  \<^verbatim>\<open>LinkStatuses\<close> of the router, for a router whose handles are the links themselves (every
  sink of the program is one): a snapshot per link, by callsign.
\<close>

definition LinkStatuses :: "('s, link) router \<Rightarrow> link_status list" where
  "LinkStatuses r = sort_key st_PeerCall (map (\<lambda>(_, l). Link_Status l) (rt_links r))"

definition markSeen :: "time \<Rightarrow> link \<Rightarrow> link" where
  "markSeen t l = l\<lparr>l_lastSeen := t\<rparr>"

definition markPingSent :: "time \<Rightarrow> link \<Rightarrow> link" where
  "markPingSent t l = (if isZero (l_sentPing l) then l\<lparr>l_sentPing := t\<rparr> else l)"

definition recordPong :: "time \<Rightarrow> link \<Rightarrow> link" where
  "recordPong t l = (if \<not> isZero (l_sentPing l) then l\<lparr>l_rtt := t - l_sentPing l, l_sentPing := 0\<rparr> else l)"

definition sinceLastSeen :: "time \<Rightarrow> link \<Rightarrow> duration" where
  "sinceLastSeen t l = t - l_lastSeen l"

definition sendRaw :: "link \<Rightarrow> string \<Rightarrow> link \<times> link_error option" where
  "sendRaw l raw = (let (c, e) = conn_write (l_conn l) (raw @ [CHR 0x0D]) in (l\<lparr>l_conn := c\<rparr>, e))"

definition sendKeepalive :: "link \<Rightarrow> link \<times> link_error option" where
  "sendKeepalive l = sendRaw l (encodeKeepalive (l_ourNode l) (l_peerCall l) (l_version l))"

text \<open>\<^verbatim>\<open>l.readUntil(br, pred)\<close> on the connection of the link.\<close>

definition link_readUntil :: "link \<Rightarrow> (string \<Rightarrow> bool) \<Rightarrow> link \<times> link_error option" where
  "link_readUntil l pred = (let (e, rest) = readUntil (c_in (l_conn l)) pred in (l\<lparr>l_conn := (l_conn l)\<lparr>c_in := rest\<rparr>\<rparr>, e))"

text \<open>Run the next action unless the one before failed: \<^verbatim>\<open>if err := ...; err != nil { return err }\<close>.\<close>

definition andThen :: "link \<times> link_error option \<Rightarrow> (link \<Rightarrow> link \<times> link_error option) \<Rightarrow> link \<times> link_error option" where
  "andThen r f = (case r of (l, Some e) \<Rightarrow> (l, Some e) | (l, None) \<Rightarrow> f l)"

definition isOK :: "string \<Rightarrow> bool" where
  "isOK s \<longleftrightarrow> HasPrefix (ToUpper s) ''OK''"

definition handshake :: "link \<Rightarrow> link \<times> link_error option" where
  "handshake l =
     (if l_outbound l then
        andThen (link_readUntil l isBanner) (\<lambda>l.
        andThen (sendRaw l rtlLogin) (\<lambda>l.
        andThen (sendKeepalive l) (\<lambda>l.
        link_readUntil l isOK)))
      else
        andThen (if \<not> l_greeted l then andThen (sendRaw l banner) (\<lambda>l. link_readUntil l IsRTL) else (l, None)) (\<lambda>l.
        andThen (sendRaw l ''OK'') sendKeepalive))"

text \<open>
  One turn of the loop of \<^verbatim>\<open>keepaliveLoop\<close>, with how the loop ends if it does: it
  closes the transport of a dead peer (\<open>PeerDead\<close>), and it gives up when a send fails.
\<close>

datatype keepalive_exit = PeerDead | SendFailed

definition keepaliveTick :: "time \<Rightarrow> link \<Rightarrow> link \<times> keepalive_exit option" where
  "keepaliveTick t l =
     (if sinceLastSeen t l > LinkTimeout then (l, Some PeerDead)
      else case sendKeepalive (markPingSent t l) of
             (l, None) \<Rightarrow> (l, None)
           | (l, Some _) \<Rightarrow> (l, Some SendFailed))"

subsection \<open>Connect scripts\<close>

record script_step =
  s_Expect :: string
  s_Send :: string

text \<open>
  The loop of \<^verbatim>\<open>expect\<close>: in turn \<open>i\<close>, \<open>canc i\<close> is \<^verbatim>\<open>ctx.Err() != nil\<close>
  and \<open>clk i\<close> the reading of \<^verbatim>\<open>time.Now\<close> at its end. A read deadline of the
  transport shows as the end of the stream.
\<close>

fun expect ::
    "(nat \<Rightarrow> bool) \<Rightarrow> (nat \<Rightarrow> time) \<Rightarrow> time \<Rightarrow> string \<Rightarrow> nat \<Rightarrow> nat \<Rightarrow> string \<Rightarrow> string \<Rightarrow> link_error option \<times> string" where
  "expect canc clk deadline wantUp keep i window [] = (Some (if canc i then Cancelled else EOF), [])"
| "expect canc clk deadline wantUp keep i window (b # s) =
     (if canc i then (Some Cancelled, b # s)
      else
        let window = window @ [b];
            window = (if length window > keep * 2 then drop (length window - keep) window else window)
        in if Contains (ToUpper window) wantUp then (None, s)
           else if \<not> clk i < deadline then (Some DeadlineExceeded, s)
           else expect canc clk deadline wantUp keep (Suc i) window s)"

definition link_expect :: "(nat \<Rightarrow> bool) \<Rightarrow> (nat \<Rightarrow> time) \<Rightarrow> time \<Rightarrow> link \<Rightarrow> string \<Rightarrow> link \<times> link_error option" where
  "link_expect canc clk start l want =
     (let (e, rest) = expect canc clk (start + l_expectTimeout l) (ToUpper want) (length want + 64) 0 [] (c_in (l_conn l))
      in (l\<lparr>l_conn := (l_conn l)\<lparr>c_in := rest\<rparr>\<rparr>, e))"

text \<open>The \<open>k\<close>-th step has its own readings \<open>canc k\<close>, \<open>clk k\<close> and \<open>start k\<close>.\<close>

fun walkScript ::
    "(nat \<Rightarrow> nat \<Rightarrow> bool) \<Rightarrow> (nat \<Rightarrow> nat \<Rightarrow> time) \<Rightarrow> (nat \<Rightarrow> time) \<Rightarrow> nat \<Rightarrow> script_step list \<Rightarrow> link \<Rightarrow> link \<times> link_error option" where
  "walkScript canc clk start k [] l = (l, None)"
| "walkScript canc clk start k (st # sts) l =
     andThen (if s_Expect st \<noteq> '''' then link_expect (canc k) (clk k) (start k) l (s_Expect st) else (l, None)) (\<lambda>l.
     andThen (if s_Send st \<noteq> '''' then sendRaw l (s_Send st) else (l, None)) (\<lambda>l.
     walkScript canc clk start (Suc k) sts l))"

subsection \<open>Serving\<close>

definition tellUser :: "user \<Rightarrow> link \<Rightarrow> link" where
  "tellUser u l =
     (if o_node (u_origin u) \<noteq> l_ourNode l then l
      else
        let l = fst (sendRaw l (encodeJoin (l_ourNode l) (u_call u) (u_name u) (u_qth u)))
        in if \<not> EqualFold (u_topic u) DefaultTopic then fst (sendRaw l (encodeTopic (l_ourNode l) (u_call u) (u_topic u)))
           else l)"

definition stateTell :: "'s hub \<Rightarrow> link \<Rightarrow> link" where
  "stateTell hub l = fold tellUser (Hub_Users hub) l"

text \<open>\<open>t1\<close> and \<open>t2\<close> are the readings of the clock in \<^verbatim>\<open>markSeen\<close> and \<^verbatim>\<open>recordPong\<close>.\<close>

definition handleRecord ::
    "time \<Rightarrow> time \<Rightarrow> link \<times> ('s, 'l) router \<Rightarrow> wire_record \<Rightarrow> (link \<times> ('s, 'l) router) \<times> ('l \<times> string) list" where
  "handleRecord t1 t2 lr rc =
     (let l = markSeen t1 (fst lr); r = snd lr
      in if r_Type rc = IDKeepalive \<or> r_Type rc = IDPoll then
           ((fst (sendRaw l (encodePollResp (l_ourNode l) (l_peerCall l))), r), [])
         else if r_Type rc = IDPollResp then ((recordPong t2 l, r), [])
         else let (r, out) = Ingest r rc (l_peerCall l) in ((l, r), out))"

definition handle ::
    "time \<Rightarrow> time \<Rightarrow> link \<times> ('s, 'l) router \<Rightarrow> string \<Rightarrow> (link \<times> ('s, 'l) router) \<times> ('l \<times> string) list" where
  "handle t1 t2 lr line =
     (if \<not> IsControl line then (lr, [])
      else case Decode line of None \<Rightarrow> (lr, []) | Some rc \<Rightarrow> handleRecord t1 t2 lr rc)"

fun handleLines ::
    "(nat \<Rightarrow> time) \<Rightarrow> nat \<Rightarrow> string list \<Rightarrow> link \<times> ('s, 'l) router \<Rightarrow> (link \<times> ('s, 'l) router) \<times> ('l \<times> string) list" where
  "handleLines clk k [] lr = (lr, [])"
| "handleLines clk k (line # lines) lr =
     (let (lr, out) = handle (clk k) (clk (Suc k)) lr line;
          (lr, out') = handleLines clk (k + 2) lines lr
      in (lr, out @ out'))"

definition serve_up :: "time \<Rightarrow> 'l \<Rightarrow> link \<times> ('s, 'l) router \<Rightarrow> link \<times> ('s, 'l) router" where
  "serve_up t hnd lr =
     (let l = (fst lr)\<lparr>l_lastSeen := t, l_linkedAt := t\<rparr>;
          r = Router_Add (snd lr) (l_peerCall l) hnd;
          r = r\<lparr>rt_hub := fst (Hub_LinkNode (rt_hub r) (l_peerCall l) '''' (l_version l))\<rparr>
      in (stateTell (rt_hub r) l, r))"

text \<open>The deferred calls, in the order they run: \<^verbatim>\<open>UnlinkNode\<close>, then \<^verbatim>\<open>Remove\<close>.\<close>

definition serve_down :: "link \<times> ('s, 'l) router \<Rightarrow> link \<times> ('s, 'l) router" where
  "serve_down lr =
     (let l = fst lr;
          r = (snd lr)\<lparr>rt_hub := fst (Hub_UnlinkNode (rt_hub (snd lr)) (l_peerCall l))\<rparr>
      in (l, Router_Remove r (l_peerCall l)))"

definition serve ::
    "(nat \<Rightarrow> time) \<Rightarrow> nat \<Rightarrow> wire_record option \<Rightarrow> 'l \<Rightarrow> link \<times> ('s, 'l) router \<Rightarrow> (link \<times> ('s, 'l) router) \<times> ('l \<times> string) list" where
  "serve clk handled pending hnd lr =
     (let lr = serve_up (clk 0) hnd lr;
          (lr, out0) = (case pending of None \<Rightarrow> (lr, []) | Some rc \<Rightarrow> handleRecord (clk 1) (clk 2) lr rc);
          (lr, out) = handleLines clk 3 (take handled (readLines (c_in (l_conn (fst lr))))) lr
      in (serve_down lr, out0 @ out))"

definition RunWithReader ::
    "(nat \<Rightarrow> time) \<Rightarrow> nat \<Rightarrow> 'l \<Rightarrow> link \<times> ('s, 'l) router \<Rightarrow> (link \<times> ('s, 'l) router) \<times> ('l \<times> string) list \<times> link_error" where
  "RunWithReader clk handled hnd lr =
     (case handshake (fst lr) of
        (l, Some e) \<Rightarrow> ((l, snd lr), [], e)
      | (l, None) \<Rightarrow> (let (lr, out) = serve clk handled None hnd (l, snd lr) in (lr, out, EOF)))"

definition RunWithScript ::
    "(nat \<Rightarrow> nat \<Rightarrow> bool) \<Rightarrow> (nat \<Rightarrow> nat \<Rightarrow> time) \<Rightarrow> (nat \<Rightarrow> time) \<Rightarrow> script_step list \<Rightarrow>
     (nat \<Rightarrow> time) \<Rightarrow> nat \<Rightarrow> 'l \<Rightarrow> link \<times> ('s, 'l) router \<Rightarrow> (link \<times> ('s, 'l) router) \<times> ('l \<times> string) list \<times> link_error" where
  "RunWithScript canc clk start steps sclk handled hnd lr =
     (case walkScript canc clk start 0 steps (fst lr) of
        (l, Some e) \<Rightarrow> ((l, snd lr), [], e)
      | (l, None) \<Rightarrow> RunWithReader sclk handled hnd (l, snd lr))"

record ('s, 'l) inbound =
  ib_conn :: conn
  ib_router :: "('s, 'l) router"
  ib_allow :: "allow_list option"
  ib_sent :: "('l \<times> string) list"
  ib_err :: link_error

definition ServeInboundIP ::
    "(nat \<Rightarrow> time) \<Rightarrow> nat \<Rightarrow> 'l \<Rightarrow> conn \<Rightarrow> ('s, 'l) router \<Rightarrow> string \<Rightarrow> allow_list option \<Rightarrow> ('s, 'l) inbound" where
  "ServeInboundIP clk handled hnd rw r ourNode allow =
     (let fail = (\<lambda>c allow e. \<lparr>ib_conn = c, ib_router = r, ib_allow = allow, ib_sent = [], ib_err = e\<rparr>)
      in case conn_write rw (banner @ [CHR 0x0D]) of
           (c, Some e) \<Rightarrow> fail c allow e
         | (c, None) \<Rightarrow>
             (case readUntil (c_in c) IsRTL of
                (Some e, s) \<Rightarrow> fail (c\<lparr>c_in := s\<rparr>) allow e
              | (None, s) \<Rightarrow>
                  (case readFirstRecord s of
                     (Inl e, s) \<Rightarrow> fail (c\<lparr>c_in := s\<rparr>) allow e
                   | (Inr first, s) \<Rightarrow>
                       let c = c\<lparr>c_in := s\<rparr>
                       in if r_Node first = '''' then fail c allow NoNode
                          else if \<not> AllowList_Allowed allow (r_Node first)
                          then fail c (fst (AllowList_Reject allow)) (Refused (r_Node first))
                          else
                            let l = NewLink c \<lparr>cfg_PeerCall = r_Node first, cfg_OurNode = ourNode, cfg_Version = '''',
                                      cfg_Outbound = False, cfg_Greeted = True, cfg_Keepalive = 0, cfg_ExpectTimeout = 0\<rparr>
                            in case andThen (sendRaw l ''OK'') sendKeepalive of
                                 (l, Some e) \<Rightarrow> fail (l_conn l) allow e
                               | (l, None) \<Rightarrow>
                                   let (lr, out) = serve clk handled (Some first) hnd (l, r)
                                   in \<lparr>ib_conn = l_conn (fst lr), ib_router = snd lr, ib_allow = allow,
                                       ib_sent = out, ib_err = EOF\<rparr>)))"

subsection \<open>Dialling\<close>

definition dialInitial :: duration where "dialInitial = 2 * second"
definition dialMax :: duration where "dialMax = 60 * second"

definition nextBackoff :: "duration \<Rightarrow> duration" where
  "nextBackoff b = (let b = b * 2 in if b > dialMax then dialMax else b)"

definition dialOnce ::
    "link_error + conn \<Rightarrow> (nat \<Rightarrow> time) \<Rightarrow> nat \<Rightarrow> 'l \<Rightarrow> string \<Rightarrow> string \<Rightarrow> ('s, 'l) router \<Rightarrow> ('s, 'l) router \<times> ('l \<times> string) list \<times> link_error" where
  "dialOnce dialled clk handled hnd peerCall ourNode r =
     (case dialled of
        Inl e \<Rightarrow> (r, [], e)
      | Inr c \<Rightarrow>
          let l = NewLink c \<lparr>cfg_PeerCall = peerCall, cfg_OurNode = ourNode, cfg_Version = '''', cfg_Outbound = True,
                    cfg_Greeted = False, cfg_Keepalive = 0, cfg_ExpectTimeout = 0\<rparr>;
              (lr, out, e) = RunWithReader clk handled hnd (l, r)
          in (snd lr, out, e))"

text \<open>
  The dial loop over the outcomes of its attempts; the context is cancelled after the last. Its
  results are the router, everything sent, and the waits between the attempts.
\<close>

fun DialAndServe ::
    "(link_error + conn) list \<Rightarrow> (nat \<Rightarrow> time) \<Rightarrow> nat \<Rightarrow> 'l \<Rightarrow> string \<Rightarrow> string \<Rightarrow> duration \<Rightarrow> ('s, 'l) router \<Rightarrow>
     ('s, 'l) router \<times> ('l \<times> string) list \<times> duration list" where
  "DialAndServe [] clk handled hnd peerCall ourNode backoff r = (r, [], [])"
| "DialAndServe (d # ds) clk handled hnd peerCall ourNode backoff r =
     (let (r, out, _) = dialOnce d clk handled hnd peerCall ourNode r;
          (r, out', ws) = DialAndServe ds clk handled hnd peerCall ourNode (nextBackoff backoff) r
      in (r, out @ out', backoff # ws))"

end
