(* ===== verification/Sqlite.thy ===== *)
theory Sqlite
  imports Chat_Store "HOL-Library.Word" "HOL-Library.Multiset"
begin

text \<open>
  \<^verbatim>\<open>internal/store/sqlite/sqlite.go\<close>: the durable store. A table is the list of its rows
  in insertion order, and each statement of the source is written out as the query or update it
  states: \<^verbatim>\<open>COLLATE NOCASE\<close> compares with ASCII case folded, a primary key or unique index
  refuses a second row, \<^verbatim>\<open>ON CONFLICT\<close> does what it says. Two things are the engine's:
  the order of rows with equal time stamps under \<^verbatim>\<open>ORDER BY ts_unix_ns DESC\<close>, so
  \<open>ord\<close>, the engine's ordering of a result, is an argument (\<open>sql_order\<close> states what
  is documented of it: the same rows, newest first); and failures: \<open>sq_err\<close> is the driver's
  error, with which every statement fails while it is set.

  Shown: the store is a \<open>chat_store\<close>, so what is proved of the contract holds for it; claims
  stay one-to-one between users and callsigns.
\<close>

record msg_row =
  r_id :: string
  r_origin_node :: string
  r_from_call :: string
  r_kind :: message_kind
  r_topic :: string
  r_to_call :: string
  r_ts :: int
  r_text :: string

record claim_row =
  cr_user :: string
  cr_call :: string
  cr_at :: int

record sql_store =
  sq_messages :: "msg_row list"
  sq_config :: "(string, string) gomap"
  sq_claims :: "claim_row list"
  sq_err :: "string option"

text \<open>\<^verbatim>\<open>Open\<close> on a fresh file: the tables are empty.\<close>

definition Sqlite_Open :: sql_store where
  "Sqlite_Open = \<lparr>sq_messages = [], sq_config = [], sq_claims = [], sq_err = None\<rparr>"

definition Sqlite_Close :: "sql_store \<Rightarrow> sql_store" where
  "Sqlite_Close s = s\<lparr>sq_err := Some ''sql: database is closed''\<rparr>"

text \<open>
  \<^verbatim>\<open>time.Time.UnixNano\<close>: nanoseconds since 1970 in 64 bits, wrapping around; the zero
  \<^verbatim>\<open>time.Time\<close> is the year 1.
\<close>

definition UnixNano :: "time \<Rightarrow> int" where
  "UnixNano t = sint (word_of_int (if isZero t then - 62135596800 * 1000000000 else t) :: 64 word)"

definition NOCASE :: "string \<Rightarrow> string \<Rightarrow> bool" where
  "NOCASE a b \<longleftrightarrow> ToLower a = ToLower b"

definition to_row :: "message \<Rightarrow> msg_row" where
  "to_row m = \<lparr>r_id = m_id m, r_origin_node = m_originNode m, r_from_call = m_fromCall m, r_kind = m_kind m,
     r_topic = m_topic m, r_to_call = m_toCall m, r_ts = UnixNano (m_time m), r_text = m_text m\<rparr>"

definition of_row :: "msg_row \<Rightarrow> message" where
  "of_row r = \<lparr>m_id = r_id r, m_originNode = r_origin_node r, m_fromCall = r_from_call r, m_kind = r_kind r,
     m_topic = r_topic r, m_toCall = r_to_call r, m_time = r_ts r, m_text = r_text r\<rparr>"

definition Sqlite_SaveMessage :: "sql_store \<Rightarrow> message \<Rightarrow> string + sql_store" where
  "Sqlite_SaveMessage s m =
     (if m_id m = '''' then Inl ''sqlite: message has no id''
      else
        (case sq_err s of
           Some e \<Rightarrow> Inl (''sqlite: save message: '' @ e)
         | None \<Rightarrow>
             if m_id m \<in> r_id ` set (sq_messages s) then Inr s
             else Inr (s\<lparr>sq_messages := sq_messages s @ [to_row m]\<rparr>)))"

definition sinceNs :: "time \<Rightarrow> int" where
  "sinceNs since = (if isZero since then 0 else UnixNano since)"

definition sql_limit :: "int \<Rightarrow> nat" where
  "sql_limit limit = (if limit \<le> 0 then 1000 else nat limit)"

definition Sqlite_History ::
    "(msg_row list \<Rightarrow> msg_row list) \<Rightarrow> sql_store \<Rightarrow> string \<Rightarrow> time \<Rightarrow> int \<Rightarrow> string + message list" where
  "Sqlite_History ord s topic since limit =
     (case sq_err s of
        Some e \<Rightarrow> Inl (''sqlite: history: '' @ e)
      | None \<Rightarrow>
          Inr (rev (map of_row (take (sql_limit limit)
            (ord (filter (\<lambda>r. r_kind r = KindTopic \<and> NOCASE (r_topic r) topic \<and> r_ts r \<ge> sinceNs since) (sq_messages s)))))))"

definition Sqlite_PrivateHistory ::
    "(msg_row list \<Rightarrow> msg_row list) \<Rightarrow> sql_store \<Rightarrow> string \<Rightarrow> time \<Rightarrow> int \<Rightarrow> string + message list" where
  "Sqlite_PrivateHistory ord s call since limit =
     (case sq_err s of
        Some e \<Rightarrow> Inl (''sqlite: private history: '' @ e)
      | None \<Rightarrow>
          Inr (rev (map of_row (take (sql_limit limit)
            (ord (filter (\<lambda>r. r_kind r = KindPrivate \<and> r_ts r \<ge> sinceNs since \<and>
                              (NOCASE (r_to_call r) call \<or> NOCASE (r_from_call r) call)) (sq_messages s)))))))"

definition Sqlite_GetConfig :: "sql_store \<Rightarrow> string \<Rightarrow> string + string option" where
  "Sqlite_GetConfig s key =
     (case sq_err s of Some e \<Rightarrow> Inl (''sqlite: get config: '' @ e) | None \<Rightarrow> Inr (map_of (sq_config s) key))"

definition Sqlite_SetConfig :: "sql_store \<Rightarrow> string \<Rightarrow> string \<Rightarrow> string + sql_store" where
  "Sqlite_SetConfig s key value =
     (case sq_err s of
        Some e \<Rightarrow> Inl (''sqlite: set config: '' @ e)
      | None \<Rightarrow> Inr (s\<lparr>sq_config := AList.update key value (sq_config s)\<rparr>))"

definition Sqlite :: "(msg_row list \<Rightarrow> msg_row list) \<Rightarrow> sql_store store_vt" where
  "Sqlite ord = \<lparr>sv_SaveMessage = Sqlite_SaveMessage, sv_History = Sqlite_History ord,
     sv_PrivateHistory = Sqlite_PrivateHistory ord, sv_GetConfig = Sqlite_GetConfig, sv_SetConfig = Sqlite_SetConfig\<rparr>"

subsection \<open>Claims\<close>

datatype claim_error = ErrCallsignClaimed | ClaimStoreError string

definition ClaimedCall :: "sql_store \<Rightarrow> string \<Rightarrow> claim_error + string option" where
  "ClaimedCall s pdnUser =
     (case sq_err s of
        Some e \<Rightarrow> Inl (ClaimStoreError (''sqlite: claimed call: '' @ e))
      | None \<Rightarrow> Inr (map_option cr_call (find (\<lambda>r. cr_user r = pdnUser) (sq_claims s))))"

text \<open>
  The upsert: the primary key \<^verbatim>\<open>pdn_user\<close> turns a second insert into an update, and the
  unique index on the callsign refuses it when another row holds the callsign.
\<close>

definition upsert_claim :: "sql_store \<Rightarrow> string \<Rightarrow> string \<Rightarrow> int \<Rightarrow> sql_store option" where
  "upsert_claim s pdnUser callsign at =
     (if list_ex (\<lambda>r. cr_user r \<noteq> pdnUser \<and> NOCASE (cr_call r) callsign) (sq_claims s) then None
      else if list_ex (\<lambda>r. cr_user r = pdnUser) (sq_claims s)
      then Some (s\<lparr>sq_claims := map (\<lambda>r. if cr_user r = pdnUser then r\<lparr>cr_call := callsign, cr_at := at\<rparr> else r) (sq_claims s)\<rparr>)
      else Some (s\<lparr>sq_claims := sq_claims s @ [\<lparr>cr_user = pdnUser, cr_call = callsign, cr_at = at\<rparr>]\<rparr>))"

definition Claim :: "sql_store \<Rightarrow> string \<Rightarrow> string \<Rightarrow> int \<Rightarrow> claim_error + sql_store" where
  "Claim s pdnUser callsign claimedAt =
     (case ClaimedCall s pdnUser of
        Inl e \<Rightarrow> Inl e
      | Inr cur \<Rightarrow>
          if cur = Some callsign then Inr s
          else
            (case sq_err s of
               Some e \<Rightarrow> Inl (ClaimStoreError (''sqlite: claim lookup: '' @ e))
             | None \<Rightarrow>
                 (case find (\<lambda>r. NOCASE (cr_call r) callsign) (sq_claims s) of
                    Some r \<Rightarrow>
                      if cr_user r \<noteq> pdnUser then Inl ErrCallsignClaimed
                      else (case upsert_claim s pdnUser callsign claimedAt of None \<Rightarrow> Inl ErrCallsignClaimed | Some s \<Rightarrow> Inr s)
                  | None \<Rightarrow>
                      (case upsert_claim s pdnUser callsign claimedAt of None \<Rightarrow> Inl ErrCallsignClaimed | Some s \<Rightarrow> Inr s))))"

subsection \<open>The store contract\<close>

definition sql_order :: "(msg_row list \<Rightarrow> msg_row list) \<Rightarrow> bool" where
  "sql_order ord \<longleftrightarrow> (\<forall>rs. mset (ord rs) = mset rs \<and> sorted_wrt (\<lambda>a b. r_ts a \<ge> r_ts b) (ord rs))"

definition insertion_order :: "msg_row list \<Rightarrow> msg_row list" where
  "insertion_order rs = rev (sort_key r_ts rs)"

lemma sql_order_insertion: "sql_order insertion_order"
  using sorted_sort_key [of r_ts] by (auto simp: sql_order_def insertion_order_def sorted_wrt_rev sorted_wrt_map)

text \<open>A message the table gives back as it was: it has an id, and an instant in range.\<close>

definition row_message :: "message \<Rightarrow> bool" where
  "row_message m \<longleftrightarrow> m_id m \<noteq> '''' \<and> \<not> isZero (m_time m) \<and> - (2 ^ 63) \<le> m_time m \<and> m_time m < 2 ^ 63"

definition sql_inv :: "sql_store \<Rightarrow> bool" where
  "sql_inv s \<longleftrightarrow> distinct (map r_id (sq_messages s))"

definition sql_msgs :: "sql_store \<Rightarrow> message list" where
  "sql_msgs s = map of_row (sq_messages s)"

lemma UnixNano_id: "\<not> isZero t \<Longrightarrow> - (2 ^ 63) \<le> t \<Longrightarrow> t < 2 ^ 63 \<Longrightarrow> UnixNano t = t"
  by (simp add: UnixNano_def sint_sbintrunc' signed_take_bit_int_eq_self)

lemma of_row_to_row: "row_message m \<Longrightarrow> of_row (to_row m) = m"
  by (simp add: row_message_def of_row_def to_row_def UnixNano_id)

lemma of_row_sel [simp]: "m_id (of_row r) = r_id r" "m_kind (of_row r) = r_kind r" "m_topic (of_row r) = r_topic r"
  "m_fromCall (of_row r) = r_from_call r" "m_toCall (of_row r) = r_to_call r" "m_time (of_row r) = r_ts r"
  by (simp_all add: of_row_def)

lemma r_id_to_row [simp]: "r_id (to_row m) = m_id m"
  by (simp add: to_row_def)

lemma image_id_sql_msgs: "m_id ` set (sql_msgs s) = r_id ` set (sq_messages s)"
  by (simp add: sql_msgs_def image_image)

lemma Sqlite_sel [simp]:
  "sv_SaveMessage (Sqlite ord) = Sqlite_SaveMessage" "sv_History (Sqlite ord) = Sqlite_History ord"
  "sv_PrivateHistory (Sqlite ord) = Sqlite_PrivateHistory ord" "sv_GetConfig (Sqlite ord) = Sqlite_GetConfig"
  "sv_SetConfig (Sqlite ord) = Sqlite_SetConfig"
  by (simp_all add: Sqlite_def)

lemma NOCASE_normTopicKey: "NOCASE a b \<Longrightarrow> normTopicKey a = normTopicKey b"
  by (simp add: NOCASE_def normTopicKey_def flip: TrimSpace_ToLower)

lemma NOCASE_normCall: "NOCASE a b \<Longrightarrow> normCall a = normCall b"
proof -
  assume "NOCASE a b"
  then have "ToUpper a = ToUpper b" using EqualFold_iff_ToUpper by (simp add: NOCASE_def EqualFold_def)
  then show ?thesis by (simp add: normCall_def flip: TrimSpace_ToUpper)
qed

lemma sql_order_subset: "sql_order ord \<Longrightarrow> r \<in> set (take n (ord rs)) \<Longrightarrow> r \<in> set rs"
  by (metis in_set_takeD mset_eq_setD sql_order_def)

interpretation sq_kv: config_kv Sqlite_GetConfig Sqlite_SetConfig sql_inv
  by unfold_locales
     (auto simp: Sqlite_GetConfig_def Sqlite_SetConfig_def sql_inv_def split: option.splits)

text \<open>The engine, of which only the documented order is known.\<close>

locale sql_engine =
  fixes ord :: "msg_row list \<Rightarrow> msg_row list"
  assumes order: "sql_order ord"

sublocale sql_engine \<subseteq> sq: chat_store "Sqlite ord" sql_inv sql_msgs row_message
proof (unfold_locales, goal_cases)
  case (1 s k v s')
  then show ?case using sq_kv.put_ok by simp
next
  case (2 s k v s' k')
  then show ?case using sq_kv.get_put by simp
next
  case (3 s m s')
  then show ?case by (auto simp: Sqlite_SaveMessage_def sql_inv_def row_message_def split: if_splits option.splits)
next
  case (4 s m s')
  then show ?case
    by (auto simp: Sqlite_SaveMessage_def image_id_sql_msgs row_message_def split: if_splits option.splits)
       (simp add: sql_msgs_def of_row_to_row row_message_def)
next
  case (5 s m s' k)
  then show ?case by (auto simp: Sqlite_SaveMessage_def Sqlite_GetConfig_def split: if_splits option.splits)
next
  case (6 s topic since limit ms m)
  then show ?case
    using NOCASE_normTopicKey
    by (auto simp: Sqlite_History_def sql_msgs_def split: option.splits dest!: sql_order_subset [OF order])
next
  case (7 s topic since limit ms)
  then show ?case by (auto simp: Sqlite_History_def sql_limit_def split: option.splits)
next
  case (8 s call since limit ms m)
  then show ?case
    using NOCASE_normCall
    by (auto simp: Sqlite_PrivateHistory_def sql_msgs_def split: option.splits dest!: sql_order_subset [OF order])
qed

interpretation eng: sql_engine insertion_order
  by unfold_locales (rule sql_order_insertion)

subsection \<open>History\<close>

definition topic_rows :: "sql_store \<Rightarrow> string \<Rightarrow> time \<Rightarrow> msg_row list" where
  "topic_rows s topic since =
     filter (\<lambda>r. r_kind r = KindTopic \<and> NOCASE (r_topic r) topic \<and> r_ts r \<ge> sinceNs since) (sq_messages s)"

lemma sql_take_newest:
  assumes "sql_order ord"
  shows "sorted (map r_ts (rev (take n (ord rs))))" and "length (take n (ord rs)) = min n (length rs)"
    and "r \<in> set rs \<Longrightarrow> r \<notin> set (take n (ord rs)) \<Longrightarrow> r' \<in> set (take n (ord rs)) \<Longrightarrow> r_ts r \<le> r_ts r'"
proof -
  have o: "mset (ord rs) = mset rs" "sorted_wrt (\<lambda>a b. r_ts a \<ge> r_ts b) (ord rs)" using assms by (auto simp: sql_order_def)
  then have s: "sorted_wrt (\<lambda>a b. r_ts a \<ge> r_ts b) (take n (ord rs) @ drop n (ord rs))" by simp
  then have st: "sorted_wrt (\<lambda>a b. r_ts a \<ge> r_ts b) (take n (ord rs))" by (simp only: sorted_wrt_append)
  then have "sorted_wrt (\<lambda>a b. r_ts a \<le> r_ts b) (rev (take n (ord rs)))" by (simp add: sorted_wrt_rev)
  then show "sorted (map r_ts (rev (take n (ord rs))))" by (simp only: sorted_map)
  show "length (take n (ord rs)) = min n (length rs)" using o(1) by (metis length_take min.commute mset_eq_length)
  show "r_ts r \<le> r_ts r'" if "r \<in> set rs" "r \<notin> set (take n (ord rs))" "r' \<in> set (take n (ord rs))"
  proof -
    have "r \<in> set (take n (ord rs) @ drop n (ord rs))" using that(1) o(1) by (metis append_take_drop_id mset_eq_setD)
    then have "r \<in> set (drop n (ord rs))" using that(2) unfolding set_append by blast
    with s that(3) show ?thesis by (simp only: sorted_wrt_append)
  qed
qed

text \<open>
  C26: a history query on the database answers with the newest messages of the topic,
  oldest first: only messages of that topic (in any case) at or after \<^verbatim>\<open>since\<close>, as many as
  there are up to the limit (1000 when none is given), in the order of their times, and none it
  leaves out is newer than one it returns.
\<close>

theorem Sqlite_History_spec:
  assumes ord: "sql_order ord" and err: "sq_err s = None"
  shows "\<exists>ms. Sqlite_History ord s topic since limit = Inr ms
    \<and> sorted (map m_time ms)
    \<and> length ms = min (if limit \<le> 0 then 1000 else nat limit) (length (topic_rows s topic since))
    \<and> set ms \<subseteq> of_row ` set (topic_rows s topic since)
    \<and> (\<forall>r m. r \<in> set (topic_rows s topic since) \<and> of_row r \<notin> set ms \<and> m \<in> set ms \<longrightarrow> r_ts r \<le> m_time m)"
proof -
  let ?t = "take (sql_limit limit) (ord (topic_rows s topic since))"
  note n = sql_take_newest [OF ord, where n = "sql_limit limit" and rs = "topic_rows s topic since"]
  have h: "Sqlite_History ord s topic since limit = Inr (rev (map of_row ?t))"
    using err by (simp add: Sqlite_History_def topic_rows_def)
  have "map m_time (rev (map of_row ?t)) = map r_ts (rev ?t)" by (simp add: rev_map)
  then have "sorted (map m_time (rev (map of_row ?t)))" using n(1) by simp
  moreover have "set (rev (map of_row ?t)) \<subseteq> of_row ` set (topic_rows s topic since)"
    using sql_order_subset [OF ord, of _ "sql_limit limit"] by (simp only: set_rev set_map) blast
  moreover have "r_ts r \<le> m_time m"
    if r: "r \<in> set (topic_rows s topic since)" "of_row r \<notin> set (rev (map of_row ?t))" "m \<in> set (rev (map of_row ?t))" for r m
  proof -
    obtain x where "x \<in> set ?t" "m = of_row x" using r(3) by auto
    moreover have "r \<notin> set ?t" using r(2) by auto
    ultimately show ?thesis using n(3) [OF r(1)] by simp
  qed
  ultimately show ?thesis using h n(2) by (auto simp: sql_limit_def)
qed

definition sql_sample :: sql_store where
  "sql_sample = Sqlite_Open\<lparr>sq_messages := [to_row sample_message]\<rparr>"

theorem Sqlite_History_spec_witness:
  "sql_order insertion_order \<and> sq_err sql_sample = None \<and>
   (\<exists>ms. Sqlite_History insertion_order sql_sample ''GENERAL'' 0 100 = Inr ms \<and> length ms = 1)"
proof -
  have e: "sq_err sql_sample = None" by (simp add: sql_sample_def Sqlite_Open_def)
  have "length (topic_rows sql_sample ''GENERAL'' 0) = 1"
    by (simp add: topic_rows_def sql_sample_def to_row_def sample_message_def NOCASE_def ToLower_def lower_byte_def
        sinceNs_def isZero_def UnixNano_id char_of_def bit_iff_odd)
  then show ?thesis
    using Sqlite_History_spec [OF sql_order_insertion e, of "''GENERAL''" 0 100] sql_order_insertion e by auto
qed

subsection \<open>Claims\<close>

definition claims_ok :: "sql_store \<Rightarrow> bool" where
  "claims_ok s \<longleftrightarrow> distinct (map cr_user (sq_claims s)) \<and> distinct (map (ToLower \<circ> cr_call) (sq_claims s))"

text \<open>The claims as a map from users to callsigns.\<close>

definition claims_map :: "sql_store \<Rightarrow> string \<rightharpoonup> string" where
  "claims_map s = map_of (map (\<lambda>r. (cr_user r, cr_call r)) (sq_claims s))"

lemma find_claim: "map_option cr_call (find (\<lambda>r. cr_user r = u) rs) = map_of (map (\<lambda>r. (cr_user r, cr_call r)) rs) u"
  by (induction rs) auto

lemma ClaimedCall_map: "sq_err s = None \<Longrightarrow> ClaimedCall s u = Inr (claims_map s u)"
  by (simp add: ClaimedCall_def claims_map_def find_claim)

lemma claims_map_iff: "claims_ok s \<Longrightarrow> claims_map s u = Some c \<longleftrightarrow> (\<exists>r \<in> set (sq_claims s). cr_user r = u \<and> cr_call r = c)"
  by (auto simp: claims_map_def claims_ok_def map_of_eq_Some_iff comp_def)

lemma update_claim_map:
  "map_of (map (\<lambda>r. (cr_user r, cr_call r)) (map (\<lambda>r. if cr_user r = u then r\<lparr>cr_call := c, cr_at := at\<rparr> else r) rs)) v =
     (if v = u \<and> u \<in> cr_user ` set rs then Some c else map_of (map (\<lambda>r. (cr_user r, cr_call r)) rs) v)"
  by (induction rs) auto

lemma upsert_claim_ok:
  assumes "claims_ok s" "upsert_claim s u c at = Some s'"
  shows "claims_ok s' \<and> claims_map s' = (claims_map s)(u \<mapsto> c) \<and> sq_messages s' = sq_messages s \<and> sq_config s' = sq_config s
    \<and> sq_err s' = sq_err s"
proof -
  let ?upd = "\<lambda>r. if cr_user r = u then r\<lparr>cr_call := c, cr_at := at\<rparr> else r"
  have other: "ToLower (cr_call r) \<noteq> ToLower c" if "r \<in> set (sq_claims s)" "cr_user r \<noteq> u" for r
    using assms(2) that by (auto simp: upsert_claim_def NOCASE_def list_ex_iff split: if_splits)
  show ?thesis
  proof (cases "u \<in> cr_user ` set (sq_claims s)")
    case True
    then have s': "s' = s\<lparr>sq_claims := map ?upd (sq_claims s)\<rparr>"
      using assms(2) by (auto simp: upsert_claim_def list_ex_iff split: if_splits)
    have "map cr_user (map ?upd (sq_claims s)) = map cr_user (sq_claims s)" by (induction "sq_claims s") auto
    moreover have "inj_on (ToLower \<circ> cr_call) (set (map ?upd (sq_claims s)))"
    proof (rule inj_onI)
      fix x y assume xy: "x \<in> set (map ?upd (sq_claims s))" "y \<in> set (map ?upd (sq_claims s))"
        "(ToLower \<circ> cr_call) x = (ToLower \<circ> cr_call) y"
      then obtain a b where ab: "a \<in> set (sq_claims s)" "x = ?upd a" "b \<in> set (sq_claims s)" "y = ?upd b" by auto
      have "a = b" if "cr_user a = cr_user b" using that ab assms(1) by (auto simp: claims_ok_def distinct_map dest: inj_onD)
      moreover have "a = b" if "ToLower (cr_call a) = ToLower (cr_call b)"
        using that ab assms(1) inj_onD [of "ToLower \<circ> cr_call" "set (sq_claims s)" a b] by (simp add: claims_ok_def distinct_map)
      ultimately show "x = y" using xy(3) ab other [of a] other [of b] by (auto split: if_splits)
    qed
    moreover have "distinct (map ?upd (sq_claims s))"
      using assms(1) unfolding claims_ok_def calculation(1) [symmetric] distinct_map [of cr_user "map ?upd (sq_claims s)"] by blast
    ultimately have "distinct (map cr_user (map ?upd (sq_claims s)))" "distinct (map (ToLower \<circ> cr_call) (map ?upd (sq_claims s)))"
      using assms(1) unfolding claims_ok_def by (simp_all only: distinct_map [of "ToLower \<circ> cr_call"])
    then have "claims_ok s'" unfolding claims_ok_def s' by (simp del: map_map)
    moreover have "claims_map s' = (claims_map s)(u \<mapsto> c)"
      using True by (auto simp: claims_map_def s' update_claim_map fun_eq_iff simp del: map_map)
    ultimately show ?thesis by (simp add: s')
  next
    case False
    then have s': "s' = s\<lparr>sq_claims := sq_claims s @ [\<lparr>cr_user = u, cr_call = c, cr_at = at\<rparr>]\<rparr>"
      using assms(2) by (auto simp: upsert_claim_def list_ex_iff split: if_splits)
    have "ToLower c \<notin> (ToLower \<circ> cr_call) ` set (sq_claims s)" using False other by force
    then have "claims_ok s'" using assms(1) False by (simp add: claims_ok_def s' image_comp)
    moreover have "map_of (map (\<lambda>r. (cr_user r, cr_call r)) (sq_claims s)) u = None"
      using False by (force simp: map_of_eq_None_iff)
    ultimately show ?thesis by (auto simp: claims_map_def s' fun_eq_iff map_add_def split: option.splits)
  qed
qed

lemma Claim_taken:
  assumes ok: "claims_ok s" and err: "sq_err s = None"
    and w: "w \<noteq> u" "claims_map s w = Some d" "ToLower d = ToLower c"
  shows "Claim s u c at = Inl ErrCallsignClaimed"
proof -
  obtain r where r: "r \<in> set (sq_claims s)" "cr_user r \<noteq> u" "ToLower (cr_call r) = ToLower c"
    using w unfolding claims_map_iff [OF ok] by blast
  have uniq: "q = r" if "q \<in> set (sq_claims s)" "ToLower (cr_call q) = ToLower c" for q
    using that r ok inj_onD [of "ToLower \<circ> cr_call" "set (sq_claims s)" q r] by (simp add: claims_ok_def distinct_map)
  have "claims_map s u \<noteq> Some c" using claims_map_iff [OF ok] uniq r(2) by metis
  moreover have "find (\<lambda>r. ToLower (cr_call r) = ToLower c) (sq_claims s) = Some r"
  proof (cases "find (\<lambda>r. ToLower (cr_call r) = ToLower c) (sq_claims s)")
    case None
    then show ?thesis using r by (auto simp: find_None_iff)
  next
    case (Some q)
    then show ?thesis using uniq [of q] by (auto simp: find_Some_iff)
  qed
  ultimately show ?thesis using r(2) by (simp add: Claim_def ClaimedCall_map [OF err] err NOCASE_def)
qed

lemma Claim_free:
  assumes ok: "claims_ok s" and err: "sq_err s = None"
    and free: "\<nexists>v d. v \<noteq> u \<and> claims_map s v = Some d \<and> ToLower d = ToLower c"
  shows "\<exists>s'. Claim s u c at = Inr s' \<and> claims_ok s' \<and> claims_map s' = (claims_map s)(u \<mapsto> c) \<and>
    sq_messages s' = sq_messages s \<and> sq_config s' = sq_config s \<and> sq_err s' = None"
proof (cases "claims_map s u = Some c")
  case True
  then show ?thesis using ok by (simp add: Claim_def ClaimedCall_map [OF err] err fun_upd_idem)
next
  case False
  have own: "cr_user r = u" if "r \<in> set (sq_claims s)" "ToLower (cr_call r) = ToLower c" for r
    using free that claims_map_iff [OF ok, of "cr_user r" "cr_call r"] by blast
  have "upsert_claim s u c at \<noteq> None" using own by (auto simp: upsert_claim_def NOCASE_def list_ex_iff)
  then obtain s' where s': "upsert_claim s u c at = Some s'" by blast
  have "Claim s u c at = Inr s'" using False own s'
    by (auto simp: Claim_def ClaimedCall_map [OF err] err NOCASE_def split: option.splits dest!: find_Some_iff [THEN iffD1])
  with upsert_claim_ok [OF ok s'] err show ?thesis by simp
qed

text \<open>
  A claim succeeds exactly when no other user holds the callsign in any case. It then gives
  the user that callsign, leaves every other claim, the messages and the configuration alone, and
  keeps the table one-to-one: one callsign per user, one user per callsign. Refused, it is the
  collision error. The upsert alone keeps the table one-to-one in whatever state it runs, so two
  claims that race past the lookup cannot both succeed.
\<close>

theorem Claim_spec:
  assumes ok: "claims_ok s" and err: "sq_err s = None"
  shows "((\<exists>v d. v \<noteq> u \<and> claims_map s v = Some d \<and> ToLower d = ToLower c) \<longrightarrow> Claim s u c at = Inl ErrCallsignClaimed)
    \<and> ((\<nexists>v d. v \<noteq> u \<and> claims_map s v = Some d \<and> ToLower d = ToLower c) \<longrightarrow>
         (\<exists>s'. Claim s u c at = Inr s' \<and> claims_ok s' \<and> claims_map s' = (claims_map s)(u \<mapsto> c) \<and>
            sq_messages s' = sq_messages s \<and> sq_config s' = sq_config s))
    \<and> (\<forall>s'. upsert_claim s u c at = Some s' \<longrightarrow> claims_ok s' \<and> claims_map s' = (claims_map s)(u \<mapsto> c))"
  using Claim_taken [OF ok err] Claim_free [OF ok err, of u c at] upsert_claim_ok [OF ok] by blast

theorem Claim_spec_witness:
  "claims_ok Sqlite_Open \<and> (\<exists>s'. Claim Sqlite_Open ''tom'' ''M0LTE'' 1 = Inr s' \<and> claims_map s' ''tom'' = Some ''M0LTE'' \<and>
     Claim s' ''eve'' ''m0lte'' 2 = Inl ErrCallsignClaimed)"
proof -
  have o: "claims_ok Sqlite_Open" "sq_err Sqlite_Open = None" "claims_map Sqlite_Open = Map.empty"
    by (simp_all add: claims_ok_def Sqlite_Open_def claims_map_def fun_eq_iff)
  then obtain s' where s': "Claim Sqlite_Open ''tom'' ''M0LTE'' 1 = Inr s'" "claims_ok s'" "claims_map s' = [''tom'' \<mapsto> ''M0LTE'']"
    using Claim_spec [OF o(1,2), of "''tom''" "''M0LTE''" 1] by auto
  have e: "sq_err s' = None" using s'(1) by (auto simp: Claim_def ClaimedCall_def Sqlite_Open_def upsert_claim_def)
  have "ToLower ''M0LTE'' = ToLower ''m0lte''" by code_simp
  then have "\<exists>v d. v \<noteq> ''eve'' \<and> claims_map s' v = Some d \<and> ToLower d = ToLower ''m0lte''"
    unfolding s'(3) by (intro exI [of _ "''tom''"] exI [of _ "''M0LTE''"]) simp
  then show ?thesis using o(1) s' Claim_spec [OF s'(2) e, of "''eve''" "''m0lte''" 2] by auto
qed

end
