(* ===== verification/Web.thy ===== *)
theory Web
  imports Session Peer_Link Sqlite
begin

text \<open>
  \<^verbatim>\<open>internal/web\<close>: the loopback web server. A request holds its method, its (clean) path,
  its headers, its query and the outcome of reading its body: \<open>rq_json\<close> is the decoded JSON
  object (\<open>None\<close> when it does not parse), \<open>rq_form\<close> the form values, and
  \<open>rq_dm\<close>, \<open>rq_settings\<close>, \<open>rq_edit\<close> are \<^verbatim>\<open>decodeJSON\<close> into the struct
  the handler uses (\<open>None\<close> for a malformed body, empty values for an empty one). A handler
  takes the request and the server and returns the server and the response; deferred calls run at
  its end. The event stream is opened, stepped per event and closed. The claim store is a method
  table over a state, as the message store is.

  HTML, JSON and SSE text, logging and the listener are left out; a response holds the values that
  are rendered.
\<close>

subsection \<open>Requests and responses\<close>

record identity =
  id_User :: string
  id_Scope :: string
  id_Gateway :: bool

record settings_view =
  sv_Name :: string
  sv_QTH :: string
  sv_Flags :: user_flags

datatype json_val = JString string | JNumber string | JOther

record request =
  rq_method :: string
  rq_path :: string
  rq_header :: "string \<Rightarrow> string"
  rq_query :: "string \<Rightarrow> string"
  rq_json :: "(string \<rightharpoonup> json_val) option"
  rq_form :: "string \<Rightarrow> string"
  rq_dm :: "(string \<times> string) option"
  rq_settings :: "settings_view option"
  rq_edit :: "(string \<times> string) option"
  rq_prefix :: string

record wire_event =
  we_Type :: string
  we_From :: string
  we_Node :: string
  we_To :: string
  we_With :: string
  we_Mine :: bool
  we_Topic :: string
  we_Text :: string
  we_Time :: int

text \<open>The stream of one viewer: its key, its subscription and what it has been sent.\<close>

record sse =
  ss_call :: string
  ss_key :: user_key
  ss_sub :: nat
  ss_you :: "string \<times> string"
  ss_users :: "(string \<times> string \<times> string) list"
  ss_sent :: "wire_event list"

record peers_view =
  pv_OurNode :: string
  pv_Nodes :: "(string \<times> string \<times> string \<times> int) list"
  pv_Links :: "(string \<times> bool \<times> int \<times> int \<times> int) list"
  pv_Configured :: "(string \<times> string \<times> string) list"
  pv_Allow :: "string list"
  pv_Pinned :: "string list"
  pv_Rejected :: "64 word"

datatype body =
    NoBody
  | TextBody string
  | IndexPage
  | ClaimForm (cf_user: string) (cf_action: string) (cf_err: string) (cf_call: string)
  | Users "(string \<times> string \<times> string) list"
  | Events "wire_event list"
  | Settings settings_view
  | Peers peers_view
  | AllowEdited bool "string list"
  | RedirectTo string
  | Stream sse

record response =
  rp_status :: int
  rp_body :: body

definition http_error :: "string \<Rightarrow> int \<Rightarrow> response" where
  "http_error text status = \<lparr>rp_status = status, rp_body = TextBody text\<rparr>"

definition writeJSON :: "body \<Rightarrow> response" where
  "writeJSON b = \<lparr>rp_status = 200, rp_body = b\<rparr>"

definition IdentityFromRequest :: "request \<Rightarrow> identity" where
  "IdentityFromRequest r =
     \<lparr>id_User = rq_header r ''X-Pdn-User'', id_Scope = rq_header r ''X-Pdn-Scope'',
      id_Gateway = (rq_header r ''X-Pdn-Gateway'' = ''1'')\<rparr>"

definition canWrite :: "identity \<Rightarrow> bool" where
  "canWrite i =
     (if TrimSpace (id_User i) = '''' then True
      else let sc = ToLower (TrimSpace (id_Scope i)) in sc = ''operate'' \<or> sc = ''admin'')"

definition isAdmin :: "identity \<Rightarrow> bool" where
  "isAdmin i = (if TrimSpace (id_User i) = '''' then True else EqualFold (TrimSpace (id_Scope i)) ''admin'')"

definition web_baseCall :: "string \<Rightarrow> string" where
  "web_baseCall callsign = takeWhile (\<lambda>c. c \<noteq> CHR ''-'') callsign"

definition U :: "string \<Rightarrow> string \<Rightarrow> string" where
  "U pfx path0 =
     (let path = (if path0 = '''' then ''/'' else path0);
          path = (if \<not> HasPrefix path ''/'' then ''/'' @ path else path)
      in if pfx = '''' then path else TrimRight pfx {CHR ''/''} @ path)"

definition toString :: "json_val \<Rightarrow> string" where
  "toString v = (case v of JString t \<Rightarrow> t | JNumber t \<Rightarrow> t | JOther \<Rightarrow> '''')"

definition readField :: "request \<Rightarrow> string \<Rightarrow> string" where
  "readField r field =
     (if HasPrefix (rq_header r ''Content-Type'') ''application/json'' then
        (case rq_json r of
           None \<Rightarrow> ''''
         | Some m \<Rightarrow> (case m field of None \<Rightarrow> '''' | Some v \<Rightarrow> toString v))
      else rq_form r field)"

definition UnixMilli :: "time \<Rightarrow> int" where
  "UnixMilli t = (if isZero t then - 62135596800000 else t div 1000000)"

definition msOrZero :: "time \<Rightarrow> int" where
  "msOrZero t = (if isZero t then 0 else UnixMilli t)"

subsection \<open>The server\<close>

record 'c claim_vt =
  cv_ClaimedCall :: "'c \<Rightarrow> string \<Rightarrow> claim_error + string option"
  cv_Claim :: "'c \<Rightarrow> string \<Rightarrow> string \<Rightarrow> int \<Rightarrow> claim_error + 'c"

record 'k federation =
  fd_allow :: "allow_list option"
  fd_put :: "'k set_config"
  fd_store :: "'k option"
  fd_links :: "link_status list option"
  fd_peers :: "(string \<times> string \<times> string) list"

record ('s, 'c, 'k) server =
  ws_ownerCall :: string
  ws_hub :: "'s hub"
  ws_ref :: "string \<Rightarrow> nat"
  ws_cvt :: "'c claim_vt"
  ws_claims :: "'c option"
  ws_fed :: "'k federation option"

definition Web_New :: "string \<Rightarrow> 's hub \<Rightarrow> 'c claim_vt \<Rightarrow> 'c option \<Rightarrow> 'k federation option \<Rightarrow> ('s, 'c, 'k) server" where
  "Web_New callsign hub cvt claims fed =
     \<lparr>ws_ownerCall = web_baseCall callsign, ws_hub = hub, ws_ref = (\<lambda>_. 0), ws_cvt = cvt, ws_claims = claims, ws_fed = fed\<rparr>"

type_synonym ('s, 'c, 'k) handler = "request \<Rightarrow> ('s, 'c, 'k) server \<Rightarrow> ('s, 'c, 'k) server \<times> response"

subsection \<open>Presence\<close>

text \<open>
  \<^verbatim>\<open>enter\<close> and \<^verbatim>\<open>leave\<close> change the count under the mutex and call the hub after
  releasing it: each is two definitions.
\<close>

definition enter_count :: "string \<Rightarrow> ('s, 'c, 'k) server \<Rightarrow> bool \<times> ('s, 'c, 'k) server" where
  "enter_count call s = (ws_ref s call = 0, s\<lparr>ws_ref := (ws_ref s)(call := Suc (ws_ref s call))\<rparr>)"

definition enter_hub :: "string \<Rightarrow> bool \<Rightarrow> ('s, 'c, 'k) server \<Rightarrow> user_key \<times> ('s, 'c, 'k) server" where
  "enter_hub call first s =
     (let key = UserKey call (h_ourNode (ws_hub s))
      in if first then
           (case Hub_Join (ws_hub s) (mk_user call '''' '''' \<lparr>o_node = h_ourNode (ws_hub s), o_local = True, o_link = ''''\<rparr>) of
              (h, Inr u) \<Rightarrow> (User_Key u, s\<lparr>ws_hub := h\<rparr>)
            | (h, Inl _) \<Rightarrow> (key, s\<lparr>ws_hub := h\<rparr>))
         else (key, s))"

definition enter :: "string \<Rightarrow> ('s, 'c, 'k) server \<Rightarrow> user_key \<times> ('s, 'c, 'k) server" where
  "enter call s = (let (first, s) = enter_count call s in enter_hub call first s)"

definition leave_count :: "string \<Rightarrow> ('s, 'c, 'k) server \<Rightarrow> bool \<times> ('s, 'c, 'k) server" where
  "leave_count call s = (let n = ws_ref s call - 1 in (n = 0, s\<lparr>ws_ref := (ws_ref s)(call := n)\<rparr>))"

definition leave_hub :: "string \<Rightarrow> bool \<Rightarrow> ('s, 'c, 'k) server \<Rightarrow> ('s, 'c, 'k) server" where
  "leave_hub call final s =
     (if final then s\<lparr>ws_hub := Hub_Leave (ws_hub s) (UserKey call (h_ourNode (ws_hub s)))\<rparr> else s)"

definition leave :: "string \<Rightarrow> ('s, 'c, 'k) server \<Rightarrow> ('s, 'c, 'k) server" where
  "leave call s = (let (final, s) = leave_count call s in leave_hub call final s)"

text \<open>A viewer who is not present in the hub is made present for the duration of a request.\<close>

definition with_presence ::
    "string \<Rightarrow> (user_key \<Rightarrow> ('s, 'c, 'k) server \<Rightarrow> ('s, 'c, 'k) server \<times> response) \<Rightarrow> ('s, 'c, 'k) server \<Rightarrow> ('s, 'c, 'k) server \<times> response" where
  "with_presence call f s =
     (let key = UserKey call (h_ourNode (ws_hub s))
      in if Hub_User (ws_hub s) key \<noteq> None then f key s
         else let (key, s) = enter call s; (s, resp) = f key s in (leave call s, resp))"

subsection \<open>Identity and claims\<close>

definition resolveViewer :: "request \<Rightarrow> ('s, 'c, 'k) server \<Rightarrow> string option" where
  "resolveViewer r s =
     (let user = TrimSpace (id_User (IdentityFromRequest r))
      in if user = '''' then Some (ws_ownerCall s)
         else (case ws_claims s of
                 None \<Rightarrow> None
               | Some c \<Rightarrow> (case cv_ClaimedCall (ws_cvt s) c user of Inl _ \<Rightarrow> None | Inr cs \<Rightarrow> cs)))"

definition requireViewer :: "(string \<Rightarrow> ('s, 'c, 'k) handler) \<Rightarrow> ('s, 'c, 'k) handler" where
  "requireViewer f r s =
     (case resolveViewer r s of
        None \<Rightarrow> (s, http_error ''claim a callsign before chatting'' 403)
      | Some call \<Rightarrow> f call r s)"

definition requireMethod :: "string \<Rightarrow> ('s, 'c, 'k) handler \<Rightarrow> ('s, 'c, 'k) handler" where
  "requireMethod m f r s = (if rq_method r \<noteq> m then (s, http_error ''method not allowed'' 405) else f r s)"

definition requireWrite :: "('s, 'c, 'k) handler \<Rightarrow> ('s, 'c, 'k) handler" where
  "requireWrite f r s =
     (if canWrite (IdentityFromRequest r) then f r s
      else (s, http_error ''forbidden: your access is read-only (lurker)'' 403))"

definition requireAdmin :: "('s, 'c, 'k) handler \<Rightarrow> ('s, 'c, 'k) handler" where
  "requireAdmin f r s =
     (if isAdmin (IdentityFromRequest r) then f r s
      else (s, http_error ''forbidden: federation administration requires admin scope'' 403))"

definition looksLikeCallsign :: "string \<Rightarrow> bool" where
  "looksLikeCallsign cs0 =
     (let cs = TrimSpace cs0; digit = (\<lambda>r. 48 \<le> byte r \<and> byte r \<le> 57);
          alpha = (\<lambda>r. 65 \<le> byte r \<and> byte r \<le> 90 \<or> 97 \<le> byte r \<and> byte r \<le> 122)
      in length cs \<ge> 3 \<and> list_all (\<lambda>r. digit r \<or> alpha r) cs \<and> list_ex digit cs)"

definition normClaim :: "string \<Rightarrow> string" where
  "normClaim s = takeWhile (\<lambda>c. c \<noteq> CHR ''-'') (ToUpper (TrimSpace s))"

definition renderClaimFormErr :: "request \<Rightarrow> int \<Rightarrow> string \<Rightarrow> string \<Rightarrow> response" where
  "renderClaimFormErr r status prefill errMsg =
     \<lparr>rp_status = status,
      rp_body = ClaimForm (TrimSpace (id_User (IdentityFromRequest r))) (U (rq_prefix r) ''/claim'') errMsg (TrimSpace prefill)\<rparr>"

definition handleClaim :: "int \<Rightarrow> ('s, 'c, 'k) handler" where
  "handleClaim t = requireMethod ''POST'' (\<lambda>r s.
     let pdnUser = TrimSpace (id_User (IdentityFromRequest r))
     in if pdnUser = '''' then (s, http_error ''no pdn identity to claim a callsign for (management auth is off)'' 400)
        else (case ws_claims s of
                None \<Rightarrow> (s, http_error ''claims are not available'' 503)
              | Some c \<Rightarrow>
                  let raw = readField r ''callsign''; call = normClaim raw
                  in if \<not> looksLikeCallsign call
                     then (s, renderClaimFormErr r 400 raw ''That does not look like a callsign (need at least 3 letters/digits including a digit, no SSID).'')
                     else (case cv_Claim (ws_cvt s) c pdnUser call t of
                             Inl ErrCallsignClaimed \<Rightarrow> (s, renderClaimFormErr r 409 raw ''That callsign is already claimed by another user.'')
                           | Inl _ \<Rightarrow> (s, http_error ''could not record the claim'' 500)
                           | Inr c \<Rightarrow> (s\<lparr>ws_claims := Some c\<rparr>, \<lparr>rp_status = 303, rp_body = RedirectTo (U (rq_prefix r) ''/'')\<rparr>))))"

definition handleIndex :: "('s, 'c, 'k) handler" where
  "handleIndex r s =
     (if rq_path r \<noteq> ''/'' then (s, http_error ''404 page not found'' 404)
      else (case resolveViewer r s of
              None \<Rightarrow> (s, renderClaimFormErr r 200 '''' '''')
            | Some _ \<Rightarrow> (s, \<lparr>rp_status = 200, rp_body = IndexPage\<rparr>)))"

subsection \<open>Events\<close>

definition no_event :: wire_event where
  "no_event = \<lparr>we_Type = '''', we_From = '''', we_Node = '''', we_To = '''', we_With = '''', we_Mine = False,
     we_Topic = '''', we_Text = '''', we_Time = 0\<rparr>"

definition topicEvent :: "message \<Rightarrow> wire_event" where
  "topicEvent m = no_event\<lparr>we_Type := ''msg'', we_From := m_fromCall m, we_Topic := m_topic m, we_Text := m_text m,
     we_Time := UnixMilli (m_time m)\<rparr>"

definition privateEvent :: "message \<Rightarrow> string \<Rightarrow> wire_event" where
  "privateEvent m viewer =
     (let mine = EqualFold (m_fromCall m) viewer; w = (if mine then m_toCall m else m_fromCall m)
      in no_event\<lparr>we_Type := ''private'', we_From := m_fromCall m, we_To := m_toCall m, we_With := w, we_Mine := mine,
           we_Text := m_text m, we_Time := UnixMilli (m_time m)\<rparr>)"

definition offNode :: "user \<Rightarrow> string \<Rightarrow> string" where
  "offNode u ourNode = (if o_node (u_origin u) = ourNode then '''' else o_node (u_origin u))"

definition web_filter :: "'s hub \<Rightarrow> user_key \<Rightarrow> event \<Rightarrow> wire_event option" where
  "web_filter hub key ev =
     (let myTopic = (case Hub_User hub key of Some u \<Rightarrow> u_topic u | None \<Rightarrow> '''')
      in case ev of
           TopicMessage m \<Rightarrow> if EqualFold (m_topic m) myTopic then Some (topicEvent m) else None
         | PrivateMessage m \<Rightarrow>
             if EqualFold (m_toCall m) (uk_call key) \<or> EqualFold (m_fromCall m) (uk_call key)
             then Some (privateEvent m (uk_call key)) else None
         | UserJoined u \<Rightarrow>
             if User_Key u \<noteq> key \<and> EqualFold (u_topic u) myTopic
             then Some (no_event\<lparr>we_Type := ''join'', we_From := u_call u, we_Node := offNode u (h_ourNode hub), we_Topic := u_topic u\<rparr>)
             else None
         | UserLeft u \<Rightarrow> if User_Key u \<noteq> key then Some (no_event\<lparr>we_Type := ''leave'', we_From := u_call u\<rparr>) else None
         | TopicChanged u _ \<Rightarrow>
             if User_Key u \<noteq> key \<and> EqualFold (u_topic u) myTopic
             then Some (no_event\<lparr>we_Type := ''join'', we_From := u_call u, we_Topic := u_topic u\<rparr>) else None
         | UserInfoChanged _ \<Rightarrow> None
         | NodeLinked n \<Rightarrow> Some (no_event\<lparr>we_Type := ''node'', we_Text := ''Link to node '' @ n_call n @ '' established''\<rparr>)
         | NodeUnlinked n \<Rightarrow> Some (no_event\<lparr>we_Type := ''node'', we_Text := ''Link to node '' @ n_call n @ '' lost''\<rparr>))"

definition historyFor :: "('s, 'c, 'k) server \<Rightarrow> string \<Rightarrow> message list" where
  "historyFor s topic = (case Hub_History (ws_hub s) topic 0 100 of Inl _ \<Rightarrow> [] | Inr ms \<Rightarrow> ms)"

definition privateHistoryFor :: "('s, 'c, 'k) server \<Rightarrow> string \<Rightarrow> message list" where
  "privateHistoryFor s call = (case Hub_PrivateHistory (ws_hub s) call 0 200 of Inl _ \<Rightarrow> [] | Inr ms \<Rightarrow> ms)"

definition usersFor :: "('s, 'c, 'k) server \<Rightarrow> string \<Rightarrow> (string \<times> string \<times> string) list" where
  "usersFor s topic =
     map (\<lambda>u. (u_call u, offNode u (h_ourNode (ws_hub s)), u_name u)) (Hub_UsersInTopic (ws_hub s) topic)"

definition events_open :: "string \<Rightarrow> ('s, 'c, 'k) server \<Rightarrow> sse \<times> ('s, 'c, 'k) server" where
  "events_open call s =
     (let (key, s) = enter call s;
          (sub, h) = Hub_Subscribe (ws_hub s);
          s = s\<lparr>ws_hub := h\<rparr>;
          topic = (case Hub_User h key of Some u \<Rightarrow> u_topic u | None \<Rightarrow> '''')
      in (\<lparr>ss_call = call, ss_key = key, ss_sub = sub, ss_you = (uk_call key, topic), ss_users = usersFor s topic,
           ss_sent = map topicEvent (historyFor s topic)\<rparr>, s))"

definition events_step :: "sse \<times> ('s, 'c, 'k) server \<Rightarrow> sse \<times> ('s, 'c, 'k) server" where
  "events_step es =
     (case Hub_recv (ws_hub (snd es)) (ss_sub (fst es)) of
        (None, _) \<Rightarrow> es
      | (Some ev, h) \<Rightarrow>
          ((case web_filter h (ss_key (fst es)) ev of
              None \<Rightarrow> fst es | Some we \<Rightarrow> (fst es)\<lparr>ss_sent := ss_sent (fst es) @ [we]\<rparr>),
           (snd es)\<lparr>ws_hub := h\<rparr>))"

definition events_close :: "sse \<times> ('s, 'c, 'k) server \<Rightarrow> ('s, 'c, 'k) server" where
  "events_close es =
     leave (ss_call (fst es)) ((snd es)\<lparr>ws_hub := Hub_cancel (ws_hub (snd es)) (ss_sub (fst es))\<rparr>)"

definition handleEvents :: "('s, 'c, 'k) handler" where
  "handleEvents = requireViewer (\<lambda>call r s.
     let (es, s) = events_open call s in (s, \<lparr>rp_status = 200, rp_body = Stream es\<rparr>))"

subsection \<open>Chat handlers\<close>

fun hub_error_text :: "hub_error \<Rightarrow> string" where
  "hub_error_text ErrNoSuchUser = ''chat: no such user''"
| "hub_error_text ErrEmptyText = ''chat: empty message''"
| "hub_error_text ErrNoSuchTopic = ''chat: no such topic''"
| "hub_error_text (StoreError e) = e"
| "hub_error_text NilMapPanic = ''assignment to entry in nil map''"

text \<open>The tail of a handler that ends in a hub call: 400 with its error, 204 otherwise.\<close>

definition hub_reply :: "('s, 'c, 'k) server \<Rightarrow> 's hub \<times> (hub_error + 'a) \<Rightarrow> ('s, 'c, 'k) server \<times> response" where
  "hub_reply s hr =
     (s\<lparr>ws_hub := fst hr\<rparr>,
      case snd hr of Inl e \<Rightarrow> http_error (hub_error_text e) 400 | Inr _ \<Rightarrow> \<lparr>rp_status = 204, rp_body = NoBody\<rparr>)"

definition handleSend :: "('s, 'c, 'k) handler" where
  "handleSend = requireMethod ''POST'' (requireWrite (requireViewer (\<lambda>call r s.
     let text = TrimSpace (readField r ''text'')
     in if text = '''' then (s, http_error ''empty'' 400)
        else with_presence call (\<lambda>key s. hub_reply s (Hub_Post (ws_hub s) key text)) s)))"

definition handleTopic :: "('s, 'c, 'k) handler" where
  "handleTopic = requireMethod ''POST'' (requireWrite (requireViewer (\<lambda>call r s.
     let key = UserKey call (h_ourNode (ws_hub s)); name = TrimSpace (readField r ''topic'')
     in if name = '''' then (s, http_error ''empty topic'' 400)
        else hub_reply s (Hub_SetTopic (ws_hub s) key name))))"

definition query_topic :: "request \<Rightarrow> string" where
  "query_topic r = (let topic = rq_query r ''topic'' in if topic = '''' then DefaultTopic else topic)"

definition handleUsers :: "('s, 'c, 'k) handler" where
  "handleUsers r s = (s, writeJSON (Users (usersFor s (query_topic r))))"

definition handleHistory :: "('s, 'c, 'k) handler" where
  "handleHistory r s = (s, writeJSON (Events (map topicEvent (historyFor s (query_topic r)))))"

definition handleDMs :: "('s, 'c, 'k) handler" where
  "handleDMs = requireViewer (\<lambda>call r s.
     (s, writeJSON (Events (map (\<lambda>m. privateEvent m call) (privateHistoryFor s call)))))"

definition handleDM :: "('s, 'c, 'k) handler" where
  "handleDM = requireMethod ''POST'' (requireWrite (requireViewer (\<lambda>call r s.
     case rq_dm r of
       None \<Rightarrow> (s, http_error ''bad request body'' 400)
     | Some (to0, text0) \<Rightarrow>
         let to = ToUpper (TrimSpace to0); text = TrimSpace text0
         in if to = '''' \<or> text = '''' then (s, http_error ''to and text are required'' 400)
            else with_presence call (\<lambda>key s. hub_reply s (Hub_Private (ws_hub s) key to text)) s)))"

subsection \<open>Settings\<close>

definition viewFromUser :: "user \<Rightarrow> settings_view" where
  "viewFromUser u = \<lparr>sv_Name = u_name u, sv_QTH = u_qth u, sv_Flags = u_flags u\<rparr>"

text \<open>\<^verbatim>\<open>u, _ := s.hub.User(key)\<close>: the zero user when there is none.\<close>

definition current_settings :: "user_key \<Rightarrow> ('s, 'c, 'k) server \<Rightarrow> settings_view" where
  "current_settings key s =
     (case Hub_User (ws_hub s) key of
        Some u \<Rightarrow> viewFromUser u | None \<Rightarrow> \<lparr>sv_Name = '''', sv_QTH = '''', sv_Flags = zero_flags\<rparr>)"

definition apply_settings :: "settings_view \<Rightarrow> user_key \<Rightarrow> ('s, 'c, 'k) server \<Rightarrow> ('s, 'c, 'k) server \<times> response" where
  "apply_settings v key s =
     (case Hub_SetInfo (ws_hub s) key (sv_Name v) (sv_QTH v) of
        (h, Inl e) \<Rightarrow> (s\<lparr>ws_hub := h\<rparr>, http_error (hub_error_text e) 400)
      | (h, Inr _) \<Rightarrow>
          (case Hub_SetFlags h key (sv_Flags v) of
             (h, Inl e) \<Rightarrow> (s\<lparr>ws_hub := h\<rparr>, http_error (hub_error_text e) 400)
           | (h, Inr _) \<Rightarrow> let s = s\<lparr>ws_hub := h\<rparr> in (s, writeJSON (Settings (current_settings key s)))))"

definition handleSettings :: "('s, 'c, 'k) handler" where
  "handleSettings r s =
     (if rq_method r \<noteq> ''GET'' \<and> rq_method r \<noteq> ''POST'' then (s, http_error ''method not allowed'' 405)
      else
        (if rq_method r = ''POST'' then requireWrite else (\<lambda>f. f))
          (requireViewer (\<lambda>call r. with_presence call (\<lambda>key s.
             if rq_method r = ''GET'' then (s, writeJSON (Settings (current_settings key s)))
             else (case rq_settings r of
                     None \<Rightarrow> (s, http_error ''bad settings body'' 400)
                   | Some v \<Rightarrow> apply_settings v key s)))) r s)"

subsection \<open>Federation\<close>

definition pinnedOnly :: "allow_list option \<Rightarrow> string list" where
  "pinnedOnly a = sort (filter (\<lambda>c. c \<notin> set (AllowList_Entries a)) (AllowList_AllEntries a))"

definition Milliseconds :: "duration \<Rightarrow> int" where
  "Milliseconds d = sgn d * (\<bar>d\<bar> div 1000000)"

definition no_federation :: string where
  "no_federation = ''federation administration is not available on this node''"

definition peersView :: "('s, 'c, 'k) server \<Rightarrow> 'k federation \<Rightarrow> peers_view" where
  "peersView s fed =
     \<lparr>pv_OurNode = h_ourNode (ws_hub s),
      pv_Nodes = map (\<lambda>n. (n_call n, n_alias n, n_version n, msOrZero (n_linked n))) (Hub_Nodes (ws_hub s)),
      pv_Links = (case fd_links fed of
                    None \<Rightarrow> []
                  | Some ls \<Rightarrow> map (\<lambda>l. (st_PeerCall l, st_Outbound l, msOrZero (st_LinkedAt l), msOrZero (st_LastSeen l),
                                        Milliseconds (st_RTT l))) ls),
      pv_Configured = fd_peers fed,
      pv_Allow = AllowList_Entries (fd_allow fed),
      pv_Pinned = pinnedOnly (fd_allow fed),
      pv_Rejected = AllowList_Rejected (fd_allow fed)\<rparr>"

definition handlePeers :: "('s, 'c, 'k) handler" where
  "handlePeers = requireMethod ''GET'' (requireAdmin (\<lambda>r s.
     case ws_fed s of
       None \<Rightarrow> (s, http_error no_federation 503)
     | Some fed \<Rightarrow> (s, writeJSON (Peers (peersView s fed)))))"

text \<open>The edit, and the write to the store after an edit that changed the list.\<close>

definition edit_allow :: "string \<Rightarrow> string \<Rightarrow> allow_list option \<Rightarrow> (allow_list option \<times> bool) option" where
  "edit_allow action call a =
     (let action = ToLower (TrimSpace action)
      in if action = ''add'' then Some (AllowList_Add a call)
         else if action = ''remove'' then Some (AllowList_Remove a call)
         else None)"

definition persist_edit :: "bool \<Rightarrow> 'k federation \<Rightarrow> string + 'k federation" where
  "persist_edit changed fed =
     (if changed \<and> fd_store fed \<noteq> None then
        (case PersistAllowList (fd_put fed) (fd_store fed) (fd_allow fed) of
           Inl e \<Rightarrow> Inl e | Inr st \<Rightarrow> Inr (fed\<lparr>fd_store := st\<rparr>))
      else Inr fed)"

definition handlePeersAllow :: "('s, 'c, 'k) handler" where
  "handlePeersAllow = requireMethod ''POST'' (requireAdmin (\<lambda>r s.
     case ws_fed s of
       None \<Rightarrow> (s, http_error no_federation 503)
     | Some fed \<Rightarrow>
         if fd_allow fed = None then (s, http_error no_federation 503)
         else (case rq_edit r of
           None \<Rightarrow> (s, http_error ''bad allow-list edit body'' 400)
         | Some (action, callsign) \<Rightarrow>
             let call = ToUpper (TrimSpace callsign)
             in if call = '''' then (s, http_error ''callsign is required'' 400)
                else (case edit_allow action call (fd_allow fed) of
                  None \<Rightarrow> (s, http_error ''action must be add or remove'' 400)
                | Some (a, changed) \<Rightarrow>
                    let fed = fed\<lparr>fd_allow := a\<rparr>
                    in (case persist_edit changed fed of
                          Inl _ \<Rightarrow> (s\<lparr>ws_fed := Some fed\<rparr>, http_error ''the edit was applied live but could not be persisted'' 500)
                        | Inr fed \<Rightarrow> (s\<lparr>ws_fed := Some fed\<rparr>, writeJSON (AllowEdited changed (AllowList_Entries (fd_allow fed)))))))))"

subsection \<open>The mux behind the gateway check\<close>

definition handleHealth :: "('s, 'c, 'k) handler" where
  "handleHealth r s = (s, \<lparr>rp_status = 200, rp_body = TextBody (''ok'' @ [CHR 0x0A])\<rparr>)"

definition mux :: "int \<Rightarrow> ('s, 'c, 'k) handler" where
  "mux t r =
     (if rq_path r = ''/healthz'' then handleHealth r
      else if rq_path r = ''/events'' then handleEvents r
      else if rq_path r = ''/send'' then handleSend r
      else if rq_path r = ''/topic'' then handleTopic r
      else if rq_path r = ''/users'' then handleUsers r
      else if rq_path r = ''/history'' then handleHistory r
      else if rq_path r = ''/dms'' then handleDMs r
      else if rq_path r = ''/dm'' then handleDM r
      else if rq_path r = ''/settings'' then handleSettings r
      else if rq_path r = ''/claim'' then handleClaim t r
      else if rq_path r = ''/peers'' then handlePeers r
      else if rq_path r = ''/peers/allow'' then handlePeersAllow r
      else handleIndex r)"

definition gatewayTrust :: "('s, 'c, 'k) handler \<Rightarrow> ('s, 'c, 'k) handler" where
  "gatewayTrust next_h r s =
     (if rq_path r = ''/healthz'' then next_h r s
      else if rq_header r ''X-Pdn-Gateway'' \<noteq> ''1''
      then (s, http_error ''forbidden: requests must arrive through the pdn app-gateway'' 403)
      else next_h (r\<lparr>rq_prefix := rq_header r ''X-Forwarded-Prefix''\<rparr>) s)"

definition serve_http :: "int \<Rightarrow> ('s, 'c, 'k) handler" where
  "serve_http t = gatewayTrust (mux t)"

end
