(* ===== verification/Session_Spec.thy ===== *)
theory Session_Spec
  imports Session
begin

text \<open>
  What a session guarantees: the invariant of its run loop, what a line of input does, and what
  ending one of two sessions of the same user does to the other.
\<close>

subsection \<open>Presence and subscription under the operations a session uses\<close>

definition keeps :: "user_key \<Rightarrow> nat \<Rightarrow> 's hub \<Rightarrow> 's hub \<Rightarrow> bool" where
  "keeps k i h h' \<longleftrightarrow> hub_inv h' \<and>
     (map_of (h_users h') k = None \<longleftrightarrow> map_of (h_users h) k = None) \<and>
     (map_of (h_subs h') i = None \<longleftrightarrow> map_of (h_subs h) i = None)"

lemma record_subs: "map_of (h_subs (fst (record_and_emit h m ev))) i = None \<longleftrightarrow> map_of (h_subs h) i = None"
  by (simp add: record_and_emit_def Let_def emit_subs split: sum.split)

lemma keeps_Post:
  assumes "hub_inv h" "canonKey k = k"
  shows "keeps k i h (fst (Hub_Post h k t))"
proof -
  have "map_of (h_users (fst (Hub_Post h k t))) k = None \<longleftrightarrow> map_of (h_users h) k = None"
    "map_of (h_subs (fst (Hub_Post h k t))) i = None \<longleftrightarrow> map_of (h_subs h) i = None"
    using assms(2) by (simp_all add: Post_eq record_subs split: option.split)
  then show ?thesis using assms(1) by (simp add: keeps_def inv_intros)
qed

lemma keeps_Private: "hub_inv h \<Longrightarrow> keeps k i h (fst (Hub_Private h k' c t))"
  by (simp add: keeps_def inv_intros) (simp add: Private_eq record_subs)

lemma keeps_SetInfo: "hub_inv h \<Longrightarrow> canonKey k = k \<Longrightarrow> keeps k i h (fst (Hub_SetInfo h k n q))"
  by (simp add: keeps_def inv_intros) (simp add: Hub_SetInfo_def Let_def emit_subs split: option.split)

lemma keeps_SetTopic:
  assumes inv: "hub_inv h" and k: "canonKey k = k"
  shows "keeps k i h (fst (Hub_SetTopic h k n))"
proof -
  have "map_of (h_users (fst (Hub_SetTopic h k n))) k = None \<longleftrightarrow> map_of (h_users h) k = None"
    "map_of (h_subs (fst (Hub_SetTopic h k n))) i = None \<longleftrightarrow> map_of (h_subs h) i = None"
    using k by (simp_all add: Hub_SetTopic_def Let_def split_def emit_subs split: option.split)
  then show ?thesis using inv by (simp add: keeps_def inv_intros)
qed

lemma recv_subs: "map_of (h_subs (snd (Hub_recv h i))) j = None \<longleftrightarrow> map_of (h_subs h) j = None"
  by (auto simp: Hub_recv_def split: option.split list.split)

lemma keeps_recv: "hub_inv h \<Longrightarrow> Hub_recv h i = (ev, h') \<Longrightarrow> keeps k i h h'"
  using hub_inv_recv [of h i] recv_subs [of h i i]
  by (auto simp: keeps_def) (auto simp: Hub_recv_def split: option.splits list.splits)

lemma send_eq:
  "send text hs = (if se_fail (snd hs) (se_sends (snd hs))
     then Session_end EndPeerClosed (fst hs, (snd hs)\<lparr>se_sends := Suc (se_sends (snd hs))\<rparr>)
     else (fst hs, (snd hs)\<lparr>se_sends := Suc (se_sends (snd hs)), se_out := se_out (snd hs) @ text\<rparr>))"
  by (simp add: send_def Let_def)

subsection \<open>What every action of a session keeps\<close>

text \<open>
  A property of a session and its hub that the few actions a session consists of keep (a call of the
  hub, a send, the end, a chunk fed to the assembler) is kept by every command and every turn of
  the run loop.
\<close>

locale session_closed =
  fixes P :: "'s sess \<Rightarrow> bool"
  assumes ended: "P hs \<Longrightarrow> P (Session_end reason hs)"
    and sent: "P hs \<Longrightarrow> P (fst hs, (snd hs)\<lparr>se_sends := n\<rparr>)"
    and printed: "P hs \<Longrightarrow> P (fst hs, (snd hs)\<lparr>se_sends := n, se_out := text\<rparr>)"
    and fed: "P hs \<Longrightarrow> P (fst hs, (snd hs)\<lparr>se_asm := snd (Feed (se_asm (snd hs)) data)\<rparr>)"
    and posted: "P hs \<Longrightarrow> P (fst (Hub_Post (fst hs) (se_key (snd hs)) text), snd hs)"
    and private_sent: "P hs \<Longrightarrow> P (fst (Hub_Private (fst hs) (se_key (snd hs)) to text), snd hs)"
    and moved: "P hs \<Longrightarrow> P (fst (Hub_SetTopic (fst hs) (se_key (snd hs)) name), snd hs)"
    and informed: "P hs \<Longrightarrow> P (fst (Hub_SetInfo (fst hs) (se_key (snd hs)) name qth), snd hs)"
    and received: "P hs \<Longrightarrow> Hub_recv (fst hs) (se_sub (snd hs)) = (ev, h) \<Longrightarrow> P (h, snd hs)"
begin

lemma sending: "P hs \<Longrightarrow> P (send text hs)"
  using sent printed ended by (simp add: send_eq)

lemma sending_line: "P hs \<Longrightarrow> P (sendLine text hs)"
  by (simp add: sendLine_def sending)

lemma showing: "P hs \<Longrightarrow> P (showUsers hs)" "P hs \<Longrightarrow> P (showNodes hs)" "P hs \<Longrightarrow> P (help_cmd hs)" "P hs \<Longrightarrow> P (greet hs)"
  by (simp_all add: showUsers_def showNodes_def help_cmd_def greet_def Let_def sending sending_line)

lemma topic_command: "P hs \<Longrightarrow> P (topic_cmd name hs)"
  using moved [of hs name] by (auto simp: topic_cmd_def sending sending_line split: prod.split sum.split option.split)

lemma name_commands: "P hs \<Longrightarrow> P (setName name hs)" "P hs \<Longrightarrow> P (setQTH qth hs)"
  using informed [of hs name "Session_qth hs"] informed [of hs "Session_name hs" qth]
  by (auto simp: setName_def setQTH_def sending_line split: prod.split sum.split option.split)

lemma private_command: "P hs \<Longrightarrow> P (private_cmd rest hs)"
proof (cases "Cut rest (CHR '' '')")
  case (Some p)
  assume "P hs"
  then show ?thesis using Some private_sent [of hs "fst p" "TrimSpace (snd p)"]
    by (auto simp: private_cmd_def sending_line split: prod.splits sum.splits)
qed (simp add: private_cmd_def sending_line)

lemma commanded: "P hs \<Longrightarrow> P (fst (command line hs))"
  by (simp add: command_def Let_def split_def showing topic_command name_commands private_command sending_line ended)

lemma line_processed: "P hs \<Longrightarrow> P (fst (processLine line hs))"
  using posted [of hs "TrimSpace (sanitise line)"]
  by (auto simp: processLine_def Let_def commanded sending_line split: prod.split sum.split)

lemma lines_processed: "P hs \<Longrightarrow> P (fst (processLines lines hs))"
proof (induction lines arbitrary: hs)
  case (Cons line lines)
  have "P (fst (processLine line hs))" using Cons.prems by (rule line_processed)
  then show ?case using Cons.IH by (auto split: prod.split bool.split)
qed simp

lemma chunk_processed: "P hs \<Longrightarrow> P (fst (run_inbound data hs))"
  using fed [of hs data] by (simp add: run_inbound_def split_def Let_def lines_processed)

lemma rendered: "P hs \<Longrightarrow> P (render ev hs)"
  by (cases ev) (simp_all add: sending_line)

lemma stepped: "session_step hs hs' \<Longrightarrow> P hs \<Longrightarrow> P hs'"
  by (induction rule: session_step.induct) (auto intro: chunk_processed rendered ended received)

end

subsection \<open>The invariant of a session\<close>

text \<open>
  Until it has ended, the session's user is present and it is subscribed; from then on neither; it
  never buffers more than one line of 512 bytes.
\<close>

definition sess_inv :: "'s sess \<Rightarrow> bool" where
  "sess_inv hs \<longleftrightarrow>
     hub_inv (fst hs) \<and> canonKey (se_key (snd hs)) = se_key (snd hs)
   \<and> la_max (se_asm (snd hs)) = MaxLine \<and> asm_ok (se_asm (snd hs))
   \<and> (Hub_User (fst hs) (se_key (snd hs)) = None \<longleftrightarrow> se_ended (snd hs) \<noteq> None)
   \<and> (map_of (h_subs (fst hs)) (se_sub (snd hs)) = None \<longleftrightarrow> se_ended (snd hs) \<noteq> None)"

lemma sess_inv_keeps:
  "sess_inv hs \<Longrightarrow> keeps (se_key (snd hs)) (se_sub (snd hs)) (fst hs) h \<Longrightarrow> sess_inv (h, snd hs)"
  unfolding sess_inv_def keeps_def Hub_User_def by (elim conjE) simp

lemma sess_inv_end: "sess_inv hs \<Longrightarrow> sess_inv (Session_end r hs)"
proof (cases "se_ended (snd hs)")
  case None
  assume i: "sess_inv hs"
  let ?h = "Hub_cancel (fst hs) (se_sub (snd hs))" and ?k = "se_key (snd hs)"
  have h: "hub_inv (Hub_Leave ?h ?k)" using i by (simp add: sess_inv_def inv_intros)
  have "map_of (h_users (Hub_Leave ?h ?k)) (canonKey ?k) = None"
    by (simp add: Hub_Leave_def Let_def split: option.split)
  moreover have "map_of (h_subs (Hub_Leave ?h ?k)) (se_sub (snd hs)) = None"
    by (simp add: Hub_Leave_def Let_def emit_subs Hub_cancel_def split: option.split)
  ultimately show ?thesis using i h None by (simp add: sess_inv_def Session_end_def Hub_User_def)
qed (simp add: Session_end_def)

interpretation si: session_closed sess_inv
proof unfold_locales
  fix hs :: "'s sess" and n and t data to name qth :: string and ev h
  assume i: "sess_inv hs"
  have k: "hub_inv (fst hs)" "canonKey (se_key (snd hs)) = se_key (snd hs)" using i by (simp_all add: sess_inv_def)
  show "sess_inv (fst hs, (snd hs)\<lparr>se_sends := n\<rparr>)" "sess_inv (fst hs, (snd hs)\<lparr>se_sends := n, se_out := t\<rparr>)"
    using i by (simp_all add: sess_inv_def)
  show "sess_inv (fst hs, (snd hs)\<lparr>se_asm := snd (Feed (se_asm (snd hs)) data)\<rparr>)"
    using i Feed_ok [of "se_asm (snd hs)" data] by (simp add: sess_inv_def)
  show "sess_inv (fst (Hub_Post (fst hs) (se_key (snd hs)) t), snd hs)" using k by (intro sess_inv_keeps i keeps_Post)
  show "sess_inv (fst (Hub_Private (fst hs) (se_key (snd hs)) to t), snd hs)" using k by (intro sess_inv_keeps i keeps_Private)
  show "sess_inv (fst (Hub_SetTopic (fst hs) (se_key (snd hs)) name), snd hs)" using k by (intro sess_inv_keeps i keeps_SetTopic)
  show "sess_inv (fst (Hub_SetInfo (fst hs) (se_key (snd hs)) name qth), snd hs)" using k by (intro sess_inv_keeps i keeps_SetInfo)
  show "sess_inv (h, snd hs)" if "Hub_recv (fst hs) (se_sub (snd hs)) = (ev, h)" using k that by (intro sess_inv_keeps i keeps_recv)
qed (rule sess_inv_end)

lemmas sess_inv_sendLine = si.sending_line
  and sess_inv_run_inbound = si.chunk_processed
  and sess_inv_greet = si.showing(4)
  and sess_inv_step = si.stepped

subsection \<open>Starting a session\<close>

lemma Subscribe_sel [simp]:
  "h_users (snd (Hub_Subscribe h)) = h_users h" "h_ourNode (snd (Hub_Subscribe h)) = h_ourNode h"
  "map_of (h_subs (snd (Hub_Subscribe h))) (fst (Hub_Subscribe h)) = Some []"
  by (simp_all add: Hub_Subscribe_def Let_def)

lemma Join_subs:
  assumes "hub_inv h" "map_of (h_subs h) i \<noteq> None"
  shows "map_of (h_subs (fst (Hub_Join h u))) i \<noteq> None"
proof (cases "normCall (u_call u) = '''' \<or> normCall (o_node (u_origin u)) = ''''")
  case False
  then show ?thesis using assms by (auto elim!: Join_accepted [OF assms(1)] simp: emit_subs)
qed (use assms in \<open>simp add: Join_refused\<close>)

text \<open>The three outcomes of \<^verbatim>\<open>New\<close> reduce to one: joined, then greeted.\<close>

lemma Session_New_Inr:
  assumes inv: "hub_inv hub" and new: "Session_New hub fails callsign = (h, Inr s)"
  obtains s0 where "(h, s) = greet (fst (Hub_Join (snd (Hub_Subscribe hub))
      (mk_user callsign '''' '''' \<lparr>o_node = h_ourNode hub, o_local = True, o_link = ''''\<rparr>)), s0)"
    "se_key s0 = UserKey (normCall callsign) (h_ourNode hub)" "se_ended s0 = None" "se_fail s0 = fails" "se_out s0 = ''''" "se_sends s0 = 0"
    "sess_inv (fst (Hub_Join (snd (Hub_Subscribe hub))
      (mk_user callsign '''' '''' \<lparr>o_node = h_ourNode hub, o_local = True, o_link = ''''\<rparr>)), s0)"
proof -
  let ?u = "mk_user callsign '''' '''' \<lparr>o_node = h_ourNode hub, o_local = True, o_link = ''''\<rparr>"
  let ?h0 = "snd (Hub_Subscribe hub)" and ?sub = "fst (Hub_Subscribe hub)"
  let ?s0 = "\<lparr>se_key = User_Key (joined ?h0 ?u), se_asm = NewLineAssembler (int MaxLine), se_sub = ?sub,
     se_out = '''', se_fail = fails, se_sends = 0, se_ended = None\<rparr>"
  have i0: "hub_inv ?h0" using inv by (rule hub_inv_Subscribe)
  have our: "normCall (h_ourNode hub) = h_ourNode hub" using hub_invD(6) [OF inv] .
  have c: "normCall (u_call ?u) \<noteq> ''''" "normCall (o_node (u_origin ?u)) \<noteq> ''''"
  proof -
    have "snd (Hub_Join ?h0 ?u) \<noteq> Inl e" for e
      using new by (auto simp: Session_New_def Let_def split_def split: prod.splits sum.splits)
    then show "normCall (u_call ?u) \<noteq> ''''" "normCall (o_node (u_origin ?u)) \<noteq> ''''"
      using Join_refused [of ?u ?h0] by fastforce+
  qed
  have J: "snd (Hub_Join ?h0 ?u) = Inr (joined ?h0 ?u)" 
    by (rule Join_accepted [OF i0 c]) simp
  have g: "(h, s) = greet (fst (Hub_Join ?h0 ?u), ?s0)"
    using new J by (auto simp: Session_New_def Let_def split_def mk_user_def [symmetric] split: prod.splits)
  have key: "se_key ?s0 = UserKey (normCall callsign) (h_ourNode hub)" by (simp add: canonKey_def our)
  have "sess_inv (fst (Hub_Join ?h0 ?u), ?s0)"
    using hub_inv_Join [OF i0, of ?u] Join_result(1) [OF i0 c] Join_subs [OF i0, of ?sub ?u]
    by (simp add: sess_inv_def asm_ok_def NewLineAssembler_def MaxLine_def canonKey_def our Hub_User_def)
  then show ?thesis by (rule that [OF g key _ _ _ _, rotated 4]) simp_all
qed

inductive session_run :: "'s sess \<Rightarrow> bool" where
  start: "hub_inv hub \<Longrightarrow> Session_New hub fails callsign = (h, Inr s) \<Longrightarrow> session_run (h, s)"
| step: "session_run hs \<Longrightarrow> session_step hs hs' \<Longrightarrow> session_run hs'"



subsection \<open>What a line does\<close>

lemma record_Inr: "record_and_emit h m ev = (h', Inr m') \<Longrightarrow> m' = m"
  by (auto simp: record_and_emit_def Let_def split: sum.splits)

lemma Post_text: "Hub_Post h k t = (h', Inr m) \<Longrightarrow> m_text m = clip t"
  by (auto simp: Post_eq split: if_splits option.splits dest!: record_Inr) (simp add: post_msg_def)

lemma set_clip: "set (clip s) \<subseteq> set s"
proof -
  have "set (TrimRight s cs) \<subseteq> set s" for cs by (metis TrimRight_prefix set_mono_prefix)
  moreover have "set (take n x) \<subseteq> set x" for n and x :: string by (rule set_take_subset)
  ultimately show ?thesis
    using set_TrimSpace unfolding clip_def Let_def by (smt (verit, best) subset_trans)
qed

lemma Join_ourNode: "h_ourNode (fst (Hub_Join h u)) = h_ourNode h"
  by (simp add: Hub_Join_def Let_def split_def split: option.split)

text \<open>A word without a blank is its own verb.\<close>

lemma bye_line:
  assumes "ToUpper (TrimSpace (sanitise line)) \<in> {''/B'', ''/QUIT''}"
  shows "\<exists>r x. processLine line hs = (Session_end r (sendLine x hs), True)"
proof -
  let ?t = "TrimSpace (sanitise line)"
  have ub: "upper_byte c = CHR ''/'' \<longleftrightarrow> c = CHR ''/''" "upper_byte c = CHR '' '' \<longleftrightarrow> c = CHR '' ''" for c
    by (rule upper_byte_eq_other; simp)+
  have "CHR '' '' \<notin> set (ToUpper ?t)" using assms by auto
  moreover have "CHR '' '' \<in> set (ToUpper x)" if "CHR '' '' \<in> set x" for x
    using imageI [OF that, of upper_byte] ub(2) [of "CHR '' ''"] by (simp add: ToUpper_def)
  ultimately have "CHR '' '' \<notin> set ?t" by blast
  then have cut: "Cut ?t (CHR '' '') = None" by (simp add: Cut_None_iff)
  obtain c s where t: "?t = c # s" using assms by (cases ?t) simp_all
  have "upper_byte c = CHR ''/''" using assms unfolding t ToUpper_simps(2) by (elim insertE) simp_all
  then have "processLine line hs = command ?t hs" using t ub(1) by (simp add: processLine_def)
  moreover have "\<exists>r x. command ?t hs = (Session_end r (sendLine x hs), True)"
    using assms by (elim insertE) (auto simp: command_def cut Let_def)
  ultimately show ?thesis by simp
qed

text \<open>
  C31: a line that is blank after sanitising does nothing. Any other line that does not start
  with a slash is posted to the user's topic with its text trimmed and free of control bytes (it
  stops neither the loop nor the session), and if the post fails the user is told why. The command
  words match in any case: \<^verbatim>\<open>/B\<close> and \<^verbatim>\<open>/QUIT\<close> stop the loop with the session ended
  and the user gone.
\<close>

theorem processLine_spec:
  assumes i: "sess_inv hs"
  shows "(TrimSpace (sanitise line) = '''' \<longrightarrow> processLine line hs = (hs, False))
    \<and> (\<forall>h m. TrimSpace (sanitise line) \<noteq> '''' \<and> TrimSpace (sanitise line) ! 0 \<noteq> CHR ''/'' \<and>
         Hub_Post (fst hs) (se_key (snd hs)) (TrimSpace (sanitise line)) = (h, Inr m) \<longrightarrow>
         processLine line hs = ((h, snd hs), False) \<and> list_all visible (m_text m))
    \<and> (\<forall>h e. TrimSpace (sanitise line) \<noteq> '''' \<and> TrimSpace (sanitise line) ! 0 \<noteq> CHR ''/'' \<and>
         Hub_Post (fst hs) (se_key (snd hs)) (TrimSpace (sanitise line)) = (h, Inl e) \<longrightarrow>
         processLine line hs = (sendLine (''*** '' @ errText e) (h, snd hs), False))
    \<and> (ToUpper (TrimSpace (sanitise line)) \<in> {''/B'', ''/QUIT''} \<longrightarrow>
         snd (processLine line hs) \<and> se_ended (snd (fst (processLine line hs))) \<noteq> None \<and>
         Hub_User (fst (fst (processLine line hs))) (se_key (snd (fst (processLine line hs)))) = None)"
proof (intro conjI allI impI)
  let ?t = "TrimSpace (sanitise line)"
  show "processLine line hs = (hs, False)" if "?t = ''''" using that by (simp add: processLine_def)
  show "processLine line hs = (sendLine (''*** '' @ errText e) (h, snd hs), False)"
    if "?t \<noteq> '''' \<and> ?t ! 0 \<noteq> CHR ''/'' \<and> Hub_Post (fst hs) (se_key (snd hs)) ?t = (h, Inl e)" for h e
    using that by (simp add: processLine_def Let_def)
  fix h m assume a: "?t \<noteq> '''' \<and> ?t ! 0 \<noteq> CHR ''/'' \<and> Hub_Post (fst hs) (se_key (snd hs)) ?t = (h, Inr m)"
  then show "processLine line hs = ((h, snd hs), False)" by (simp add: processLine_def Let_def)
  have "m_text m = clip ?t" using a by (intro Post_text) blast
  moreover have "set (clip ?t) \<subseteq> set (sanitise line)" using set_clip [of ?t] set_TrimSpace [of "sanitise line"] by blast
  ultimately show "list_all visible (m_text m)" by (auto simp: list_all_iff dest: sanitise_visible)
next
  let ?t = "TrimSpace (sanitise line)"
  assume v: "ToUpper ?t \<in> {''/B'', ''/QUIT''}"
  obtain r x where p: "processLine line hs = (Session_end r (sendLine x hs), True)"
    using bye_line [OF v] by blast
  have j: "sess_inv (Session_end r (sendLine x hs))" by (intro sess_inv_end sess_inv_sendLine i)
  have e: "se_ended (snd (Session_end r (sendLine x hs))) \<noteq> None" by (simp add: Session_end_def split: option.split)
  show "snd (processLine line hs)" "se_ended (snd (fst (processLine line hs))) \<noteq> None" using e by (simp_all add: p)
  show "Hub_User (fst (fst (processLine line hs))) (se_key (snd (fst (processLine line hs)))) = None"
    using e j by (simp add: p sess_inv_def)
qed

theorem processLine_spec_witness:
  "\<exists>h s. Session_New demo_hub (\<lambda>_. False) ''2E0XYZ'' = (h, Inr s) \<and> sess_inv (h, s) \<and>
     snd (processLine '' /quit'' (h, s)) \<and> Hub_User (fst (fst (processLine '' /quit'' (h, s)))) (se_key (snd (fst (processLine '' /quit'' (h, s))))) = None"
proof -
  have "case Session_New demo_hub (\<lambda>_. False) ''2E0XYZ'' of (_, Inl _) \<Rightarrow> False | (_, Inr s) \<Rightarrow> True" by code_simp
  then obtain h s where n: "Session_New demo_hub (\<lambda>_. False) ''2E0XYZ'' = (h, Inr s)"
    by (auto split: prod.splits sum.splits)
  have i: "sess_inv (h, s)" using Session_New_Inr [OF demo_hub_inv n] sess_inv_greet by metis
  have "ToUpper (TrimSpace (sanitise '' /quit'')) \<in> {''/B'', ''/QUIT''}" by code_simp
  with processLine_spec [OF i, of "'' /quit''"] n i show ?thesis by blast
qed

subsection \<open>Two sessions of one user\<close>

lemma greet_quiet: "(\<And>i. \<not> se_fail s i) \<Longrightarrow> fst (greet (h, s)) = h \<and> se_ended (snd (greet (h, s))) = se_ended s \<and> se_key (snd (greet (h, s))) = se_key s"
  by (simp add: greet_def sendLine_def send_eq showUsers_def Let_def)

text \<open>
  Presence is by callsign and node, not by session. When the same user has two sessions and
  one of them closes, the user is gone from the hub although the other session is still running,
  and what is typed there is answered with an error.
\<close>

theorem second_session_logged_out:
  assumes inv: "hub_inv hub" and one: "Session_New hub (\<lambda>_. False) callsign = (h1, Inr s1)"
    and two: "Session_New h1 (\<lambda>_. False) callsign = (h2, Inr s2)"
    and h3: "h3 = fst (Session_end EndPeerClosed (h2, s1))" and t: "clip text \<noteq> ''''"
  shows "se_ended s2 = None \<and> Hub_User h2 (se_key s2) \<noteq> None \<and> Hub_User h3 (se_key s2) = None \<and>
    Hub_Post h3 (se_key s2) text = (h3, Inl ErrNoSuchUser)"
proof -
  obtain s0 where a: "(h1, s1) = greet (fst (Hub_Join (snd (Hub_Subscribe hub)) (mk_user callsign '''' ''''
      \<lparr>o_node = h_ourNode hub, o_local = True, o_link = ''''\<rparr>)), s0)"
    "se_key s0 = UserKey (normCall callsign) (h_ourNode hub)" "se_ended s0 = None" "se_fail s0 = (\<lambda>_. False)"
    "sess_inv (fst (Hub_Join (snd (Hub_Subscribe hub)) (mk_user callsign '''' ''''
      \<lparr>o_node = h_ourNode hub, o_local = True, o_link = ''''\<rparr>)), s0)"
    by (rule Session_New_Inr [OF inv one])
  have i1: "sess_inv (h1, s1)" unfolding a(1) using a(5) by (rule sess_inv_greet)
  have e1: "se_ended s1 = None" "se_key s1 = UserKey (normCall callsign) (h_ourNode hub)"
    using greet_quiet [of s0] a by (metis snd_conv)+
  have inv1: "hub_inv h1" using i1 by (simp add: sess_inv_def)
  have our: "h_ourNode h1 = h_ourNode hub"
    using greet_quiet [of s0] a(1,4) by (metis fst_conv Join_ourNode Subscribe_sel(2))
  obtain s0' where b: "(h2, s2) = greet (fst (Hub_Join (snd (Hub_Subscribe h1)) (mk_user callsign '''' ''''
      \<lparr>o_node = h_ourNode h1, o_local = True, o_link = ''''\<rparr>)), s0')"
    "se_key s0' = UserKey (normCall callsign) (h_ourNode h1)" "se_ended s0' = None" "se_fail s0' = (\<lambda>_. False)"
    "sess_inv (fst (Hub_Join (snd (Hub_Subscribe h1)) (mk_user callsign '''' ''''
      \<lparr>o_node = h_ourNode h1, o_local = True, o_link = ''''\<rparr>)), s0')"
    by (rule Session_New_Inr [OF inv1 two])
  have i2: "sess_inv (h2, s2)" unfolding b(1) using b(5) by (rule sess_inv_greet)
  have e2: "se_ended s2 = None" "se_key s2 = se_key s1"
    using greet_quiet [of s0'] b our e1(2) by (metis snd_conv)+
  have "Hub_User h3 (se_key s2) = None"
    by (simp add: h3 Session_end_def e1(1) e2(2) Hub_User_def Hub_Leave_def Let_def split: option.split)
  moreover have "Hub_Post h3 (se_key s2) text = (h3, Inl ErrNoSuchUser)"
    using calculation t by (simp add: Post_eq Hub_User_def)
  ultimately show ?thesis using i2 e2 by (auto simp: sess_inv_def)
qed

theorem second_session_logged_out_witness:
  "\<exists>h1 s1 h2 s2. Session_New demo_hub (\<lambda>_. False) ''2E0XYZ'' = (h1, Inr s1) \<and> Session_New h1 (\<lambda>_. False) ''2E0XYZ'' = (h2, Inr s2) \<and>
     se_ended s2 = None \<and> Hub_User (fst (Session_end EndPeerClosed (h2, s1))) (se_key s2) = None"
proof -
  let ?n = "Session_New demo_hub (\<lambda>_. False) ''2E0XYZ''"
  have "case ?n of (_, Inl _) \<Rightarrow> False | (h, Inr _) \<Rightarrow> (case Session_New h (\<lambda>_. False) ''2E0XYZ'' of (_, Inl _) \<Rightarrow> False | (_, Inr _) \<Rightarrow> True)"
    by code_simp
  then obtain h1 s1 h2 s2 where n: "?n = (h1, Inr s1)" "Session_New h1 (\<lambda>_. False) ''2E0XYZ'' = (h2, Inr s2)"
    by (auto split: prod.splits sum.splits)
  have "clip ''hi'' \<noteq> ''''" by code_simp
  from second_session_logged_out [OF demo_hub_inv n refl this] n show ?thesis by blast
qed

end
