(* ===== verification/Web_Spec.thy ===== *)
theory Web_Spec
  imports Web Session_Spec
begin

text \<open>
  What the web server guarantees: who may change what (the gateway stamp, the scope ladder, the
  claim), what the claim form does, and what a viewer is shown.
\<close>

subsection \<open>Fields\<close>

lemma Join_store [simp]: "h_store (fst (Hub_Join h u)) = h_store h" "h_ourNode (fst (Hub_Join h u)) = h_ourNode h"
    "h_vt (fst (Hub_Join h u)) = h_vt h"
  by (simp_all add: Hub_Join_def Let_def split_def split: option.split)

lemma Leave_store [simp]: "h_store (Hub_Leave h k) = h_store h" "h_ourNode (Hub_Leave h k) = h_ourNode h"
    "h_vt (Hub_Leave h k) = h_vt h"
  by (simp_all add: Hub_Leave_def Let_def split: option.split)

lemma enter_eq:
  "enter call s =
     (let s1 = s\<lparr>ws_ref := (ws_ref s)(call := Suc (ws_ref s call))\<rparr>; key = UserKey call (h_ourNode (ws_hub s));
          (h, u) = Hub_Join (ws_hub s) (mk_user call '''' '''' \<lparr>o_node = h_ourNode (ws_hub s), o_local = True, o_link = ''''\<rparr>)
      in if ws_ref s call = 0 then (case u of Inr u \<Rightarrow> User_Key u | Inl _ \<Rightarrow> key, s1\<lparr>ws_hub := h\<rparr>) else (key, s1))"
  by (auto simp: enter_def enter_count_def enter_hub_def Let_def split: sum.split prod.split)

lemma enter_sel [simp]:
  "ws_fed (snd (enter c s)) = ws_fed s" "ws_claims (snd (enter c s)) = ws_claims s" "ws_cvt (snd (enter c s)) = ws_cvt s"
  "ws_ownerCall (snd (enter c s)) = ws_ownerCall s" "ws_ref (snd (enter c s)) = (ws_ref s)(c := Suc (ws_ref s c))"
  "h_store (ws_hub (snd (enter c s))) = h_store (ws_hub s)" "h_ourNode (ws_hub (snd (enter c s))) = h_ourNode (ws_hub s)"
  by (simp_all add: enter_eq Let_def split_def)

lemma leave_eq:
  "leave call s = s\<lparr>ws_ref := (ws_ref s)(call := ws_ref s call - 1),
     ws_hub := (if ws_ref s call \<le> 1 then Hub_Leave (ws_hub s) (UserKey call (h_ourNode (ws_hub s))) else ws_hub s)\<rparr>"
  by (simp add: leave_def leave_count_def leave_hub_def Let_def)

lemma leave_sel [simp]:
  "ws_fed (leave c s) = ws_fed s" "ws_claims (leave c s) = ws_claims s" "ws_cvt (leave c s) = ws_cvt s"
  "ws_ownerCall (leave c s) = ws_ownerCall s" "ws_ref (leave c s) = (ws_ref s)(c := ws_ref s c - 1)"
  "h_store (ws_hub (leave c s)) = h_store (ws_hub s)" "h_ourNode (ws_hub (leave c s)) = h_ourNode (ws_hub s)"
  by (simp_all add: leave_eq)

text \<open>What the request keeps, and entering and leaving keep, is kept with presence around it.\<close>

lemma with_presence_keeps:
  assumes "\<And>k s. g (fst (f k s)) = g s" "\<And>s. g (snd (enter call s)) = g s" "\<And>s. g (leave call s) = g s"
  shows "g (fst (with_presence call f s)) = g s"
  using assms by (simp add: with_presence_def Let_def split_def)

lemma hub_reply_sel [simp]:
  "ws_fed (fst (hub_reply s hr)) = ws_fed s" "ws_claims (fst (hub_reply s hr)) = ws_claims s"
  "ws_ref (fst (hub_reply s hr)) = ws_ref s"
  by (simp_all add: hub_reply_def)

lemma apply_settings_sel [simp]:
  "ws_fed (fst (apply_settings v k s)) = ws_fed s" "ws_claims (fst (apply_settings v k s)) = ws_claims s"
  by (simp_all add: apply_settings_def Let_def split_def split: sum.split)

lemma events_open_sel [simp]:
  "ws_fed (snd (events_open c s)) = ws_fed s" "ws_claims (snd (events_open c s)) = ws_claims s"
  "h_store (ws_hub (snd (events_open c s))) = h_store (ws_hub s)"
  by (simp_all add: events_open_def Let_def split_def Hub_Subscribe_def)

lemmas handler_defs = requireMethod_def requireWrite_def requireAdmin_def requireViewer_def

subsection \<open>Authorisation\<close>

text \<open>The fields a request may change, by handler: the rest is unchanged.\<close>

lemma chat_handlers_keep:
  "ws_fed (fst (handleSend r s)) = ws_fed s" "ws_claims (fst (handleSend r s)) = ws_claims s"
  "ws_fed (fst (handleTopic r s)) = ws_fed s" "ws_claims (fst (handleTopic r s)) = ws_claims s"
  "ws_fed (fst (handleDM r s)) = ws_fed s" "ws_claims (fst (handleDM r s)) = ws_claims s"
  "ws_fed (fst (handleSettings r s)) = ws_fed s" "ws_claims (fst (handleSettings r s)) = ws_claims s"
  "ws_fed (fst (handleEvents r s)) = ws_fed s" "ws_claims (fst (handleEvents r s)) = ws_claims s"
  by (auto simp: handleSend_def handleTopic_def handleDM_def handleSettings_def handleEvents_def handler_defs Let_def split_def
      split: option.split intro!: with_presence_keeps)

text \<open>What is only for an administrator.\<close>

fun admin_body :: "body \<Rightarrow> bool" where
  "admin_body (Peers _) = True"
| "admin_body (AllowEdited _ _) = True"
| "admin_body _ = False"

definition is_write :: "request \<Rightarrow> bool" where
  "is_write r \<longleftrightarrow>
     rq_path r \<in> {''/send'', ''/topic'', ''/dm''} \<or> rq_path r = ''/settings'' \<and> rq_method r = ''POST''"

definition refused :: "response \<Rightarrow> bool" where
  "refused resp \<longleftrightarrow> rp_status resp \<in> {403, 405}"

definition gated :: "request \<Rightarrow> ('s, 'c, 'k) server \<Rightarrow> ('s, 'c, 'k) server \<times> response \<Rightarrow> bool" where
  "gated r s x \<longleftrightarrow>
     (\<not> isAdmin (IdentityFromRequest r) \<longrightarrow> ws_fed (fst x) = ws_fed s \<and> \<not> admin_body (rp_body (snd x)))
   \<and> (\<not> canWrite (IdentityFromRequest r) \<longrightarrow> h_store (ws_hub (fst x)) = h_store (ws_hub s)
        \<and> (is_write r \<longrightarrow> fst x = s \<and> refused (snd x)))
   \<and> (resolveViewer r s = None \<longrightarrow> ws_hub (fst x) = ws_hub s)
   \<and> (ws_claims (fst x) \<noteq> ws_claims s \<longrightarrow> rq_path r = ''/claim'' \<and> rq_method r = ''POST'' \<and>
        TrimSpace (id_User (IdentityFromRequest r)) \<noteq> '''')"

lemma with_presence_body:
  assumes "\<And>k s. \<not> admin_body (rp_body (snd (f k s)))"
  shows "\<not> admin_body (rp_body (snd (with_presence call f s)))"
  using assms by (simp add: with_presence_def Let_def split_def)

lemma replies_plain [simp]:
  "\<not> admin_body (rp_body (http_error m c))" "rp_status (http_error m c) = c"
  "\<not> admin_body (rp_body (snd (hub_reply s hr)))" "\<not> admin_body (rp_body (snd (apply_settings v k s)))"
  "rp_body (writeJSON b) = b" "\<not> admin_body (rp_body (renderClaimFormErr r c p e))"
  by (simp_all add: http_error_def hub_reply_def apply_settings_def writeJSON_def renderClaimFormErr_def Let_def split_def split: sum.split)

lemma handlers_plain:
  "\<not> admin_body (rp_body (snd (handleSend r s)))" "\<not> admin_body (rp_body (snd (handleTopic r s)))"
  "\<not> admin_body (rp_body (snd (handleDM r s)))" "\<not> admin_body (rp_body (snd (handleSettings r s)))"
  "\<not> admin_body (rp_body (snd (handleEvents r s)))" "\<not> admin_body (rp_body (snd (handleIndex r s)))"
  "\<not> admin_body (rp_body (snd (handleClaim t r s)))"
  by (auto simp: handleSend_def handleTopic_def handleDM_def handleSettings_def handleEvents_def handleIndex_def handleClaim_def
      handler_defs Let_def split_def split: option.splits sum.splits claim_error.splits intro!: with_presence_body)

lemma settings_read_keeps_store:
  "\<not> canWrite (IdentityFromRequest r) \<Longrightarrow> h_store (ws_hub (fst (handleSettings r s))) = h_store (ws_hub s)"
  by (auto simp: handleSettings_def handler_defs split: option.split
      intro!: with_presence_keeps [where g = "\<lambda>s. h_store (ws_hub s)"])

text \<open>The handlers that keep the whole server, and those that refuse before they look at it.\<close>

lemma readers_keep:
  "fst (handleHealth r s) = s" "fst (handleUsers r s) = s" "fst (handleHistory r s) = s" "fst (handleDMs r s) = s"
  "fst (handlePeers r s) = s" "fst (handleIndex r s) = s"
  by (simp_all add: handleHealth_def handleUsers_def handleHistory_def handleDMs_def handlePeers_def handleIndex_def handler_defs
      split: option.split)

lemma write_refused:
  assumes "\<not> canWrite (IdentityFromRequest r)"
  shows "fst (handleSend r s) = s \<and> refused (snd (handleSend r s))"
    "fst (handleTopic r s) = s \<and> refused (snd (handleTopic r s))"
    "fst (handleDM r s) = s \<and> refused (snd (handleDM r s))"
    "rq_method r = ''POST'' \<Longrightarrow> fst (handleSettings r s) = s \<and> refused (snd (handleSettings r s))"
  using assms by (simp_all add: handleSend_def handleTopic_def handleDM_def handleSettings_def handler_defs refused_def)

lemma unclaimed_refused:
  assumes "resolveViewer r s = None"
  shows "fst (handleSend r s) = s" "fst (handleTopic r s) = s" "fst (handleDM r s) = s" "fst (handleSettings r s) = s"
    "fst (handleEvents r s) = s"
  using assms by (simp_all add: handleSend_def handleTopic_def handleDM_def handleSettings_def handleEvents_def handler_defs)

lemma admin_refused:
  assumes "\<not> isAdmin (IdentityFromRequest r)"
  shows "\<not> admin_body (rp_body (snd (handlePeers r s)))" "\<not> admin_body (rp_body (snd (handlePeersAllow r s)))"
    "fst (handlePeersAllow r s) = s"
  using assms by (simp_all add: handlePeers_def handlePeersAllow_def handler_defs)

lemma handleClaim_keeps:
  "ws_fed (fst (handleClaim t r s)) = ws_fed s" "ws_hub (fst (handleClaim t r s)) = ws_hub s"
  "rq_method r \<noteq> ''POST'' \<or> TrimSpace (id_User (IdentityFromRequest r)) = '''' \<Longrightarrow> fst (handleClaim t r s) = s"
  by (auto simp: handleClaim_def handler_defs Let_def split: option.split sum.split claim_error.split)

lemma handlePeersAllow_keeps:
  "ws_hub (fst (handlePeersAllow r s)) = ws_hub s" "ws_claims (fst (handlePeersAllow r s)) = ws_claims s"
  by (simp_all add: handlePeersAllow_def handler_defs Let_def split_def split: option.split sum.split)

lemma events_keeps_store: "h_store (ws_hub (fst (handleEvents r s))) = h_store (ws_hub s)"
  by (simp add: handleEvents_def handler_defs split_def Let_def split: option.split)

lemma gated_mux: "gated r s (mux t r s)"
proof -
  note facts = readers_keep chat_handlers_keep handlers_plain settings_read_keeps_store write_refused unclaimed_refused admin_refused
    handleClaim_keeps handlePeersAllow_keeps events_keeps_store
  consider "rq_path r = ''/send''" | "rq_path r = ''/topic''" | "rq_path r = ''/dm''" | "rq_path r = ''/settings''"
    | "rq_path r = ''/claim''" | "rq_path r = ''/peers/allow''" | "rq_path r = ''/events''" | "rq_path r = ''/peers''"
    | "rq_path r \<notin> {''/send'', ''/topic'', ''/dm'', ''/settings'', ''/claim'', ''/peers/allow'', ''/events'', ''/peers''}"
    by blast
  then show ?thesis
  proof cases
    case 1
    then show ?thesis by (simp add: mux_def gated_def facts)
  next
    case 2
    then show ?thesis by (simp add: mux_def gated_def facts)
  next
    case 3
    then show ?thesis by (simp add: mux_def gated_def facts)
  next
    case 4
    then show ?thesis by (simp add: mux_def gated_def is_write_def facts)
  next
    case 5
    then show ?thesis using handleClaim_keeps(3) [of r t s]
      by (cases "rq_method r = ''POST'' \<and> TrimSpace (id_User (IdentityFromRequest r)) \<noteq> ''''")
         (auto simp: mux_def gated_def is_write_def handlers_plain handleClaim_keeps(1,2))
  next
    case 6
    then show ?thesis by (simp add: mux_def gated_def is_write_def facts)
  next
    case 7
    then show ?thesis by (simp add: mux_def gated_def is_write_def facts)
  next
    case 8
    then show ?thesis by (simp add: mux_def gated_def is_write_def facts)
  next
    case 9
    have "\<not> admin_body (rp_body (snd (mux t r s)))" "fst (mux t r s) = s"
      using 9 handlers_plain(6) readers_keep
      by (auto simp: mux_def handleHealth_def handleUsers_def handleHistory_def handleDMs_def handler_defs split: option.split)
    then show ?thesis using 9 by (simp add: gated_def is_write_def)
  qed
qed

text \<open>
  C7: what a request may change and be told, whatever it holds. Without the gateway's stamp
  it changes nothing and is refused with 403 (the health probe apart, which changes nothing
  either). A viewer without admin scope never changes the federation state nor is shown it. A
  read-only viewer never adds to the message store, and a send, topic change, direct message or
  settings change of theirs is refused before it touches anything. A user who has not claimed a
  callsign never touches the hub. And the claims change only through a POST of the claim form by a
  user the gateway named.
\<close>

theorem serve_http_gate:
  assumes "serve_http t r s = (s', resp)"
  shows "(rq_header r ''X-Pdn-Gateway'' \<noteq> ''1'' \<longrightarrow> s' = s \<and> (rq_path r \<noteq> ''/healthz'' \<longrightarrow> rp_status resp = 403))
    \<and> (\<not> isAdmin (IdentityFromRequest r) \<longrightarrow> ws_fed s' = ws_fed s \<and> \<not> admin_body (rp_body resp))
    \<and> (\<not> canWrite (IdentityFromRequest r) \<longrightarrow> h_store (ws_hub s') = h_store (ws_hub s)
         \<and> (is_write r \<longrightarrow> s' = s \<and> rp_status resp \<in> {403, 405}))
    \<and> (resolveViewer r s = None \<longrightarrow> ws_hub s' = ws_hub s)
    \<and> (ws_claims s' \<noteq> ws_claims s \<longrightarrow> rq_path r = ''/claim'' \<and> rq_method r = ''POST'' \<and>
         TrimSpace (id_User (IdentityFromRequest r)) \<noteq> '''')"
proof -
  let ?r = "r\<lparr>rq_prefix := rq_header r ''X-Forwarded-Prefix''\<rparr>"
  have i: "IdentityFromRequest ?r = IdentityFromRequest r" by (simp add: IdentityFromRequest_def)
  then have v: "resolveViewer ?r s = resolveViewer r s" by (simp add: resolveViewer_def)
  have w: "is_write ?r = is_write r" by (simp add: is_write_def)
  show ?thesis
  proof (cases "rq_path r = ''/healthz''")
    case True
    then have "s' = s" "\<not> admin_body (rp_body resp)"
      using assms by (auto simp: serve_http_def gatewayTrust_def mux_def handleHealth_def)
    then show ?thesis using True by (simp add: is_write_def)
  next
    case False
    show ?thesis
    proof (cases "rq_header r ''X-Pdn-Gateway'' = ''1''")
      case True
      then have "mux t ?r s = (s', resp)" using assms False by (simp add: serve_http_def gatewayTrust_def)
      then have "gated r s (s', resp)" using gated_mux [of ?r s t] w unfolding gated_def i v by simp
      then show ?thesis using True by (auto simp: gated_def refused_def)
    next
      case nostamp: False
      then have "s' = s" "resp = http_error ''forbidden: requests must arrive through the pdn app-gateway'' 403"
        using assms False by (auto simp: serve_http_def gatewayTrust_def)
      then show ?thesis by simp
    qed
  qed
qed

text \<open>A server with one claim, and a request of a read-only viewer to post.\<close>

definition sqlite_claims :: "sql_store claim_vt" where
  "sqlite_claims = \<lparr>cv_ClaimedCall = ClaimedCall, cv_Claim = Claim\<rparr>"

definition demo_claims :: sql_store where
  "demo_claims = Sqlite_Open\<lparr>sq_claims := [\<lparr>cr_user = ''alice'', cr_call = ''M0ABC'', cr_at = 7\<rparr>]\<rparr>"

definition web_demo :: "(mem_store, sql_store, sql_store) server" where
  "web_demo = Web_New ''M0LTE-4'' demo_hub sqlite_claims
     (Some demo_claims) None"

definition get_request :: "string \<Rightarrow> string \<Rightarrow> string \<Rightarrow> request" where
  "get_request user sc path =
     \<lparr>rq_method = ''GET'', rq_path = path,
      rq_header = (\<lambda>_. '''')(''X-Pdn-User'' := user, ''X-Pdn-Scope'' := sc, ''X-Pdn-Gateway'' := ''1''),
      rq_query = (\<lambda>_. ''''), rq_json = None, rq_form = (\<lambda>_. ''''), rq_dm = None, rq_settings = None, rq_edit = None,
      rq_prefix = ''''\<rparr>"

definition form_request :: "string \<Rightarrow> string \<Rightarrow> string \<Rightarrow> string \<Rightarrow> string \<Rightarrow> request" where
  "form_request user sc path field v =
     (get_request user sc path)\<lparr>rq_method := ''POST'', rq_form := (\<lambda>_. '''')(field := v)\<rparr>"

lemma request_identity [simp]:
  "IdentityFromRequest (get_request user sc path) = \<lparr>id_User = user, id_Scope = sc, id_Gateway = True\<rparr>"
  "IdentityFromRequest (form_request user sc path field v) = \<lparr>id_User = user, id_Scope = sc, id_Gateway = True\<rparr>"
  by (simp_all add: IdentityFromRequest_def get_request_def form_request_def)

theorem serve_http_gate_witness:
  "\<not> canWrite (IdentityFromRequest (form_request ''alice'' ''read'' ''/send'' ''text'' ''hello'')) \<and>
   (\<exists>resp. serve_http 0 (form_request ''alice'' ''read'' ''/send'' ''text'' ''hello'') web_demo = (web_demo, resp) \<and>
      rp_status resp \<in> {403, 405})"
proof -
  let ?r = "form_request ''alice'' ''read'' ''/send'' ''text'' ''hello''"
  have "\<not> canWrite \<lparr>id_User = ''alice'', id_Scope = ''read'', id_Gateway = True\<rparr>" by code_simp
  then have c: "\<not> canWrite (IdentityFromRequest ?r)" by simp
  obtain s' resp where e: "serve_http 0 ?r web_demo = (s', resp)" by fastforce
  have "is_write ?r" by (simp add: is_write_def form_request_def get_request_def)
  with serve_http_gate [OF e] c e show ?thesis by blast
qed

subsection \<open>Claims\<close>

definition viewer_name :: "request \<Rightarrow> string" where
  "viewer_name r = TrimSpace (id_User (IdentityFromRequest r))"

text \<open>
  The interface \<^verbatim>\<open>ClaimStore\<close> of \<^verbatim>\<open>web.go\<close>: what the handlers rely on. A
  store in good order (\<open>good\<close>) is a map from users to callsigns; a claim of a callsign that
  another user holds in any case is the collision error and any other one is recorded.
\<close>

locale claim_store =
  fixes vt :: "'c claim_vt" and good :: "'c \<Rightarrow> bool" and held :: "'c \<Rightarrow> string \<rightharpoonup> string"
  assumes lookup: "good c \<Longrightarrow> cv_ClaimedCall vt c u = Inr (held c u)"
    and taken: "good c \<Longrightarrow> w \<noteq> u \<Longrightarrow> held c w = Some d \<Longrightarrow> ToLower d = ToLower call \<Longrightarrow>
      cv_Claim vt c u call at = Inl ErrCallsignClaimed"
    and granted: "good c \<Longrightarrow> \<nexists>v d. v \<noteq> u \<and> held c v = Some d \<and> ToLower d = ToLower call \<Longrightarrow>
      \<exists>c'. cv_Claim vt c u call at = Inr c' \<and> good c' \<and> held c' = (held c)(u \<mapsto> call)"
begin

definition backs :: "('s, 'c, 'k) server \<Rightarrow> 'c \<Rightarrow> bool" where
  "backs s c \<longleftrightarrow> ws_cvt s = vt \<and> ws_claims s = Some c \<and> good c"

lemma viewer_resolves:
  "backs s c \<Longrightarrow> resolveViewer r s = (if viewer_name r = '''' then Some (ws_ownerCall s) else held c (viewer_name r))"
  by (auto simp: resolveViewer_def backs_def viewer_name_def lookup Let_def split: sum.splits option.splits)

lemma claim_refused:
  assumes "backs s c" "rq_method r = ''POST''" "viewer_name r \<noteq> ''''" "looksLikeCallsign (normClaim (readField r ''callsign''))"
    and "w \<noteq> viewer_name r" "held c w = Some d" "ToLower d = ToLower (normClaim (readField r ''callsign''))"
  shows "fst (handleClaim t r s) = s \<and> rp_status (snd (handleClaim t r s)) = 409"
  using assms taken [OF _ assms(5-7), of t]
  by (simp add: handleClaim_def handler_defs backs_def viewer_name_def renderClaimFormErr_def Let_def)

lemma claim_recorded:
  assumes "backs s c" "rq_method r = ''POST''" "viewer_name r \<noteq> ''''" "looksLikeCallsign (normClaim (readField r ''callsign''))"
    and "\<nexists>v d. v \<noteq> viewer_name r \<and> held c v = Some d \<and> ToLower d = ToLower (normClaim (readField r ''callsign''))"
  shows "\<exists>c'. fst (handleClaim t r s) = s\<lparr>ws_claims := Some c'\<rparr> \<and> backs (s\<lparr>ws_claims := Some c'\<rparr>) c' \<and>
    held c' = (held c)(viewer_name r \<mapsto> normClaim (readField r ''callsign'')) \<and>
    rp_status (snd (handleClaim t r s)) = 303 \<and> rp_body (snd (handleClaim t r s)) = RedirectTo (U (rq_prefix r) ''/'')"
proof -
  obtain c' where "cv_Claim vt c (viewer_name r) (normClaim (readField r ''callsign'')) t = Inr c'" "good c'"
    "held c' = (held c)(viewer_name r \<mapsto> normClaim (readField r ''callsign''))"
    using granted [OF _ assms(5), of t] assms(1) by (auto simp: backs_def)
  then show ?thesis
    using assms(1-4) by (intro exI [of _ c'])
      (simp add: handleClaim_def handler_defs backs_def viewer_name_def Let_def)
qed

end

interpretation sc: claim_store sqlite_claims "\<lambda>c. sq_err c = None \<and> claims_ok c" claims_map
proof unfold_locales
  fix c u call at w d
  assume "sq_err c = None \<and> claims_ok c"
  then have c: "claims_ok c" "sq_err c = None" by simp_all
  show "cv_ClaimedCall sqlite_claims c u = Inr (claims_map c u)" using c by (simp add: sqlite_claims_def ClaimedCall_map)
  show "cv_Claim sqlite_claims c u call at = Inl ErrCallsignClaimed"
    if "w \<noteq> u" "claims_map c w = Some d" "ToLower d = ToLower call"
    using Claim_taken [OF c that] by (simp add: sqlite_claims_def)
  show "\<exists>c'. cv_Claim sqlite_claims c u call at = Inr c' \<and> (sq_err c' = None \<and> claims_ok c') \<and> claims_map c' = (claims_map c)(u \<mapsto> call)"
    if "\<nexists>v d. v \<noteq> u \<and> claims_map c v = Some d \<and> ToLower d = ToLower call"
    using Claim_free [OF c that, of at] by (auto simp: sqlite_claims_def)
qed

text \<open>The server with its claims in a working database.\<close>

definition with_claims :: "('s, sql_store, 'k) server \<Rightarrow> sql_store \<Rightarrow> bool" where
  "with_claims s c \<longleftrightarrow> ws_cvt s = sqlite_claims \<and> ws_claims s = Some c \<and> sq_err c = None \<and> claims_ok c"

lemma with_claims_backs: "with_claims = sc.backs"
  by (auto simp: with_claims_def sc.backs_def fun_eq_iff)

lemmas resolveViewer_claims = sc.viewer_resolves [folded with_claims_backs]
lemmas handleClaim_taken = sc.claim_refused [folded with_claims_backs]
lemmas handleClaim_free = sc.claim_recorded [folded with_claims_backs]

text \<open>
  C27: a POST of the claim form by a user the gateway named. Text that does not look like a
  callsign is refused with 400 and one that another user holds, in any case, with 409, and neither
  changes anything. Otherwise the answer is a redirect into the app's mount, the user's requests
  resolve from then on to the upper-cased callsign without its SSID, and everybody else's resolve
  as before.
\<close>

theorem handleClaim_spec:
  assumes claims: "with_claims s c" and r: "rq_method r = ''POST''" "viewer_name r \<noteq> ''''"
    and call: "call = normClaim (readField r ''callsign'')" and eq: "handleClaim t r s = (s', resp)"
  shows "(\<not> looksLikeCallsign call \<longrightarrow> s' = s \<and> rp_status resp = 400)
    \<and> (looksLikeCallsign call \<and> (\<exists>v d. v \<noteq> viewer_name r \<and> claims_map c v = Some d \<and> ToLower d = ToLower call) \<longrightarrow>
         s' = s \<and> rp_status resp = 409)
    \<and> (looksLikeCallsign call \<and> (\<nexists>v d. v \<noteq> viewer_name r \<and> claims_map c v = Some d \<and> ToLower d = ToLower call) \<longrightarrow>
         rp_status resp = 303 \<and> rp_body resp = RedirectTo (U (rq_prefix r) ''/'') \<and> ws_hub s' = ws_hub s \<and>
         (\<forall>q. resolveViewer q s' = (if viewer_name q = viewer_name r then Some call else resolveViewer q s)))"
proof (intro conjI impI)
  assume "\<not> looksLikeCallsign call"
  then show "s' = s" "rp_status resp = 400"
    using claims r call eq
    by (auto simp: handleClaim_def handler_defs viewer_name_def with_claims_def renderClaimFormErr_def Let_def)
next
  assume a: "looksLikeCallsign call \<and> (\<exists>v d. v \<noteq> viewer_name r \<and> claims_map c v = Some d \<and> ToLower d = ToLower call)"
  then obtain v d where v: "v \<noteq> viewer_name r" "claims_map c v = Some d" "ToLower d = ToLower call" by blast
  show "s' = s" "rp_status resp = 409"
    using handleClaim_taken [OF claims r _ v(1,2), of t] a v(3) call eq by simp_all
next
  assume a: "looksLikeCallsign call \<and> (\<nexists>v d. v \<noteq> viewer_name r \<and> claims_map c v = Some d \<and> ToLower d = ToLower call)"
  then obtain c' where c': "s' = s\<lparr>ws_claims := Some c'\<rparr>" "with_claims (s\<lparr>ws_claims := Some c'\<rparr>) c'"
    "claims_map c' = (claims_map c)(viewer_name r \<mapsto> call)" and "rp_status resp = 303" "rp_body resp = RedirectTo (U (rq_prefix r) ''/'')"
    using handleClaim_free [OF claims r, of t] call eq by auto
  then show "rp_status resp = 303" "rp_body resp = RedirectTo (U (rq_prefix r) ''/'')" "ws_hub s' = ws_hub s" by simp_all
  show "\<forall>q. resolveViewer q s' = (if viewer_name q = viewer_name r then Some call else resolveViewer q s)"
    using resolveViewer_claims [OF c'(2)] resolveViewer_claims [OF claims] c'(1,3) r(2) by simp
qed

lemma demo_with_claims: "with_claims web_demo demo_claims" "claims_map demo_claims = [''alice'' \<mapsto> ''M0ABC'']"
  by (simp_all add: with_claims_def web_demo_def Web_New_def demo_claims_def Sqlite_Open_def claims_ok_def claims_map_def fun_eq_iff)

lemma form_request_sel [simp]:
  "rq_method (form_request user sc path field v) = ''POST''" "rq_path (form_request user sc path field v) = path"
  "readField (form_request user sc path field v) field = v" "viewer_name (form_request user sc path field v) = TrimSpace user"
  by (simp_all add: form_request_def get_request_def readField_def HasPrefix_def viewer_name_def IdentityFromRequest_def)

theorem handleClaim_spec_witness:
  "with_claims web_demo demo_claims \<and> viewer_name (form_request ''bob'' ''read'' ''/claim'' ''callsign'' ''g8pzt-7'') \<noteq> '''' \<and>
   rp_status (snd (handleClaim 9 (form_request ''bob'' ''read'' ''/claim'' ''callsign'' ''g8pzt-7'') web_demo)) = 303 \<and>
   rp_status (snd (handleClaim 9 (form_request ''bob'' ''read'' ''/claim'' ''callsign'' ''m0abc'') web_demo)) = 409"
proof -
  let ?r = "form_request ''bob'' ''read'' ''/claim'' ''callsign''"
  have n: "TrimSpace ''bob'' = ''bob''" by code_simp
  then have v: "viewer_name (?r x) = ''bob''" for x by simp
  have c: "normClaim ''g8pzt-7'' = ''G8PZT''" "normClaim ''m0abc'' = ''M0ABC''" "looksLikeCallsign ''G8PZT''"
    "looksLikeCallsign ''M0ABC''" "ToLower ''M0ABC'' \<noteq> ToLower ''G8PZT''" by code_simp+
  have e: "handleClaim 9 (?r x) web_demo = (fst (handleClaim 9 (?r x) web_demo), snd (handleClaim 9 (?r x) web_demo))" for x by simp
  show ?thesis
    using handleClaim_spec [OF demo_with_claims(1) _ _ refl e [of "''g8pzt-7''"]]
      handleClaim_spec [OF demo_with_claims(1) _ _ refl e [of "''m0abc''"]] c demo_with_claims v
    by (auto simp: fun_upd_apply)
qed

subsection \<open>One callsign, two users\<close>

definition alnum :: "char \<Rightarrow> bool" where
  "alnum c \<longleftrightarrow> 48 \<le> byte c \<and> byte c \<le> 57 \<or> 65 \<le> byte c \<and> byte c \<le> 90 \<or> 97 \<le> byte c \<and> byte c \<le> 122"

lemma looksLikeCallsign_iff:
  "TrimSpace cs = cs \<Longrightarrow> looksLikeCallsign cs \<longleftrightarrow>
     length cs \<ge> 3 \<and> (\<forall>c \<in> set cs. alnum c) \<and> (\<exists>c \<in> set cs. 48 \<le> byte c \<and> byte c \<le> 57)"
  by (auto simp: looksLikeCallsign_def alnum_def Let_def list_all_iff list_ex_iff)

lemma looksLikeCallsign_Trim: "looksLikeCallsign (TrimSpace cs) = looksLikeCallsign cs"
  by (simp add: looksLikeCallsign_def)

lemma alnum_not_space:
  assumes "alnum c"
  shows "\<not> sp1 (byte c)" "\<not> sp2 (byte c) y" "\<not> sp2 x (byte c)" "\<not> sp3 (byte c) y z" "\<not> sp3 x y (byte c)"
  using assms by (auto simp: alnum_def sp_defs)

lemma alnum_space_len: "alnum c \<Longrightarrow> space_len (c # s) = 0" "alnum c \<Longrightarrow> space_len_rev (c # s) = 0"
  by (cases "c # s" rule: space_len.cases; simp add: alnum_not_space)+

lemma alnum_ends:
  assumes "s \<noteq> []" "alnum (hd s)" "alnum (last s)"
  shows "space_len (s @ t) = 0" "space_len_rev (rev s @ t) = 0"
proof -
  show "space_len (s @ t) = 0" using assms(1,2) by (cases s) (simp_all add: alnum_space_len)
  show "space_len_rev (rev s @ t) = 0" using assms(1,3) by (cases s rule: rev_cases) (simp_all add: alnum_space_len)
qed

lemma TrimSpace_alnum: "s \<noteq> [] \<Longrightarrow> alnum (hd s) \<Longrightarrow> alnum (last s) \<Longrightarrow> TrimSpace s = s"
  using alnum_ends [of s "[]"] by (simp add: TrimSpace_id)

lemma TrimSpace_snoc_blank:
  assumes "s \<noteq> []" "alnum (hd s)" "alnum (last s)"
  shows "TrimSpace (s @ '' '') = s"
proof -
  note e = alnum_ends [OF assms]
  have l: "trim_left (s @ '' '') = s @ '' ''" by (rule trim_left_id) (rule e)
  have "space_len_rev (rev s) = 0" using e(2) [of "[]"] by simp
  moreover have "space_len_rev (CHR '' '' # rev s) = 1"
    by (cases "CHR '' '' # rev s" rule: space_len_rev.cases) (auto simp: sp_defs)
  ultimately have "trim_left_rev (CHR '' '' # rev s) = rev s"
    by (simp add: trim_left_rev.simps [of "CHR '' '' # rev s"] trim_left_rev_id)
  then show ?thesis by (simp add: TrimSpace_def trim_right_def l)
qed

definition canonical_call :: "string \<Rightarrow> bool" where
  "canonical_call call \<longleftrightarrow> looksLikeCallsign call \<and> TrimSpace call = call \<and> ToUpper call = call"

lemma callsign_shape:
  assumes "canonical_call call"
  shows "call \<noteq> []" "alnum (hd call)" "alnum (last call)" "TrimSpace call = call" "CHR ''-'' \<notin> set call" "ToUpper call = call"
proof -
  have c: "TrimSpace call = call" "looksLikeCallsign call" "ToUpper call = call" using assms by (auto simp: canonical_call_def)
  then have a: "length call \<ge> 3" "\<forall>c \<in> set call. alnum c" by (simp_all add: looksLikeCallsign_iff)
  then show "call \<noteq> []" "alnum (hd call)" "alnum (last call)" by (cases call; simp)+
  have "\<not> alnum (CHR ''-'')" by (simp add: alnum_def)
  then show "CHR ''-'' \<notin> set call" using a(2) by blast
  show "TrimSpace call = call" "ToUpper call = call" by (rule c(1), rule c(3))
qed

text \<open>The cut at the hyphen comes after the trim, so a blank before it stays.\<close>

lemma normClaim_spaced:
  assumes "canonical_call call"
  shows "normClaim (call @ '' -1'') = call @ '' ''" "TrimSpace (call @ '' '') = call"
proof -
  note s = callsign_shape [OF assms]
  have "TrimSpace (call @ '' -1'') = call @ '' -1''"
    using s(1,2) by (intro TrimSpace_alnum) (simp_all add: alnum_def)
  moreover have "ToUpper '' -1'' = '' -1''" by code_simp
  ultimately have "ToUpper (TrimSpace (call @ '' -1'')) = (call @ '' '') @ CHR ''-'' # ''1''"
    using s(6) by (simp add: ToUpper_def)
  moreover have "takeWhile (\<lambda>c. c \<noteq> CHR ''-'') ((call @ '' '') @ CHR ''-'' # ''1'') = call @ '' ''"
    using s(5) by (subst takeWhile_append2) (auto simp del: append_assoc)
  ultimately show "normClaim (call @ '' -1'') = call @ '' ''" by (simp only: normClaim_def)
  show "TrimSpace (call @ '' '') = call" using s(1-3) by (rule TrimSpace_snoc_blank)
qed

text \<open>
  Two users can hold one callsign. \<^verbatim>\<open>normClaim\<close> trims before it cuts the SSID, so
  the text \<^verbatim>\<open>M0ABC -1\<close> is claimed as \<^verbatim>\<open>M0ABC\<close> with a trailing blank:
  \<^verbatim>\<open>looksLikeCallsign\<close> trims it again and accepts it, the unique index compares it with the
  holder's \<^verbatim>\<open>M0ABC\<close> and finds them different, and the claim is granted although the same text
  without the suffix is refused with 409. The hub trims once more, so the second user's messages are
  posted under the very identity the first one holds.
\<close>

theorem spaced_claim_shares_callsign:
  assumes claims: "with_claims s c" and held: "claims_map c holder = Some call" "canonical_call call"
    and free: "\<nexists>v d. v \<noteq> TrimSpace user \<and> claims_map c v = Some d \<and> ToLower d = ToLower (call @ '' '')"
    and user: "TrimSpace user \<noteq> ''''" "TrimSpace user \<noteq> holder"
  shows "rp_status (snd (handleClaim t (form_request user sc ''/claim'' ''callsign'' call) s)) = 409
    \<and> rp_status (snd (handleClaim t (form_request user sc ''/claim'' ''callsign'' (call @ '' -1'')) s)) = 303
    \<and> (\<exists>call'. resolveViewer (get_request user sc path)
             (fst (handleClaim t (form_request user sc ''/claim'' ''callsign'' (call @ '' -1'')) s)) = Some call'
           \<and> canonKey (UserKey call' n) = canonKey (UserKey call n))"
proof -
  note sh = callsign_shape [OF held(2)] and sp = normClaim_spaced [OF held(2)]
  have l: "looksLikeCallsign call" using held(2) by (simp add: canonical_call_def)
  have nc: "normClaim call = call" using sh(4-6) by (simp add: normClaim_def takeWhile_eq_all_conv) blast
  have "rp_status (snd (handleClaim t (form_request user sc ''/claim'' ''callsign'' call) s)) = 409"
    using handleClaim_taken [OF claims, of "form_request user sc ''/claim'' ''callsign'' call" holder call t] held(1) user l nc by simp
  moreover let ?r = "form_request user sc ''/claim'' ''callsign'' (call @ '' -1'')"
  have l': "looksLikeCallsign (call @ '' '')" using l sp(2) looksLikeCallsign_Trim [of "call @ '' ''"] by simp
  obtain c' where c': "fst (handleClaim t ?r s) = s\<lparr>ws_claims := Some c'\<rparr>" "with_claims (s\<lparr>ws_claims := Some c'\<rparr>) c'"
    "claims_map c' = (claims_map c)(TrimSpace user \<mapsto> call @ '' '')" "rp_status (snd (handleClaim t ?r s)) = 303"
    using handleClaim_free [OF claims, of ?r t] user l' free sp(1) by auto
  have "viewer_name (get_request user sc path) = TrimSpace user" by (simp add: viewer_name_def)
  then have "resolveViewer (get_request user sc path) (s\<lparr>ws_claims := Some c'\<rparr>) = Some (call @ '' '')"
    using resolveViewer_claims [OF c'(2)] c'(3) user(1) by simp
  moreover have "canonKey (UserKey (call @ '' '') n) = canonKey (UserKey call n)"
    using sp(2) sh(4) by (simp add: canonKey_def normCall_def)
  ultimately show ?thesis using c'(1,4) by auto
qed

theorem spaced_claim_shares_callsign_witness:
  "with_claims web_demo demo_claims \<and> canonical_call ''M0ABC'' \<and>
   rp_status (snd (handleClaim 9 (form_request ''eve'' ''read'' ''/claim'' ''callsign'' ''M0ABC'') web_demo)) = 409 \<and>
   rp_status (snd (handleClaim 9 (form_request ''eve'' ''read'' ''/claim'' ''callsign'' ''M0ABC -1'') web_demo)) = 303"
proof -
  have c: "canonical_call ''M0ABC''" "TrimSpace ''eve'' = ''eve''" "ToLower ''M0ABC'' \<noteq> ToLower (''M0ABC'' @ '' '')" by code_simp+
  have a: "''M0ABC'' @ '' -1'' = ''M0ABC -1''" by simp
  show ?thesis
    using spaced_claim_shares_callsign [OF demo_with_claims(1), of "''alice''" "''M0ABC''" "''eve''" 9 "''read''"] c a demo_with_claims
    by (auto simp: fun_upd_apply split: if_splits)
qed

subsection \<open>What a viewer is shown\<close>

text \<open>The viewer sent the message or is its addressee, and the pane puts it in the thread of the other one.\<close>

definition own_dm :: "string \<Rightarrow> wire_event \<Rightarrow> bool" where
  "own_dm call e \<longleftrightarrow>
     (normCall (we_From e) = normCall call \<or> normCall (we_To e) = normCall call) \<and>
     we_With e = (if we_Mine e then we_To e else we_From e) \<and> (we_Mine e \<longrightarrow> normCall (we_From e) = normCall call)"

lemma EqualFold_normCall: "EqualFold a b \<Longrightarrow> normCall a = normCall b"
  using EqualFold_iff_ToUpper [of a b] by (simp add: normCall_def flip: TrimSpace_ToUpper)

lemma own_dm_norm: "own_dm (normCall call) e = own_dm call e"
  by (simp add: own_dm_def)

lemma own_dm_privateEvent:
  "normCall (m_fromCall m) = normCall call \<or> normCall (m_toCall m) = normCall call \<Longrightarrow> own_dm call (privateEvent m call)"
  using EqualFold_normCall [of "m_fromCall m" call] by (auto simp: own_dm_def privateEvent_def Let_def)

lemma event_types [simp]: "we_Type (topicEvent m) = ''msg''" "we_Type (privateEvent m c) = ''private''"
  by (simp_all add: topicEvent_def privateEvent_def Let_def)

lemma web_filter_private:
  assumes "web_filter h key ev = Some e" "we_Type e = ''private''"
  shows "own_dm (uk_call key) e \<and> (\<exists>m. ev = PrivateMessage m \<and> e = privateEvent m (uk_call key))"
  using assms EqualFold_normCall
  by (cases ev) (auto simp: web_filter_def Let_def no_event_def topicEvent_def split: if_splits intro!: own_dm_privateEvent)

lemma web_filter_topic:
  assumes "web_filter h key ev = Some e" "we_Type e = ''msg''"
  shows "\<exists>m. ev = TopicMessage m \<and> e = topicEvent m \<and>
    EqualFold (m_topic m) (case Hub_User h key of Some u \<Rightarrow> u_topic u | None \<Rightarrow> '''')"
  using assms by (cases ev) (auto simp: web_filter_def Let_def no_event_def privateEvent_def split: if_splits)

text \<open>A stream and its life: opened, then stepped while anything may happen to the server in between.\<close>

inductive sse_reach :: "string \<Rightarrow> sse \<times> ('s, 'c, 'k) server \<Rightarrow> bool" where
  sse_open: "sse_reach call (events_open call s)"
| sse_step: "sse_reach call es \<Longrightarrow> sse_reach call (events_step es)"
| sse_other: "sse_reach call (es, s) \<Longrightarrow> sse_reach call (es, s')"

lemma enter_key: "normCall (uk_call (fst (enter call s))) = normCall call"
proof -
  let ?u = "mk_user call '''' '''' \<lparr>o_node = h_ourNode (ws_hub s), o_local = True, o_link = ''''\<rparr>"
  have "normCall (uk_call (User_Key u)) = normCall call" if "snd (Hub_Join (ws_hub s) ?u) = Inr u" for u
    using that by (auto simp: Hub_Join_def Let_def split_def User_Key_def mk_user_def split: if_splits option.splits)
  then show ?thesis by (simp add: enter_eq Let_def split_def split: sum.split)
qed

lemma sse_reach_own:
  "sse_reach call es \<Longrightarrow> normCall (uk_call (ss_key (fst es))) = normCall call \<and>
     (\<forall>e \<in> set (ss_sent (fst es)). we_Type e = ''private'' \<longrightarrow> own_dm call e)"
proof (induction rule: sse_reach.induct)
  case (sse_open call s)
  then show ?case using enter_key [of call s] by (auto simp: events_open_def Let_def split_def)
next
  case (sse_step call es)
  have "own_dm call e" if "web_filter h (ss_key (fst es)) ev = Some e" "we_Type e = ''private''" for h :: "'a hub" and ev e
    using web_filter_private [OF that] sse_step.IH own_dm_norm by metis
  with sse_step show ?case by (auto simp: events_step_def split: option.splits prod.splits)
qed simp

text \<open>
  C10: direct messages are shown to their two parties only. Every private event a viewer's
  stream ever carries, whatever happens in the hub while it is open, and every message of the
  direct-message history the server answers with, was sent by the viewer or addressed to them; it is
  put in the thread of the other party, and marked as their own only when they sent it.
\<close>

theorem viewer_sees_own_dms:
  assumes "sql_order ord" "h_vt (ws_hub s) = Sqlite ord"
    and "resolveViewer r s = Some call" "sse_reach call (es, s)"
  shows "(\<forall>e \<in> set (ss_sent es). we_Type e = ''private'' \<longrightarrow> own_dm call e)
    \<and> (\<exists>dms. handleDMs r s = (s, writeJSON (Events dms)) \<and> length dms \<le> 200 \<and> (\<forall>e \<in> set dms. own_dm call e))"
proof -
  let ?ms = "privateHistoryFor s call"
  have rows: "m \<in> set ?ms \<Longrightarrow> normCall (m_fromCall m) = normCall call \<or> normCall (m_toCall m) = normCall call" for m
    using assms(2)
    by (auto simp: privateHistoryFor_def Hub_PrivateHistory_def Sqlite_PrivateHistory_def split: option.splits
        dest!: sql_order_subset [OF assms(1)] NOCASE_normCall)
  have "length ?ms \<le> 200"
    using assms(2) by (auto simp: privateHistoryFor_def Hub_PrivateHistory_def Sqlite_PrivateHistory_def sql_limit_def split: option.splits)
  moreover have "handleDMs r s = (s, writeJSON (Events (map (\<lambda>m. privateEvent m call) ?ms)))"
    using assms(3) by (simp add: handleDMs_def requireViewer_def)
  moreover have "\<forall>e \<in> set (map (\<lambda>m. privateEvent m call) ?ms). own_dm call e"
    using rows own_dm_privateEvent by (auto simp only: set_map)
  ultimately have "\<exists>dms. handleDMs r s = (s, writeJSON (Events dms)) \<and> length dms \<le> 200 \<and> (\<forall>e \<in> set dms. own_dm call e)"
    by (intro exI [of _ "map (\<lambda>m. privateEvent m call) ?ms"]) simp
  then show ?thesis using sse_reach_own [OF assms(4)] by simp
qed

definition dm_row :: msg_row where
  "dm_row = \<lparr>r_id = ''x'', r_origin_node = ''M0LTE-4'', r_from_call = ''G8PZT'', r_kind = KindPrivate, r_topic = '''',
     r_to_call = ''M0LTE'', r_ts = 5, r_text = ''hi''\<rparr>"

definition web_sql :: "(sql_store, sql_store, sql_store) server" where
  "web_sql = Web_New ''M0LTE-4'' (NewHub ''M0LTE-4'' (Sqlite insertion_order) (Sqlite_Open\<lparr>sq_messages := [dm_row]\<rparr>) id int)
     sqlite_claims (Some demo_claims) None"

theorem viewer_sees_own_dms_witness:
  "\<exists>es. sse_reach ''M0LTE'' (es, web_sql) \<and>
     (\<exists>dms. handleDMs (get_request '''' '''' ''/dms'') web_sql = (web_sql, writeJSON (Events dms)) \<and> (\<forall>e \<in> set dms. own_dm ''M0LTE'' e))"
proof -
  have "h_vt (ws_hub web_sql) = Sqlite insertion_order" by (simp add: web_sql_def Web_New_def NewHub_vt)
  moreover have "resolveViewer (get_request '''' '''' ''/dms'') web_sql = Some ''M0LTE''"
    by (simp add: resolveViewer_def web_sql_def Web_New_def web_baseCall_def)
  moreover obtain es s where "events_open ''M0LTE'' web_sql = (es, s)" by fastforce
  then have "sse_reach ''M0LTE'' (es, web_sql)" using sse_open [of "''M0LTE''" web_sql] by (auto intro: sse_other)
  ultimately show ?thesis using viewer_sees_own_dms [OF sql_order_insertion] by blast
qed

end
