(* ===== verification/Web_Presence.thy ===== *)
theory Web_Presence
  imports Web_Spec
begin

text \<open>
  Presence of web viewers: the count of open streams against the users of the hub, through any
  sequence of streams and requests; what the interleaving of a closing and an opening stream does;
  and the settings pane, which works on the present user.
\<close>

subsection \<open>Presence\<close>

text \<open>Which users the operations a request runs keep in the hub: all of them.\<close>

definition stays :: "'s hub \<Rightarrow> 's hub \<Rightarrow> bool" where
  "stays h h' \<longleftrightarrow> hub_inv h' \<and> h_ourNode h' = h_ourNode h \<and> (\<forall>k. map_of (h_users h) k \<noteq> None \<longrightarrow> map_of (h_users h') k \<noteq> None)"

lemma stays_ops:
  assumes "hub_inv h"
  shows "stays h (fst (Hub_Post h k t))" "stays h (fst (Hub_Private h k c t))" "stays h (fst (Hub_SetTopic h k n))"
    "stays h (fst (Hub_SetInfo h k nm q))" "stays h (fst (Hub_SetFlags h k f))" "stays h (fst (Hub_Join h u))"
proof -
  show "stays h (fst (Hub_Post h k t))"
    using assms by (simp add: stays_def inv_intros hub_ops_sel) (simp add: Post_eq split: option.split)
  show "stays h (fst (Hub_Private h k c t))"
    using assms by (simp add: stays_def inv_intros hub_ops_sel) (simp add: Private_eq)
  show "stays h (fst (Hub_SetTopic h k n))"
    using assms by (simp add: stays_def inv_intros SetTopic_sel) (simp add: Hub_SetTopic_def Let_def split_def split: option.split)
  show "stays h (fst (Hub_SetInfo h k nm q))"
    using assms by (simp add: stays_def inv_intros hub_ops_sel) (simp add: Hub_SetInfo_def Let_def split: option.split)
  show "stays h (fst (Hub_SetFlags h k f))"
    using assms by (simp add: stays_def inv_intros) (simp add: Hub_SetFlags_def Let_def split: option.split)
  show "stays h (fst (Hub_Join h u))"
    using assms by (simp add: stays_def inv_intros) (simp add: Hub_Join_def Let_def split_def split: option.split)
qed

lemma stays_refl: "hub_inv h \<Longrightarrow> stays h h"
  by (simp add: stays_def)

lemma stays_trans: "stays h h1 \<Longrightarrow> stays h1 h2 \<Longrightarrow> stays h h2"
  by (simp add: stays_def)

lemma Leave_users: "map_of (h_users (Hub_Leave h k)) k' = (if k' = canonKey k then None else map_of (h_users h) k')"
  by (auto simp: Hub_Leave_def Let_def split: option.splits)

lemma stays_Leave: "stays h h' \<Longrightarrow> map_of (h_users h) (canonKey k) = None \<Longrightarrow> stays h (Hub_Leave h' k)"
  by (auto simp: stays_def inv_intros Leave_users)

definition undisturbed :: "('s, 'c, 'k) server \<Rightarrow> ('s, 'c, 'k) server \<Rightarrow> bool" where
  "undisturbed s s' \<longleftrightarrow> ws_ref s' = ws_ref s \<and> stays (ws_hub s) (ws_hub s')"

lemma undisturbed_refl: "hub_inv (ws_hub s) \<Longrightarrow> undisturbed s s"
  by (simp add: undisturbed_def stays_refl)

lemma undisturbed_reply: "stays (ws_hub s) (fst hr) \<Longrightarrow> undisturbed s (fst (hub_reply s hr))"
  by (simp add: undisturbed_def hub_reply_def)

lemma undisturbed_settings:
  assumes "hub_inv (ws_hub s)"
  shows "undisturbed s (fst (apply_settings v k s))"
proof -
  let ?h = "fst (Hub_SetInfo (ws_hub s) k (sv_Name v) (sv_QTH v))"
  have a: "stays (ws_hub s) ?h" using assms by (rule stays_ops)
  then have "stays ?h (fst (Hub_SetFlags ?h k (sv_Flags v)))" by (intro stays_ops) (simp add: stays_def)
  with a stays_trans show ?thesis
    by (auto simp: undisturbed_def apply_settings_def Let_def split_def split: sum.split)
qed

abbreviation here :: "('s, 'c, 'k) server \<Rightarrow> string \<Rightarrow> user option" where
  "here s call \<equiv> Hub_User (ws_hub s) (UserKey call (h_ourNode (ws_hub s)))"

text \<open>The hub and the count agree: a callsign with open streams is canonical and its user is present.\<close>

definition presence_ok :: "('s, 'c, 'k) server \<Rightarrow> bool" where
  "presence_ok s \<longleftrightarrow> hub_inv (ws_hub s) \<and> h_ourNode (ws_hub s) \<noteq> '''' \<and>
     (\<forall>c. ws_ref s c > 0 \<longrightarrow> normCall c = c \<and> here s c \<noteq> None)"

lemma presence_ok_undisturbed: "presence_ok s \<Longrightarrow> undisturbed s s' \<Longrightarrow> presence_ok s'"
  by (auto simp: presence_ok_def undisturbed_def stays_def Hub_User_def)

lemma enter_hub_state:
  assumes "presence_ok s"
  shows "stays (ws_hub s) (ws_hub (snd (enter call s)))"
  using assms stays_ops(6) [of "ws_hub s"] by (auto simp: enter_eq presence_ok_def Let_def split_def intro: stays_refl)

lemma enter_present:
  assumes "presence_ok s" "normCall call = call" "call \<noteq> ''''"
  shows "presence_ok (snd (enter call s))" "here (snd (enter call s)) call \<noteq> None"
proof -
  let ?u = "mk_user call '''' '''' \<lparr>o_node = h_ourNode (ws_hub s), o_local = True, o_link = ''''\<rparr>"
  have inv: "hub_inv (ws_hub s)" and n: "normCall (h_ourNode (ws_hub s)) = h_ourNode (ws_hub s)" "h_ourNode (ws_hub s) \<noteq> ''''"
    using assms(1) by (auto simp: presence_ok_def hub_inv_def)
  show h: "here (snd (enter call s)) call \<noteq> None"
  proof (cases "ws_ref s call = 0")
    case True
    then show ?thesis
      using Join_result(1) [OF inv, of ?u] assms n by (simp add: enter_eq Let_def split_def mk_user_def)
  next
    case False
    then show ?thesis using assms(1) by (simp add: enter_eq presence_ok_def Let_def split_def)
  qed
  show "presence_ok (snd (enter call s))"
    using h enter_hub_state [OF assms(1), of call] assms by (auto simp: presence_ok_def stays_def Hub_User_def)
qed

text \<open>Leaving takes at most the leaving callsign's own user out, and only with its last stream.\<close>

lemma leave_present:
  assumes "presence_ok s" "normCall call = call"
  shows "presence_ok (leave call s)"
proof -
  have inv: "hub_inv (ws_hub (leave call s))" using assms(1) by (auto simp: leave_eq presence_ok_def inv_intros)
  have "normCall c = c \<and> here (leave call s) c \<noteq> None" if c: "ws_ref (leave call s) c > 0" for c
  proof (cases "c = call")
    case True
    then have "ws_ref s call > 1" using c by simp
    then show ?thesis using assms True by (simp add: leave_eq presence_ok_def)
  next
    case False
    then have "ws_ref s c > 0" using c by simp
    then have p: "normCall c = c" "here s c \<noteq> None" using assms(1) by (auto simp: presence_ok_def)
    moreover have "canonKey (UserKey c n) \<noteq> canonKey (UserKey call n)" for n using False p(1) assms(2) by (simp add: canonKey_def)
    ultimately show ?thesis by (auto simp: leave_eq Hub_User_def Hub_Leave_def Let_def split: option.splits)
  qed
  then show ?thesis using inv assms(1) by (simp add: presence_ok_def)
qed

lemma undisturbed_with_presence:
  assumes ok: "presence_ok s" and call: "normCall call = call"
    and f: "\<And>k s. hub_inv (ws_hub s) \<Longrightarrow> undisturbed s (fst (f k s))"
  shows "undisturbed s (fst (with_presence call f s))"
proof (cases "here s call = None")
  case False
  then show ?thesis using ok f by (simp add: with_presence_def presence_ok_def)
next
  case True
  let ?k = "fst (enter call s)" and ?s = "snd (enter call s)" and ?key = "canonKey (UserKey call (h_ourNode (ws_hub s)))"
  have r: "ws_ref s call = 0" using ok True by (auto simp: presence_ok_def)
  have e: "stays (ws_hub s) (ws_hub ?s)" using ok by (rule enter_hub_state)
  then have "undisturbed ?s (fst (f ?k ?s))" by (intro f) (simp add: stays_def)
  then have st: "stays (ws_hub s) (ws_hub (fst (f ?k ?s)))" "ws_ref (fst (f ?k ?s)) = (ws_ref s)(call := 1)"
    using e r stays_trans by (auto simp: undisturbed_def)
  have w: "fst (with_presence call f s) = leave call (fst (f ?k ?s))"
    using True by (simp add: with_presence_def Let_def split_def)
  have "map_of (h_users (ws_hub s)) ?key = None" using True by (simp add: Hub_User_def)
  with st(1) have "stays (ws_hub s) (Hub_Leave (ws_hub (fst (f ?k ?s))) (UserKey call (h_ourNode (ws_hub s))))"
    by (rule stays_Leave)
  then show ?thesis
    unfolding w using st r by (auto simp: undisturbed_def leave_eq stays_def fun_eq_iff)
qed

lemma undisturbed_serve_http:
  assumes ok: "presence_ok s" and call: "\<And>call. resolveViewer r s = Some call \<Longrightarrow> normCall call = call" and p: "rq_path r \<noteq> ''/events''"
  shows "undisturbed s (fst (serve_http t r s))"
proof -
  have inv: "hub_inv (ws_hub s)" using ok by (simp add: presence_ok_def)
  note refl = undisturbed_refl [OF inv]
  have h: "undisturbed s (fst (handleSend q s))" "undisturbed s (fst (handleTopic q s))" "undisturbed s (fst (handleDM q s))"
    "undisturbed s (fst (handleSettings q s))" if "resolveViewer q s = resolveViewer r s" for q
    using that call refl inv
    by (auto simp: handleSend_def handleTopic_def handleDM_def handleSettings_def handler_defs Let_def split: option.splits
        intro!: undisturbed_with_presence [OF ok] undisturbed_reply undisturbed_settings undisturbed_refl stays_ops)
  have k: "undisturbed s (fst (handleClaim t q s))" "undisturbed s (fst (handlePeersAllow q s))" for q
    using refl handleClaim_keeps(2) [of t q s] handlePeersAllow_keeps(1) [of q s]
    by (auto simp: undisturbed_def handleClaim_def handlePeersAllow_def handler_defs Let_def split_def
        split: option.splits sum.splits claim_error.splits)
  have "undisturbed s (fst (mux t q s))" if "resolveViewer q s = resolveViewer r s" "rq_path q = rq_path r" for q
    using h [OF that(1)] k [of q] refl p that(2) by (simp add: mux_def readers_keep)
  moreover have "resolveViewer (r\<lparr>rq_prefix := x\<rparr>) s = resolveViewer r s" for x
    by (simp add: resolveViewer_def IdentityFromRequest_def)
  ultimately show ?thesis using refl by (simp add: serve_http_def gatewayTrust_def)
qed

text \<open>
  The server over time, with the multiset of the callsigns of its open streams: streams open, run
  and close, requests are served, and the rest of the program changes the hub without logging
  anybody out. Each is one step.
\<close>

inductive web_reach :: "('s, 'c, 'k) server \<times> string multiset \<Rightarrow> bool" where
  web_start: "hub_inv h \<Longrightarrow> h_ourNode h \<noteq> '''' \<Longrightarrow> web_reach (Web_New callsign h cvt claims fed, {#})"
| web_open: "web_reach (s, T) \<Longrightarrow> normCall call = call \<Longrightarrow> call \<noteq> '''' \<Longrightarrow>
    web_reach (snd (events_open call s), add_mset call T)"
| web_event: "web_reach (s, T) \<Longrightarrow> web_reach (snd (events_step (es, s)), T)"
| web_close: "web_reach (s, T) \<Longrightarrow> ss_call es \<in># T \<Longrightarrow> web_reach (events_close (es, s), T - {#ss_call es#})"
| web_request: "web_reach (s, T) \<Longrightarrow> rq_path r \<noteq> ''/events'' \<Longrightarrow> \<forall>call. resolveViewer r s = Some call \<longrightarrow> normCall call = call \<Longrightarrow>
    web_reach (fst (serve_http t r s), T)"
| web_other: "web_reach (s, T) \<Longrightarrow> stays (ws_hub s) h \<Longrightarrow> web_reach (s\<lparr>ws_hub := h\<rparr>, T)"

lemma presence_ok_hub:
  "presence_ok s \<Longrightarrow> stays (ws_hub s) h \<Longrightarrow> presence_ok (s\<lparr>ws_hub := h\<rparr>)"
  by (rule presence_ok_undisturbed) (simp_all add: undisturbed_def)

lemma stays_subs:
  assumes "hub_inv h"
  shows "stays h (snd (Hub_Subscribe h))" "stays h (Hub_cancel h i)" "stays h (snd (Hub_recv h i))"
proof -
  show "stays h (snd (Hub_Subscribe h))" "stays h (Hub_cancel h i)"
    using assms by (simp_all add: stays_def inv_intros) (simp_all add: Hub_Subscribe_def Hub_cancel_def Let_def)
  show "stays h (snd (Hub_recv h i))"
    using assms by (simp add: stays_def inv_intros) (simp add: Hub_recv_def split: option.split list.split)
qed

lemma presence_inv_hub: "presence_ok s \<Longrightarrow> hub_inv (ws_hub s)"
  by (simp add: presence_ok_def)

lemma web_reach_ok:
  "web_reach st \<Longrightarrow> presence_ok (fst st) \<and> (\<forall>c. ws_ref (fst st) c = count (snd st) c)"
proof (induction rule: web_reach.induct)
  case (web_start h callsign cvt claims fed)
  then show ?case by (simp add: presence_ok_def Web_New_def)
next
  case (web_open s T call)
  let ?s = "snd (enter call s)"
  have ok: "presence_ok ?s" using web_open by (intro enter_present) simp_all
  have e: "snd (events_open call s) = ?s\<lparr>ws_hub := snd (Hub_Subscribe (ws_hub ?s))\<rparr>"
    by (simp add: events_open_def Let_def split_def)
  show ?case using presence_ok_hub [OF ok stays_subs(1) [OF presence_inv_hub [OF ok]]] web_open.IH by (simp add: e)
next
  case (web_event s T es)
  then have ok: "presence_ok s" by simp
  have "presence_ok (s\<lparr>ws_hub := snd (Hub_recv (ws_hub s) (ss_sub es))\<rparr>)"
    using presence_ok_hub [OF ok stays_subs(3) [OF presence_inv_hub [OF ok]]] .
  then show ?case using web_event.IH by (auto simp: events_step_def split: option.split prod.split)
next
  case (web_close s T es)
  then have ok: "presence_ok s" and n: "ws_ref s (ss_call es) > 0" by auto
  let ?s = "s\<lparr>ws_hub := Hub_cancel (ws_hub s) (ss_sub es)\<rparr>"
  have "presence_ok ?s" using presence_ok_hub [OF ok stays_subs(2) [OF presence_inv_hub [OF ok]]] .
  then have "presence_ok (leave (ss_call es) ?s)" by (rule leave_present) (use ok n in \<open>simp add: presence_ok_def\<close>)
  then show ?case using web_close.IH by (simp add: events_close_def)
next
  case (web_request s T r t)
  then have "undisturbed s (fst (serve_http t r s))" by (intro undisturbed_serve_http) auto
  then show ?case using web_request.IH presence_ok_undisturbed by (auto simp: undisturbed_def)
next
  case (web_other s T h)
  then show ?case using presence_ok_hub [of s h] by simp
qed


lemma web_demo_reach: "web_reach (web_demo, {#})"
proof -
  have "h_ourNode demo_hub \<noteq> ''''" by code_simp
  then show ?thesis unfolding web_demo_def by (intro web_start demo_hub_inv)
qed


subsection \<open>Interleaving of enter and leave\<close>

text \<open>
  \<^verbatim>\<open>enter\<close> and \<^verbatim>\<open>leave\<close> are not atomic: the hub is called after the mutex is
  released. When the last stream of a callsign closes while a new one opens, the count is taken to
  zero and back to one, the new stream joins the hub, and then the old one leaves it: the user is
  logged out although the count says that a stream is open.
\<close>

theorem reconnect_logs_out:
  assumes ok: "presence_ok s" and one: "ws_ref s call = 1" "call \<noteq> ''''"
    and old: "leave_count call s = (final, s1)" and new: "enter call s1 = (key, s2)"
  shows "final \<and> here s2 call \<noteq> None \<and> ws_ref (leave_hub call final s2) call = 1 \<and> here (leave_hub call final s2) call = None"
proof -
  have s1: "final" "s1 = s\<lparr>ws_ref := (ws_ref s)(call := 0)\<rparr>" using old one by (auto simp: leave_count_def Let_def)
  have "presence_ok s1" using ok by (simp add: s1 presence_ok_def)
  moreover have "normCall call = call" using ok one by (simp add: presence_ok_def)
  ultimately have "here s2 call \<noteq> None" using enter_present(2) [of s1 call] one(2) new by simp
  moreover have "ws_ref s2 call = 1" using arg_cong [OF new, of "\<lambda>x. ws_ref (snd x) call"] s1(2) by simp
  ultimately show ?thesis using s1(1) by (simp add: leave_hub_def Hub_User_def Leave_users)
qed

theorem reconnect_logs_out_witness:
  "\<exists>s :: (mem_store, sql_store, sql_store) server. presence_ok s \<and> ws_ref s ''M0ABC'' = 1 \<and>
     here (leave_hub ''M0ABC'' True (snd (enter ''M0ABC'' (snd (leave_count ''M0ABC'' s))))) ''M0ABC'' = None"
proof -
  let ?s = "snd (enter ''M0ABC'' web_demo)"
  have c: "normCall ''M0ABC'' = ''M0ABC''" by code_simp
  have ok: "presence_ok ?s" using web_reach_ok [OF web_demo_reach] c by (intro enter_present) simp_all
  have one: "ws_ref ?s ''M0ABC'' = 1" by (simp add: web_demo_def Web_New_def)
  have l: "leave_count ''M0ABC'' ?s = (True, snd (leave_count ''M0ABC'' ?s))" using one by (simp add: leave_count_def Let_def)
  show ?thesis using reconnect_logs_out [OF ok one _ l prod.collapse [symmetric]] ok one by (intro exI [of _ ?s]) simp
qed

subsection \<open>Settings\<close>

lemma SetInfo_user:
  assumes "map_of (h_users h) (canonKey k) = Some u"
  shows "map_of (h_users (fst (Hub_SetInfo h k n q))) (canonKey k) = Some (u\<lparr>u_name := n, u_qth := q\<rparr>)"
    "\<exists>b. snd (Hub_SetInfo h k n q) = Inr b"
  using assms by (auto simp: Hub_SetInfo_def Let_def)

lemma SetFlags_user:
  assumes "map_of (h_users h) (canonKey k) = Some u"
  shows "map_of (h_users (fst (Hub_SetFlags h k f))) (canonKey k) = Some (u\<lparr>u_flags := f\<rparr>)"
    "\<exists>b. snd (Hub_SetFlags h k f) = Inr b"
  using assms by (auto simp: Hub_SetFlags_def Let_def)

lemma settings_eta: "\<lparr>sv_Name = sv_Name v, sv_QTH = sv_QTH v, sv_Flags = sv_Flags v\<rparr> = v"
  by (cases v) simp

lemma apply_settings_user:
  assumes "Hub_User (ws_hub s) k = Some u"
  shows "Hub_User (ws_hub (fst (apply_settings v k s))) k = Some (u\<lparr>u_name := sv_Name v, u_qth := sv_QTH v, u_flags := sv_Flags v\<rparr>)"
    and "snd (apply_settings v k s) = writeJSON (Settings v)"
proof -
  let ?h = "fst (Hub_SetInfo (ws_hub s) k (sv_Name v) (sv_QTH v))"
  note i = SetInfo_user [of "ws_hub s" k u "sv_Name v" "sv_QTH v"]
  have h: "map_of (h_users ?h) (canonKey k) = Some (u\<lparr>u_name := sv_Name v, u_qth := sv_QTH v\<rparr>)"
    using i assms by (simp add: Hub_User_def)
  note f = SetFlags_user [OF h, of "sv_Flags v"]
  have e: "apply_settings v k s = (let s' = s\<lparr>ws_hub := fst (Hub_SetFlags ?h k (sv_Flags v))\<rparr>
      in (s', writeJSON (Settings (current_settings k s'))))"
    using i(2) f(2) assms by (auto simp: apply_settings_def Let_def split_def Hub_User_def split: sum.split)
  show "Hub_User (ws_hub (fst (apply_settings v k s))) k = Some (u\<lparr>u_name := sv_Name v, u_qth := sv_QTH v, u_flags := sv_Flags v\<rparr>)"
    using f(1) by (simp add: e Hub_User_def Let_def)
  then show "snd (apply_settings v k s) = writeJSON (Settings v)"
    by (simp add: e Let_def current_settings_def viewFromUser_def settings_eta)
qed

lemma leave_absent: "ws_ref s call \<le> 1 \<Longrightarrow> here (leave call s) call = None"
  by (simp add: leave_eq Hub_User_def Leave_users)

lemma enter_fresh:
  assumes "presence_ok s" "ws_ref s call = 0" "normCall call = call" "call \<noteq> ''''"
  shows "\<exists>u. Hub_User (ws_hub (snd (enter call s))) (fst (enter call s)) = Some u \<and>
    viewFromUser u = \<lparr>sv_Name = '''', sv_QTH = '''', sv_Flags = zero_flags\<rparr> \<and>
    canonKey (fst (enter call s)) = canonKey (UserKey call (h_ourNode (ws_hub s)))"
proof -
  let ?u = "mk_user call '''' '''' \<lparr>o_node = h_ourNode (ws_hub s), o_local = True, o_link = ''''\<rparr>"
  have inv: "hub_inv (ws_hub s)" and n: "normCall (h_ourNode (ws_hub s)) = h_ourNode (ws_hub s)" "h_ourNode (ws_hub s) \<noteq> ''''"
    using assms(1) by (auto simp: presence_ok_def hub_inv_def)
  have c: "normCall (u_call ?u) \<noteq> ''''" "normCall (o_node (u_origin ?u)) \<noteq> ''''" using assms(3,4) n by (simp_all add: mk_user_def)
  have r: "snd (Hub_Join (ws_hub s) ?u) = Inr (joined (ws_hub s) ?u)"
    by (rule Join_accepted [OF inv c]) simp
  have k: "User_Key (joined (ws_hub s) ?u) = UserKey call (h_ourNode (ws_hub s))"
    using assms(3) n(1) by (simp add: mk_user_def canonKey_def)
  show ?thesis
    using Join_result(1) [OF inv c] r k assms(2,3) n(1)
    by (simp add: enter_eq Let_def split_def viewFromUser_def mk_user_def)
qed

lemma owner_kept: "ws_ownerCall (fst (handleSettings r s)) = ws_ownerCall s"
  by (auto simp: handleSettings_def handler_defs apply_settings_def Let_def split_def split: option.split sum.split
      intro!: with_presence_keeps [where g = ws_ownerCall])

text \<open>
  C22: a settings change of a present viewer takes: it is answered with the settings sent,
  and the next read, while the viewer stays present, answers with them again. A viewer who is not
  present (a client without an open stream) gets the same answer, but the user the change was made
  on is gone when the request ends, and the next read answers with blank settings.
\<close>

theorem settings_kept_while_present:
  assumes ok: "presence_ok s" and call: "normCall call = call" "call \<noteq> ''''"
    and r: "resolveViewer r s = Some call" "rq_method r = ''POST''" "canWrite (IdentityFromRequest r)" "rq_settings r = Some v"
    and post: "handleSettings r s = (s', resp)" and g: "resolveViewer g s' = Some call" "rq_method g = ''GET''"
  shows "resp = writeJSON (Settings v) \<and> snd (handleSettings g s') =
    writeJSON (Settings (if here s call \<noteq> None then v else \<lparr>sv_Name = '''', sv_QTH = '''', sv_Flags = zero_flags\<rparr>))"
proof -
  let ?key = "UserKey call (h_ourNode (ws_hub s))"
  have w: "with_presence call (apply_settings v) s = (s', resp)"
    using post r by (simp add: handleSettings_def handler_defs with_presence_def Let_def)
  have ok': "presence_ok s'"
    using undisturbed_with_presence [OF ok call(1), of "apply_settings v"] undisturbed_settings presence_ok_undisturbed [OF ok] w
    by (metis fst_conv)
  have get: "snd (handleSettings g s') = snd (with_presence call (\<lambda>k s. (s, writeJSON (Settings (current_settings k s)))) s')"
    using g by (simp add: handleSettings_def handler_defs)
  show ?thesis
  proof (cases "here s call")
    case (Some u)
    then have a: "s' = fst (apply_settings v ?key s)" "resp = snd (apply_settings v ?key s)"
      using w by (auto simp: with_presence_def Let_def)
    note u = apply_settings_user [OF Some, of v]
    have "h_ourNode (ws_hub s') = h_ourNode (ws_hub s)"
      using undisturbed_settings [of s v ?key] ok a(1) by (simp add: undisturbed_def stays_def presence_ok_def)
    then show ?thesis
      using u a Some get by (simp add: with_presence_def Let_def current_settings_def viewFromUser_def settings_eta)
  next
    case None
    then have ref: "ws_ref s call = 0" using ok by (auto simp: presence_ok_def)
    obtain u where u: "Hub_User (ws_hub (snd (enter call s))) (fst (enter call s)) = Some u" using enter_fresh [OF ok ref call] by blast
    let ?x = "apply_settings v (fst (enter call s)) (snd (enter call s))"
    have a: "s' = leave call (fst ?x)" "resp = snd ?x"
      using None w by (auto simp: with_presence_def Let_def split_def)
    have "ws_ref (fst ?x) call = 1" using ref undisturbed_settings [of "snd (enter call s)" v] enter_present(1) [OF ok call]
      by (simp add: undisturbed_def presence_ok_def)
    then have gone: "here s' call = None" using a(1) leave_absent [of "fst ?x" call] by simp
    then have ref': "ws_ref s' call = 0" using ok' by (auto simp: presence_ok_def)
    show ?thesis
      using enter_fresh [OF ok' ref' call] gone get apply_settings_user(2) [OF u, of v] a(2) None
      by (auto simp: with_presence_def Let_def split_def current_settings_def)
  qed
qed

definition settings_request :: "string \<Rightarrow> string \<Rightarrow> settings_view \<Rightarrow> request" where
  "settings_request user sc v = (get_request user sc ''/settings'')\<lparr>rq_method := ''POST'', rq_settings := Some v\<rparr>"

definition demo_settings :: settings_view where
  "demo_settings = \<lparr>sv_Name = ''Tom'', sv_QTH = ''Reading'', sv_Flags = zero_flags\<rparr>"

theorem settings_kept_while_present_witness:
  "presence_ok web_demo \<and> here web_demo ''M0LTE'' = None \<and>
   (\<exists>s'. handleSettings (settings_request '''' '''' demo_settings) web_demo = (s', writeJSON (Settings demo_settings)) \<and>
      snd (handleSettings (get_request '''' '''' ''/settings'') s') =
        writeJSON (Settings \<lparr>sv_Name = '''', sv_QTH = '''', sv_Flags = zero_flags\<rparr>))"
proof -
  let ?r = "settings_request '''' '''' demo_settings" and ?g = "get_request '''' '''' ''/settings''"
  have ok: "presence_ok web_demo" using web_reach_ok [OF web_demo_reach] by simp
  have c: "normCall ''M0LTE'' = ''M0LTE''" "Hub_User demo_hub (UserKey ''M0LTE'' (h_ourNode demo_hub)) = None" by code_simp+
  then have n: "here web_demo ''M0LTE'' = None" by (simp add: web_demo_def Web_New_def)
  have id: "IdentityFromRequest ?r = \<lparr>id_User = '''', id_Scope = '''', id_Gateway = True\<rparr>"
    by (simp add: settings_request_def IdentityFromRequest_def get_request_def)
  then have r: "resolveViewer ?r web_demo = Some ''M0LTE''" "rq_method ?r = ''POST''" "canWrite (IdentityFromRequest ?r)"
    "rq_settings ?r = Some demo_settings"
    by (simp_all add: resolveViewer_def canWrite_def web_demo_def Web_New_def web_baseCall_def settings_request_def)
  obtain s' resp where p: "handleSettings ?r web_demo = (s', resp)" by fastforce
  have "ws_ownerCall (fst (handleSettings ?r web_demo)) = ''M0LTE''"
    using owner_kept [of ?r web_demo] by (simp add: web_demo_def Web_New_def web_baseCall_def)
  then have "resolveViewer ?g s' = Some ''M0LTE''" using p by (simp add: resolveViewer_def)
  then show ?thesis using settings_kept_while_present [OF ok c(1) _ r p] ok n p by (auto simp: get_request_def)
qed

end
