(* ===== verification/Node_Stream.thy ===== *)
theory Node_Stream
  imports Go_Strings
begin

text \<open>
  \<^verbatim>\<open>internal/node/stream.go\<close> and the part of \<^verbatim>\<open>node.go\<close> that routes pushes: an
  RHP child handle as a byte stream. Stream objects are shared: the demultiplexer finds them by
  handle, a reader holds on to one after its handle is gone. So they live in a heap
  (\<open>dm_objs\<close>) and the table maps handles to addresses. A read that would wait is
  \<open>ReadBlocks\<close>.

  \<^verbatim>\<open>registerStream\<close> publishes the stream under the lock and hands over what was buffered
  after releasing it; the two halves are separate definitions. When no push comes between them,
  the reader gets exactly the bytes received for its handle, in order; two lemmas show what a push
  in between does.
\<close>

record rhp_stream =
  rs_handle :: int
  rs_buf :: string
  rs_closed :: bool
  rs_deadline :: time

definition newRhpStream :: "int \<Rightarrow> rhp_stream" where
  "newRhpStream handle = \<lparr>rs_handle = handle, rs_buf = '''', rs_closed = False, rs_deadline = 0\<rparr>"

definition stream_feed :: "string \<Rightarrow> rhp_stream \<Rightarrow> rhp_stream" where
  "stream_feed data s = (if \<not> rs_closed s then s\<lparr>rs_buf := rs_buf s @ data\<rparr> else s)"

definition markClosed :: "rhp_stream \<Rightarrow> rhp_stream" where
  "markClosed s = s\<lparr>rs_closed := True\<rparr>"

definition SetReadDeadline :: "time \<Rightarrow> rhp_stream \<Rightarrow> rhp_stream" where
  "SetReadDeadline t s = s\<lparr>rs_deadline := t\<rparr>"

datatype read_result = ReadOk string | ReadEOF | ReadDeadlineExceeded | ReadBlocks

text \<open>\<^verbatim>\<open>Read\<close> into a buffer of \<open>n\<close> bytes, at the time \<open>now\<close>.\<close>

definition stream_Read :: "nat \<Rightarrow> time \<Rightarrow> rhp_stream \<Rightarrow> read_result \<times> rhp_stream" where
  "stream_Read n now s =
     (if rs_buf s = '''' \<and> \<not> rs_closed s then
        (if \<not> isZero (rs_deadline s) \<and> \<not> now < rs_deadline s then (ReadDeadlineExceeded, s) else (ReadBlocks, s))
      else if rs_buf s = '''' then (ReadEOF, s)
      else (ReadOk (take n (rs_buf s)), s\<lparr>rs_buf := drop n (rs_buf s)\<rparr>))"

subsection \<open>The demultiplexer\<close>

record demux =
  dm_objs :: "nat \<Rightarrow> rhp_stream"
  dm_next :: nat
  dm_streams :: "int \<rightharpoonup> nat"
  dm_pendingRecv :: "int \<Rightarrow> string list"
  dm_pendingClosed :: "int \<Rightarrow> bool"

definition new_demux :: demux where
  "new_demux = \<lparr>dm_objs = (\<lambda>_. newRhpStream 0), dm_next = 0, dm_streams = Map.empty, dm_pendingRecv = (\<lambda>_. []),
     dm_pendingClosed = (\<lambda>_. False)\<rparr>"

definition on_obj :: "nat \<Rightarrow> (rhp_stream \<Rightarrow> rhp_stream) \<Rightarrow> demux \<Rightarrow> demux" where
  "on_obj a f d = d\<lparr>dm_objs := (dm_objs d)(a := f (dm_objs d a))\<rparr>"

definition alloc_stream :: "int \<Rightarrow> demux \<Rightarrow> nat \<times> demux" where
  "alloc_stream handle d =
     (dm_next d, d\<lparr>dm_objs := (dm_objs d)(dm_next d := newRhpStream handle), dm_next := Suc (dm_next d)\<rparr>)"

definition register_publish :: "int \<Rightarrow> nat \<Rightarrow> demux \<Rightarrow> (string list \<times> bool) \<times> demux" where
  "register_publish handle a d =
     ((dm_pendingRecv d handle, dm_pendingClosed d handle),
      d\<lparr>dm_streams := (dm_streams d)(handle \<mapsto> a), dm_pendingRecv := (dm_pendingRecv d)(handle := []),
        dm_pendingClosed := (dm_pendingClosed d)(handle := False)\<rparr>)"

definition register_drain :: "nat \<Rightarrow> string list \<times> bool \<Rightarrow> demux \<Rightarrow> demux" where
  "register_drain a p d =
     on_obj a (\<lambda>s. let s = fold stream_feed (fst p) s in if snd p then markClosed s else s) d"

definition registerStream :: "int \<Rightarrow> nat \<Rightarrow> demux \<Rightarrow> demux" where
  "registerStream handle a d = (let (p, d) = register_publish handle a d in register_drain a p d)"

definition Link_OnRecv :: "int \<Rightarrow> string \<Rightarrow> demux \<Rightarrow> demux" where
  "Link_OnRecv handle data d =
     (case dm_streams d handle of
        None \<Rightarrow> d\<lparr>dm_pendingRecv := (dm_pendingRecv d)(handle := dm_pendingRecv d handle @ [data])\<rparr>
      | Some a \<Rightarrow> on_obj a (stream_feed data) d)"

definition Link_OnClose :: "int \<Rightarrow> demux \<Rightarrow> demux" where
  "Link_OnClose handle d =
     (case dm_streams d handle of
        None \<Rightarrow> d\<lparr>dm_pendingClosed := (dm_pendingClosed d)(handle := True)\<rparr>
      | Some a \<Rightarrow> on_obj a markClosed (d\<lparr>dm_streams := (dm_streams d)(handle := None)\<rparr>))"

text \<open>What \<^verbatim>\<open>attachOnce\<close> does to the tables, and the deferred function of \<^verbatim>\<open>dialRFPeerOnce\<close>.\<close>

definition attach_reset :: "demux \<Rightarrow> demux" where
  "attach_reset d = d\<lparr>dm_streams := Map.empty\<rparr>"

definition forget_stream :: "int \<Rightarrow> nat \<Rightarrow> demux \<Rightarrow> demux" where
  "forget_stream handle a d = on_obj a markClosed (d\<lparr>dm_streams := (dm_streams d)(handle := None)\<rparr>)"

subsection \<open>Reading everything\<close>

text \<open>Read after read until one does not return bytes: what was read and how it ended.\<close>

function read_all :: "nat \<Rightarrow> time \<Rightarrow> rhp_stream \<Rightarrow> string \<times> read_result" where
  "read_all n now s =
     (case stream_Read (Suc n) now s of
        (ReadOk b, s') \<Rightarrow> (let (bs, r) = read_all n now s' in (b @ bs, r))
      | (r, s') \<Rightarrow> ('''', r))"
  by pat_completeness auto
termination
  by (relation "measure (\<lambda>(_, _, s). length (rs_buf s))")
     (auto simp: stream_Read_def split: if_splits)

declare read_all.simps [simp del]

lemma read_all_eq:
  "read_all n now s = (rs_buf s, if rs_closed s then ReadEOF
     else if \<not> isZero (rs_deadline s) \<and> \<not> now < rs_deadline s then ReadDeadlineExceeded else ReadBlocks)"
proof (induction n now s rule: read_all.induct)
  case (1 n now s)
  show ?case
  proof (cases "rs_buf s = ''''")
    case True
    then show ?thesis by (subst read_all.simps) (simp add: stream_Read_def)
  next
    case False
    then have r: "stream_Read (Suc n) now s = (ReadOk (take (Suc n) (rs_buf s)), s\<lparr>rs_buf := drop (Suc n) (rs_buf s)\<rparr>)"
      by (simp add: stream_Read_def)
    have ih: "read_all n now (s\<lparr>rs_buf := drop (Suc n) (rs_buf s)\<rparr>) = (drop (Suc n) (rs_buf s), if rs_closed s then ReadEOF
        else if \<not> isZero (rs_deadline s) \<and> \<not> now < rs_deadline s then ReadDeadlineExceeded else ReadBlocks)"
      using "1.IH" [OF r [symmetric] refl] by simp
    show ?thesis by (subst read_all.simps) (simp add: r ih)
  qed
qed

subsection \<open>Delivery\<close>

datatype node_event = Recv int string | Close int | Register int

definition register_new :: "int \<Rightarrow> demux \<Rightarrow> demux" where
  "register_new handle d = (let (a, d) = alloc_stream handle d in registerStream handle a d)"

fun node_do :: "node_event \<Rightarrow> demux \<Rightarrow> demux" where
  "node_do (Recv k data) d = Link_OnRecv k data d"
| "node_do (Close k) d = Link_OnClose k d"
| "node_do (Register k) d = register_new k d"

text \<open>The data received for a handle up to its close.\<close>

fun received :: "int \<Rightarrow> node_event list \<Rightarrow> string" where
  "received h [] = ''''"
| "received h (Recv k data # es) = (if k = h then data @ received h es else received h es)"
| "received h (Close k # es) = (if k = h then '''' else received h es)"
| "received h (Register k # es) = received h es"

definition demux_ok :: "demux \<Rightarrow> bool" where
  "demux_ok d \<longleftrightarrow> (\<forall>k a. dm_streams d k = Some a \<longrightarrow> a < dm_next d) \<and>
     (\<forall>k l a. dm_streams d k = Some a \<and> dm_streams d l = Some a \<longrightarrow> k = l)"

lemma fold_feed: "fold stream_feed ds s = (if rs_closed s then s else s\<lparr>rs_buf := rs_buf s @ concat ds\<rparr>)"
  by (induction ds arbitrary: s) (auto simp: stream_feed_def)

lemmas demux_defs = Link_OnRecv_def Link_OnClose_def register_new_def registerStream_def register_publish_def
  register_drain_def alloc_stream_def on_obj_def Let_def

lemma node_do_ok: "demux_ok d \<Longrightarrow> demux_ok (node_do e d)"
  by (cases e) (auto simp: demux_ok_def demux_defs less_Suc_eq split: option.splits if_splits)

lemma node_do_pending:
  assumes "dm_streams d h = None" "e \<noteq> Close h" "e \<noteq> Register h"
  shows "dm_streams (node_do e d) h = None"
    and "concat (dm_pendingRecv (node_do e d) h) = concat (dm_pendingRecv d h) @ received h [e]"
    and "dm_pendingClosed (node_do e d) h = dm_pendingClosed d h"
  using assms by (cases e; auto simp: demux_defs split: option.splits)+

lemma fold_pending:
  assumes "dm_streams d h = None" "Close h \<notin> set es" "Register h \<notin> set es"
  shows "dm_streams (fold node_do es d) h = None \<and>
    concat (dm_pendingRecv (fold node_do es d) h) = concat (dm_pendingRecv d h) @ received h es \<and>
    dm_pendingClosed (fold node_do es d) h = dm_pendingClosed d h"
  using assms
proof (induction es arbitrary: d)
  case (Cons e es)
  have ne: "e \<noteq> Close h" "e \<noteq> Register h" using Cons.prems by auto
  have "received h (e # es) = received h [e] @ received h es" using ne by (cases e) auto
  with Cons.IH [of "node_do e d"] Cons.prems node_do_pending [OF Cons.prems(1) ne] show ?case by simp
qed simp

text \<open>A stream no handle leads to is left alone.\<close>

lemma fold_unreferenced:
  "demux_ok d \<Longrightarrow> a < dm_next d \<Longrightarrow> \<forall>k. dm_streams d k \<noteq> Some a \<Longrightarrow> dm_objs (fold node_do es d) a = dm_objs d a"
proof (induction es arbitrary: d)
  case (Cons e es)
  have "dm_objs (node_do e d) a = dm_objs d a \<and> a < dm_next (node_do e d) \<and> (\<forall>k. dm_streams (node_do e d) k \<noteq> Some a)"
    using Cons.prems by (cases e) (auto simp: demux_defs split: option.splits)
  with Cons.IH [of "node_do e d"] node_do_ok [OF Cons.prems(1), of e] show ?case by simp
qed simp

lemma node_do_registered:
  assumes s: "dm_streams d h = Some a" and lt: "a < dm_next d" and only: "\<And>k. k \<noteq> h \<Longrightarrow> dm_streams d k \<noteq> Some a"
    and e: "e \<noteq> Close h" "e \<noteq> Register h" and op: "\<not> rs_closed (dm_objs d a)"
  shows "dm_streams (node_do e d) h = Some a \<and>
    dm_objs (node_do e d) a = (dm_objs d a)\<lparr>rs_buf := rs_buf (dm_objs d a) @ received h [e]\<rparr>"
proof (cases e)
  case (Recv k data)
  then show ?thesis using s op only [of k] by (cases "k = h"; cases "dm_streams d k") (auto simp: demux_defs stream_feed_def)
next
  case (Close k)
  then have "k \<noteq> h" using e by simp
  with Close show ?thesis using s only [of k] by (cases "dm_streams d k") (auto simp: demux_defs)
next
  case (Register k)
  then have "k \<noteq> h" using e by simp
  with Register show ?thesis using s lt by (simp add: demux_defs)
qed

lemma fold_registered:
  assumes "demux_ok d" "dm_streams d h = Some a" "Register h \<notin> set es" "\<not> rs_closed (dm_objs d a)"
  shows "rs_buf (dm_objs (fold node_do es d) a) = rs_buf (dm_objs d a) @ received h es \<and>
    rs_closed (dm_objs (fold node_do es d) a) = (Close h \<in> set es) \<and>
    rs_deadline (dm_objs (fold node_do es d) a) = rs_deadline (dm_objs d a)"
  using assms
proof (induction es arbitrary: d)
  case (Cons e es)
  note ok = node_do_ok [OF Cons.prems(1), of e]
  have a: "a < dm_next d" "\<And>k. dm_streams d k = Some a \<Longrightarrow> k = h"
    using Cons.prems(1,2) unfolding demux_ok_def by blast+
  show ?case
  proof (cases "e = Close h")
    case True
    have c: "node_do e d = on_obj a markClosed (d\<lparr>dm_streams := (dm_streams d)(h := None)\<rparr>)"
      using Cons.prems(2) by (simp add: True Link_OnClose_def)
    have "a < dm_next (node_do e d)" "\<forall>k. dm_streams (node_do e d) k \<noteq> Some a"
      using a by (auto simp: c on_obj_def)
    from fold_unreferenced [OF ok this] have "dm_objs (fold node_do es (node_do e d)) a = dm_objs (node_do e d) a" .
    with True Cons.prems show ?thesis by (simp add: demux_defs markClosed_def)
  next
    case False
    have only: "dm_streams d k \<noteq> Some a" if "k \<noteq> h" for k using a(2) that by blast
    have nr: "e \<noteq> Register h" "Register h \<notin> set es" using Cons.prems(3) by auto
    note step' = node_do_registered [OF Cons.prems(2) a(1) only False nr(1) Cons.prems(4)]
    have step: "dm_streams (node_do e d) h = Some a" "\<not> rs_closed (dm_objs (node_do e d) a)"
      "rs_buf (dm_objs (node_do e d) a) = rs_buf (dm_objs d a) @ received h [e]"
      "rs_deadline (dm_objs (node_do e d) a) = rs_deadline (dm_objs d a)"
      using step' Cons.prems(4) by simp_all
    have "received h (e # es) = received h [e] @ received h es" using False by (cases e) auto
    with Cons.IH [OF ok step(1) nr(2) step(2)] step(3,4) False show ?thesis by auto
  qed
qed simp



subsection \<open>Pushes between the two halves of a registration\<close>

text \<open>
  Data that arrives after the stream is published and before the buffered data is handed over is
  read first; a close in between makes the buffered data vanish.
\<close>

lemma register_race:
  assumes "dm_objs d a = newRhpStream h" "register_publish h a d = (p, d1)" "\<not> snd p"
  shows "rs_buf (dm_objs (register_drain a p (Link_OnRecv h data d1)) a) = data @ concat (dm_pendingRecv d h)"
    and "rs_buf (dm_objs (register_drain a p (Link_OnClose h d1)) a) = ''''"
  using assms by (auto simp: demux_defs newRhpStream_def fold_feed stream_feed_def markClosed_def)

text \<open>
  A new attachment forgets the streams but not what is buffered for unknown handles: the first
  stream of that handle number starts with bytes of the connection before.
\<close>

lemma stale_push_delivered:
  assumes "dm_streams d h = None" "dm_pendingRecv d h = []" "\<not> dm_pendingClosed d h"
  shows "rs_buf (dm_objs (register_new h (attach_reset (Link_OnRecv h old d))) (dm_next d)) = old"
  using assms by (simp add: demux_defs attach_reset_def newRhpStream_def fold_feed)

end
