(* ===== verification/Rhp_Wire.thy ===== *)
theory Rhp_Wire
  imports Go_Runes "HOL-Library.Word"
begin

text \<open>
  \<^verbatim>\<open>internal/rhp\<close>, the wire level: frames (\<^verbatim>\<open>framing.go\<close>), error codes
  (\<^verbatim>\<open>errcode.go\<close>) and messages with their Latin-1 payloads (\<^verbatim>\<open>message.go\<close>).
  A reader is the rest of its byte stream. A writer is the bytes that reached the connection and
  how many more it takes before it fails (\<open>None\<close>: it never does); a failed
  \<^verbatim>\<open>bufio.Writer\<close> stays failed.

  Shown: frames written are read back, a stream cut anywhere yields exactly its complete frames and
  reports whether it was cut at a frame boundary, over-long payloads write nothing, and payload
  bytes survive the Latin-1 form.
\<close>

subsection \<open>Frames\<close>

datatype io_error = IO_EOF | ErrUnexpectedEOF | ErrWrite

datatype rhp_error =
    PayloadTooLong nat
  | IOError io_error
  | EncodeError string string
  | DecodeError string
  | ClientClosed
  | ConnectionLost
  | CtxErr
  | ServerError int string

record writer =
  wr_out :: string
  wr_room :: "nat option"

definition MaxPayloadLength :: nat where
  "MaxPayloadLength = 0xFFFF"

text \<open>\<^verbatim>\<open>binary.BigEndian\<close> on 16-bit words.\<close>

definition PutUint16 :: "16 word \<Rightarrow> string" where
  "PutUint16 v = [char_of (unat (drop_bit 8 v)), char_of (unat (take_bit 8 v))]"

definition Uint16 :: "char \<Rightarrow> char \<Rightarrow> 16 word" where
  "Uint16 hi lo = or (push_bit 8 (of_nat (byte hi))) (of_nat (byte lo))"

definition frame :: "string \<Rightarrow> string" where
  "frame payload = PutUint16 (of_nat (length payload)) @ payload"

definition write_all :: "string \<Rightarrow> writer \<Rightarrow> writer \<times> (io_error + unit)" where
  "write_all bs w =
     (case wr_room w of
        None \<Rightarrow> (w\<lparr>wr_out := wr_out w @ bs\<rparr>, Inr ())
      | Some n \<Rightarrow>
          if length bs \<le> n then (w\<lparr>wr_out := wr_out w @ bs, wr_room := Some (n - length bs)\<rparr>, Inr ())
          else (w\<lparr>wr_out := wr_out w @ take n bs, wr_room := Some 0\<rparr>, Inl ErrWrite))"

definition writeFrame :: "string \<Rightarrow> writer \<Rightarrow> writer \<times> (rhp_error + unit)" where
  "writeFrame payload w =
     (if length payload > MaxPayloadLength then (w, Inl (PayloadTooLong (length payload)))
      else
        (case write_all (frame payload) w of
           (w, Inl e) \<Rightarrow> (w, Inl (IOError e))
         | (w, Inr _) \<Rightarrow> (w, Inr ())))"

text \<open>\<^verbatim>\<open>io.ReadFull\<close> of \<open>n\<close> bytes: what was read and the rest.\<close>

definition ReadFull :: "nat \<Rightarrow> string \<Rightarrow> io_error + string \<times> string" where
  "ReadFull n s =
     (if n \<le> length s then Inr (take n s, drop n s)
      else if s = [] then Inl IO_EOF else Inl ErrUnexpectedEOF)"

definition readFrame :: "string \<Rightarrow> io_error + string \<times> string" where
  "readFrame s =
     (case ReadFull 2 s of
        Inl e \<Rightarrow> Inl e
      | Inr (header, s) \<Rightarrow>
          (case ReadFull (unat (Uint16 (header ! 0) (header ! 1))) s of
             Inl e \<Rightarrow> Inl (if e = IO_EOF then ErrUnexpectedEOF else e)
           | Inr r \<Rightarrow> Inr r))"

text \<open>The read loop's view: the payloads up to the error that ends it.\<close>

lemma readFrame_shorter: "readFrame s = Inr (p, s') \<Longrightarrow> length s' < length s"
  by (auto simp: readFrame_def ReadFull_def split: if_splits sum.splits prod.splits)

function readFrames :: "string \<Rightarrow> string list \<times> io_error" where
  "readFrames s =
     (case readFrame s of
        Inl e \<Rightarrow> ([], e)
      | Inr (p, s') \<Rightarrow> (let (ps, e) = readFrames s' in (p # ps, e)))"
  by pat_completeness auto
termination by (relation "measure length") (auto dest: readFrame_shorter)

declare readFrames.simps [simp del]

lemma Uint16_PutUint16:
  fixes v :: "16 word"
  shows "Uint16 (PutUint16 v ! 0) (PutUint16 v ! 1) = v"
proof -
  have "unat (drop_bit 8 v) < 256"
  proof -
    have "unat v < 65536" using unsigned_less [of v] by simp
    then show ?thesis by (simp add: drop_bit_eq_div unat_div less_mult_imp_div_less)
  qed
  moreover have "unat (take_bit 8 v) < 256"
    using take_bit_nat_less_exp [of 8 "unat v"] by (simp add: unsigned_take_bit_eq)
  ultimately have "Uint16 (PutUint16 v ! 0) (PutUint16 v ! 1) = or (push_bit 8 (drop_bit 8 v)) (take_bit 8 v)"
    by (simp add: Uint16_def PutUint16_def)
  also have "\<dots> = v"
    by (rule bit_eqI) (auto simp: bit_simps)
  finally show ?thesis .
qed

lemma length_PutUint16 [simp]: "length (PutUint16 v) = 2"
  by (simp add: PutUint16_def)

lemma readFrame_frame:
  assumes "length p \<le> MaxPayloadLength"
  shows "readFrame (frame p @ s) = Inr (p, s)"
proof -
  let ?v = "of_nat (length p) :: 16 word"
  have "unat ?v = length p" using assms by (simp add: unat_of_nat MaxPayloadLength_def take_bit_eq_mod)
  moreover have "PutUint16 ?v = [PutUint16 ?v ! 0, PutUint16 ?v ! 1]" by (simp add: PutUint16_def)
  ultimately show ?thesis
    using Uint16_PutUint16 [of ?v] by (simp add: readFrame_def frame_def ReadFull_def)
qed

text \<open>A stream that ends inside a frame.\<close>

lemma readFrame_cut:
  assumes "length p \<le> MaxPayloadLength" "0 < n" "n < length (frame p)"
  shows "readFrame (take n (frame p)) = Inl ErrUnexpectedEOF"
proof (cases "n < 2")
  case True
  then have "length (take n (frame p)) < 2" "take n (frame p) \<noteq> []" using assms(2,3) by auto
  then have "ReadFull 2 (take n (frame p)) = Inl ErrUnexpectedEOF" unfolding ReadFull_def by auto
  then show ?thesis by (simp add: readFrame_def)
next
  case False
  let ?v = "of_nat (length p) :: 16 word"
  have v: "unat ?v = length p" using assms by (simp add: unat_of_nat MaxPayloadLength_def take_bit_eq_mod)
  have t: "take n (frame p) = PutUint16 ?v @ take (n - 2) p" using False by (simp add: frame_def)
  have "length (take (n - 2) p) < length p" using assms(3) False by (simp add: frame_def)
  then show ?thesis
    using Uint16_PutUint16 [of ?v] v by (auto simp: t readFrame_def ReadFull_def PutUint16_def)
qed

text \<open>How many of the frames fit completely into \<open>n\<close> bytes, and whether \<open>n\<close> is a boundary.\<close>

fun whole_frames :: "string list \<Rightarrow> nat \<Rightarrow> nat \<times> bool" where
  "whole_frames [] n = (0, True)"
| "whole_frames (p # ps) n =
     (if length (frame p) \<le> n then (let (k, b) = whole_frames ps (n - length (frame p)) in (Suc k, b))
      else (0, n = 0))"

lemma readFrames_take:
  "list_all (\<lambda>p. length p \<le> MaxPayloadLength) ps \<Longrightarrow>
   readFrames (take n (concat (map frame ps))) =
     (take (fst (whole_frames ps n)) ps, if snd (whole_frames ps n) then IO_EOF else ErrUnexpectedEOF)"
proof (induction ps arbitrary: n)
  case Nil
  show ?case by (simp add: readFrames.simps [of "[]"] readFrame_def ReadFull_def)
next
  case (Cons p ps)
  show ?case
  proof (cases "length (frame p) \<le> n")
    case True
    then have "take n (concat (map frame (p # ps))) = frame p @ take (n - length (frame p)) (concat (map frame ps))" by simp
    with True Cons show ?thesis by (simp add: readFrames.simps readFrame_frame Let_def split_def)
  next
    case False
    then have t: "take n (concat (map frame (p # ps))) = take n (frame p)" by simp
    show ?thesis
    proof (cases "n = 0")
      case True
      with False show ?thesis by (simp add: readFrames.simps [of "[]"] readFrame_def ReadFull_def)
    next
      case n: False
      have "readFrame (take n (frame p)) = Inl ErrUnexpectedEOF"
        using Cons.prems False n by (intro readFrame_cut) auto
      with t False n show ?thesis by (simp add: readFrames.simps)
    qed
  qed
qed

fun writeFrames :: "string list \<Rightarrow> writer \<Rightarrow> writer \<times> (rhp_error + unit)" where
  "writeFrames [] w = (w, Inr ())"
| "writeFrames (p # ps) w = (case writeFrame p w of (w, Inl e) \<Rightarrow> (w, Inl e) | (w, Inr _) \<Rightarrow> writeFrames ps w)"

lemma writeFrames_ok:
  "list_all (\<lambda>p. length p \<le> MaxPayloadLength) ps \<Longrightarrow> wr_room w = None \<Longrightarrow>
   writeFrames ps w = (w\<lparr>wr_out := wr_out w @ concat (map frame ps)\<rparr>, Inr ())"
  by (induction ps arbitrary: w) (auto simp: writeFrame_def write_all_def)

text \<open>
  C24: payloads of at most 65535 bytes written one frame each are read back in order, and the
  stream then ends cleanly. If the stream is cut after any number of bytes, exactly the frames that
  are complete are read; the read loop sees a clean end if the cut is at a frame boundary and an
  unexpected end otherwise. A longer payload is refused and writes nothing.
\<close>

theorem frames_roundtrip:
  assumes "list_all (\<lambda>p. length p \<le> 65535) ps"
  shows "snd (writeFrames ps \<lparr>wr_out = '''', wr_room = None\<rparr>) = Inr ()
    \<and> readFrames (wr_out (fst (writeFrames ps \<lparr>wr_out = '''', wr_room = None\<rparr>))) = (ps, IO_EOF)
    \<and> readFrames (take n (wr_out (fst (writeFrames ps \<lparr>wr_out = '''', wr_room = None\<rparr>)))) =
        (take (fst (whole_frames ps n)) ps, if snd (whole_frames ps n) then IO_EOF else ErrUnexpectedEOF)
    \<and> (length q > 65535 \<longrightarrow> writeFrame q w = (w, Inl (PayloadTooLong (length q))))"
proof -
  let ?s = "concat (map frame ps)"
  have m: "list_all (\<lambda>p. length p \<le> MaxPayloadLength) ps" using assms by (simp add: MaxPayloadLength_def)
  have w: "writeFrames ps \<lparr>wr_out = '''', wr_room = None\<rparr> = (\<lparr>wr_out = ?s, wr_room = None\<rparr>, Inr ())"
    using writeFrames_ok [OF m, of "\<lparr>wr_out = '''', wr_room = None\<rparr>"] by simp
  have "whole_frames ps (length ?s) = (length ps, True)" by (induction ps) simp_all
  with readFrames_take [OF m, of "length ?s"] have "readFrames ?s = (ps, IO_EOF)" by simp
  with w readFrames_take [OF m, of n] show ?thesis by (simp add: writeFrame_def MaxPayloadLength_def)
qed

theorem frames_roundtrip_witness:
  "readFrames (take 7 (wr_out (fst (writeFrames [''{}'', ''{1}''] \<lparr>wr_out = '''', wr_room = None\<rparr>)))) = ([''{}''], ErrUnexpectedEOF)"
proof -
  have "list_all (\<lambda>p. length p \<le> 65535) [''{}'', ''{1}'']" by simp
  moreover have "whole_frames [''{}'', ''{1}''] 7 = (1, False)" by code_simp
  ultimately show ?thesis using frames_roundtrip [of "[''{}'', ''{1}'']" 7] by simp
qed

subsection \<open>Error codes\<close>

definition ErrOk :: int where "ErrOk = 0"
definition ErrInvalidHandle :: int where "ErrInvalidHandle = 3"
definition ErrInvalidLocalAddress :: int where "ErrInvalidLocalAddress = 6"
definition ErrDuplicateSocket :: int where "ErrDuplicateSocket = 9"

definition errCode_texts :: "(int, string) gomap" where
  "errCode_texts =
    [(0, ''Ok''), (1, ''Unspecified''), (2, ''Bad or missing type''), (3, ''Invalid handle''), (4, ''No memory''),
     (5, ''Bad or missing mode''), (6, ''Invalid local address''), (7, ''Invalid remote address''),
     (8, ''Bad or missing family''), (9, ''Duplicate socket''), (10, ''No such port''), (11, ''Invalid protocol''),
     (12, ''Bad parameter''), (13, ''No buffers''), (14, ''Unauthorised''), (15, ''No Route''),
     (16, ''Operation not supported''), (17, ''Not connected'')]"

definition ErrText :: "int \<Rightarrow> string" where
  "ErrText code =
     (case map_of errCode_texts code of Some t \<Rightarrow> t | None \<Rightarrow> ''Unknown ('' @ dec_int code @ '')'')"

definition ServerError_Error :: "int \<Rightarrow> string \<Rightarrow> string" where
  "ServerError_Error code txt =
     (let t = (if txt = '''' then ErrText code else txt) in ''rhp: errCode '' @ dec_int code @ '' ('' @ t @ '')'')"

definition IsCallsignInUse :: "int \<Rightarrow> bool" where
  "IsCallsignInUse code \<longleftrightarrow> code = ErrDuplicateSocket \<or> code = ErrInvalidLocalAddress"

subsection \<open>Messages\<close>

record rhp_message =
  rm_type :: string
  rm_id :: "int option"
  rm_seqno :: "int option"
  rm_errCode :: "int option"
  rm_errText :: string
  rm_handle :: "int option"
  rm_child :: "int option"
  rm_pfam :: string
  rm_mode :: string
  rm_port :: "string option"
  rm_local :: string
  rm_remote :: string
  rm_flags :: "int option"
  rm_data :: "string option"
  rm_user :: string
  rm_pass :: string

text \<open>\<^verbatim>\<open>&Message{Type: t}\<close>.\<close>

definition mk_message :: "string \<Rightarrow> rhp_message" where
  "mk_message t = \<lparr>rm_type = t, rm_id = None, rm_seqno = None, rm_errCode = None, rm_errText = '''', rm_handle = None,
     rm_child = None, rm_pfam = '''', rm_mode = '''', rm_port = None, rm_local = '''', rm_remote = '''', rm_flags = None,
     rm_data = None, rm_user = '''', rm_pass = ''''\<rparr>"

definition Message_Err :: "rhp_message \<Rightarrow> int" where
  "Message_Err m = (case rm_errCode m of None \<Rightarrow> 0 | Some c \<Rightarrow> c)"

definition statusFlags :: "rhp_message \<Rightarrow> int" where
  "statusFlags m = (case rm_flags m of None \<Rightarrow> 0 | Some f \<Rightarrow> f)"

definition port :: "string \<Rightarrow> string option" where
  "port s = (if s = '''' then None else Some s)"

definition port_string :: "string option \<Rightarrow> string" where
  "port_string p = (case p of None \<Rightarrow> '''' | Some s \<Rightarrow> s)"

definition derefHandle :: "int option \<Rightarrow> int" where
  "derefHandle p = (case p of None \<Rightarrow> 0 | Some h \<Rightarrow> h)"

definition deref :: "string option \<Rightarrow> string" where
  "deref p = (case p of None \<Rightarrow> '''' | Some s \<Rightarrow> s)"

subsection \<open>Latin-1 payloads\<close>

definition EncodeData :: "string \<Rightarrow> string" where
  "EncodeData b = concat (map (\<lambda>c. encode_rune (byte c)) b)"

function DecodeData :: "string \<Rightarrow> string" where
  "DecodeData [] = []"
| "DecodeData (c # s) = (let (r, w) = decode_rune (c # s) in char_of (r mod 256) # DecodeData (drop w (c # s)))"
  by pat_completeness auto
termination
proof (relation "measure length", goal_cases)
  case (2 c s x r w)
  then have "1 \<le> w" using decode_rune_width [of "c # s"] by (metis snd_conv)
  then show ?case by simp
qed simp

declare DecodeData.simps(2) [simp del]

lemma DecodeData_rune:
  assumes "valid_rune r"
  shows "DecodeData (encode_rune r @ s) = char_of (r mod 256) # DecodeData s"
proof -
  obtain c t where ct: "encode_rune r @ s = c # t" by (cases "encode_rune r @ s") auto
  from decode_encode_rune [OF assms, of s] have "decode_rune (c # t) = (r, length (encode_rune r))" by (simp add: ct)
  moreover have "drop (length (encode_rune r)) (c # t) = s" by (metis append_eq_conv_conj ct)
  ultimately show ?thesis unfolding ct DecodeData.simps(2) by simp
qed

lemma DecodeData_runes:
  "list_all valid_rune rs \<Longrightarrow> DecodeData (concat (map encode_rune rs)) = map (\<lambda>r. char_of (r mod 256)) rs"
  by (induction rs) (simp_all add: DecodeData_rune)

lemma valid_rune_byte [simp]: "valid_rune (byte c)"
  unfolding valid_rune_def using byte_less_256 [of c] by linarith

lemma length_EncodeData: "length (EncodeData b) = length b + length (filter (\<lambda>c. 0x80 \<le> byte c) b)"
proof (induction b)
  case (Cons c b)
  have "byte c < 0x800" using byte_less_256 [of c] by linarith
  then have "length (encode_rune (byte c)) = (if byte c < 0x80 then 1 else 2)" by (simp add: encode_rune_def)
  then show ?case using Cons by (simp add: EncodeData_def)
qed (simp add: EncodeData_def)

text \<open>
  Payload bytes survive the Latin-1 form; its length in bytes is the number of payload
  bytes plus one for every byte of 0x80 or above. Any UTF-8 text a peer sends decodes to one byte
  per rune, the low byte of the rune.
\<close>

theorem payload_roundtrip:
  "DecodeData (EncodeData b) = b
   \<and> length (EncodeData b) = length b + length (filter (\<lambda>c. 0x80 \<le> byte c) b)
   \<and> (list_all valid_rune rs \<longrightarrow> DecodeData (concat (map encode_rune rs)) = map (\<lambda>r. char_of (r mod 256)) rs)"
proof -
  have "EncodeData b = concat (map encode_rune (map byte b))" by (simp add: EncodeData_def comp_def)
  moreover have "list_all valid_rune (map byte b)" by (simp add: list_all_iff)
  ultimately have "DecodeData (EncodeData b) = map (\<lambda>r. char_of (r mod 256)) (map byte b)"
    using DecodeData_runes [of "map byte b"] by simp
  also have "\<dots> = b" by (induction b) simp_all
  finally show ?thesis using length_EncodeData DecodeData_runes by blast
qed

theorem payload_roundtrip_witness:
  "DecodeData (concat (map encode_rune [0x41, 0xE9, 0x20AC])) = [CHR ''A'', CHR 0xE9, CHR 0xAC]"
proof -
  have "list_all valid_rune [0x41, 0xE9, 0x20AC]" by (simp add: valid_rune_def)
  moreover have "map (\<lambda>r. char_of (r mod 256)) [0x41, 0xE9, 0x20AC :: nat] = [CHR ''A'', CHR 0xE9, CHR 0xAC]" by (simp add: char_of_def bit_iff_odd)
  ultimately show ?thesis
    using payload_roundtrip [of "[]" "[0x41, 0xE9, 0x20AC]", THEN conjunct2, THEN conjunct2, THEN mp] by (simp only:)
qed

subsection \<open>The port field\<close>

text \<open>
  \<^verbatim>\<open>PortValue\<close> within the JSON codec: the field as it stands in the frame, with
  \<^verbatim>\<open>json.Unmarshal\<close> into a string (an error, or the string) and
  \<^verbatim>\<open>json.Marshal\<close> of a string as arguments.
\<close>

definition PortValue_UnmarshalJSON :: "(string \<Rightarrow> string + string) \<Rightarrow> string \<Rightarrow> string + string" where
  "PortValue_UnmarshalJSON unmarshal b =
     (if length b > 0 \<and> b ! 0 = CHR 0x22 then
        (case unmarshal b of Inl e \<Rightarrow> Inl e | Inr s \<Rightarrow> Inr s)
      else Inr b)"

definition PortValue_MarshalJSON :: "(string \<Rightarrow> string) \<Rightarrow> string \<Rightarrow> string" where
  "PortValue_MarshalJSON marshal p = marshal p"

text \<open>
  A port goes out as a JSON string and comes back as it was; a port that came in as a bare number
  is kept as its text and goes out, from then on, as a string with the same text.
\<close>

lemma PortValue_roundtrip:
  assumes "\<And>s. unmarshal (marshal s) = Inr s" "\<And>s. \<exists>t. marshal s = CHR 0x22 # t" "b ! 0 \<noteq> CHR 0x22"
  shows "PortValue_UnmarshalJSON unmarshal (PortValue_MarshalJSON marshal p) = Inr p"
    and "PortValue_UnmarshalJSON unmarshal b = Inr b"
  using assms(1) [of p] assms(2) [of p] assms(3) by (auto simp: PortValue_UnmarshalJSON_def PortValue_MarshalJSON_def)

end
