(* ===== verification/Rhp_Client.thy ===== *)
theory Rhp_Client
  imports Rhp_Wire
begin

text \<open>
  \<^verbatim>\<open>internal/rhp/client.go\<close>: one attachment to the node. The JSON codec is a pair of
  arguments (\<open>marshal\<close>, \<open>unmarshal\<close>) of which nothing is assumed.

  The reply channel of a call is named by the call's id: a buffer of one message and a closed flag.
  Sending on a closed channel, closing one twice (both panics) and a send that would block the read
  goroutine are recorded in \<open>cl_fault\<close>. Pushes are the calls of the \<^verbatim>\<open>Handler\<close>, in
  order. \<^verbatim>\<open>roundTrip\<close> is cut where other goroutines can run: registering (under
  \<^verbatim>\<open>mu\<close>), writing (under \<^verbatim>\<open>writeMu\<close>), and waiting; \<open>client_step\<close>
  interleaves the pieces of any number of calls with the read loop and \<^verbatim>\<open>Close\<close>.

  Shown: no interleaving faults, a reply reaches exactly the call whose id it carries, and no call
  waits for ever once the read loop has ended.
\<close>

record chan =
  ch_buf :: "rhp_message option"
  ch_closed :: bool

datatype push =
    OnAccept int int string string string
  | OnRecv int string
  | OnStatus int int
  | OnClose int

datatype fault = SendOnClosed | SendBlocks | CloseOfClosed

record client =
  cl_w :: writer
  cl_nextID :: int
  cl_pending :: "int list"
  cl_chan :: "int \<Rightarrow> chan"
  cl_closed :: bool
  cl_done :: bool
  cl_err :: "rhp_error option"
  cl_pushes :: "push list"
  cl_fault :: "fault option"

definition new_chan :: chan where
  "new_chan = \<lparr>ch_buf = None, ch_closed = False\<rparr>"

text \<open>\<^verbatim>\<open>Connect\<close>, after the dial.\<close>

definition Connect :: "writer \<Rightarrow> client" where
  "Connect w = \<lparr>cl_w = w, cl_nextID = 0, cl_pending = [], cl_chan = (\<lambda>_. new_chan), cl_closed = False, cl_done = False,
     cl_err = None, cl_pushes = [], cl_fault = None\<rparr>"

definition Client_Close :: "client \<Rightarrow> client" where
  "Client_Close c = (if cl_closed c then c else c\<lparr>cl_closed := True\<rparr>)"

definition set_fault :: "fault \<Rightarrow> client \<Rightarrow> client" where
  "set_fault f c = (if cl_fault c = None then c\<lparr>cl_fault := Some f\<rparr> else c)"

definition chan_send :: "int \<Rightarrow> rhp_message \<Rightarrow> client \<Rightarrow> client" where
  "chan_send i m c =
     (let ch = cl_chan c i
      in if ch_closed ch then set_fault SendOnClosed c
         else if ch_buf ch \<noteq> None then set_fault SendBlocks c
         else c\<lparr>cl_chan := (cl_chan c)(i := ch\<lparr>ch_buf := Some m\<rparr>)\<rparr>)"

definition chan_close :: "int \<Rightarrow> client \<Rightarrow> client" where
  "chan_close i c =
     (let ch = cl_chan c i
      in if ch_closed ch then set_fault CloseOfClosed c
         else c\<lparr>cl_chan := (cl_chan c)(i := ch\<lparr>ch_closed := True\<rparr>)\<rparr>)"

definition del_pending :: "int \<Rightarrow> client \<Rightarrow> client" where
  "del_pending i c = c\<lparr>cl_pending := removeAll i (cl_pending c)\<rparr>"

definition push_to :: "push \<Rightarrow> client \<Rightarrow> client" where
  "push_to p c = c\<lparr>cl_pushes := cl_pushes c @ [p]\<rparr>"

definition dispatch :: "rhp_message \<Rightarrow> client \<Rightarrow> client" where
  "dispatch msg c =
     (case rm_id msg of
        Some i \<Rightarrow>
          if i \<in> set (cl_pending c) then chan_close i (chan_send i msg (del_pending i c)) else c
      | None \<Rightarrow>
          if rm_type msg = ''accept'' then
            push_to (OnAccept (derefHandle (rm_handle msg)) (derefHandle (rm_child msg)) (rm_remote msg) (rm_local msg)
                    (port_string (rm_port msg))) c
          else if rm_type msg = ''recv'' then push_to (OnRecv (derefHandle (rm_handle msg)) (DecodeData (deref (rm_data msg)))) c
          else if rm_type msg = ''status'' then push_to (OnStatus (derefHandle (rm_handle msg)) (statusFlags msg)) c
          else if rm_type msg = ''close'' then push_to (OnClose (derefHandle (rm_handle msg))) c
          else c)"

text \<open>The deferred function of \<^verbatim>\<open>readLoop\<close>.\<close>

definition readLoop_exit :: "rhp_error option \<Rightarrow> client \<Rightarrow> client" where
  "readLoop_exit loopErr c =
     (let pending = cl_pending c; c = c\<lparr>cl_err := loopErr, cl_pending := [], cl_closed := True\<rparr>
      in (fold chan_close pending c)\<lparr>cl_done := True\<rparr>)"

function readLoop :: "(string \<Rightarrow> string + rhp_message) \<Rightarrow> string \<Rightarrow> client \<Rightarrow> client" where
  "readLoop unmarshal s c =
     (case readFrame s of
        Inl e \<Rightarrow> readLoop_exit (if e = IO_EOF then None else Some (IOError e)) c
      | Inr (payload, s') \<Rightarrow>
          (case unmarshal payload of
             Inl e \<Rightarrow> readLoop_exit (Some (DecodeError e)) c
           | Inr msg \<Rightarrow> readLoop unmarshal s' (dispatch msg c)))"
  by pat_completeness auto
termination by (relation "measure (\<lambda>(_, s, _). length s)") (auto dest: readFrame_shorter)

declare readLoop.simps [simp del]

subsection \<open>Requests\<close>

definition writeMessage ::
  "(rhp_message \<Rightarrow> string + string) \<Rightarrow> rhp_message \<Rightarrow> writer \<Rightarrow> writer \<times> (rhp_error + unit)" where
  "writeMessage marshal msg w =
     (case marshal msg of Inl e \<Rightarrow> (w, Inl (EncodeError (rm_type msg) e)) | Inr payload \<Rightarrow> writeFrame payload w)"

definition register :: "client \<Rightarrow> int \<times> client" where
  "register c =
     (let i = cl_nextID c + 1
      in (i, c\<lparr>cl_nextID := i, cl_pending := i # removeAll i (cl_pending c), cl_chan := (cl_chan c)(i := new_chan)\<rparr>))"

definition write_request :: "(rhp_message \<Rightarrow> string + string) \<Rightarrow> int \<Rightarrow> rhp_message \<Rightarrow> client \<Rightarrow> client \<times> (rhp_error + unit)" where
  "write_request marshal i req c =
     (case writeMessage marshal (req\<lparr>rm_id := Some i\<rparr>) (cl_w c) of
        (w, Inl e) \<Rightarrow> (del_pending i (c\<lparr>cl_w := w\<rparr>), Inl e)
      | (w, Inr _) \<Rightarrow> (c\<lparr>cl_w := w\<rparr>, Inr ()))"

definition reply_result :: "rhp_message \<Rightarrow> rhp_error + rhp_message" where
  "reply_result reply =
     (if Message_Err reply \<noteq> ErrOk then Inl (ServerError (Message_Err reply) (rm_errText reply)) else Inr reply)"

text \<open>A receive from the reply channel: \<open>None\<close> blocks.\<close>

definition chan_recv :: "chan \<Rightarrow> (rhp_error + rhp_message) option" where
  "chan_recv ch =
     (case ch_buf ch of
        Some reply \<Rightarrow> Some (reply_result reply)
      | None \<Rightarrow> if ch_closed ch then Some (Inl ConnectionLost) else None)"

text \<open>
  \<^verbatim>\<open>roundTrip\<close> as its caller sees it: what happens while it waits is a list of events (a
  frame is dispatched, the read loop ends, the context is cancelled). The result \<open>None\<close> is a
  call that is still waiting.
\<close>

datatype wait_event = Frame rhp_message | LoopEnd "rhp_error option" | CtxDone

fun await :: "int \<Rightarrow> wait_event list \<Rightarrow> client \<Rightarrow> client \<times> (rhp_error + rhp_message) option" where
  "await i [] c = (c, chan_recv (cl_chan c i))"
| "await i (e # es) c =
     (case chan_recv (cl_chan c i) of
        Some r \<Rightarrow> (c, Some r)
      | None \<Rightarrow>
          (case e of
             Frame msg \<Rightarrow> await i es (dispatch msg c)
           | LoopEnd err \<Rightarrow> await i es (readLoop_exit err c)
           | CtxDone \<Rightarrow> (del_pending i c, Some (Inl CtxErr))))"

definition roundTrip ::
  "(rhp_message \<Rightarrow> string + string) \<Rightarrow> wait_event list \<Rightarrow> rhp_message \<Rightarrow> client \<Rightarrow> client \<times> (rhp_error + rhp_message) option" where
  "roundTrip marshal es req c =
     (if cl_closed c then (c, Some (Inl ClientClosed))
      else
        (let (i, c) = register c
         in case write_request marshal i req c of
              (c, Inl e) \<Rightarrow> (c, Some (Inl e))
            | (c, Inr _) \<Rightarrow> await i es c))"

definition discard :: "rhp_error + 'a \<Rightarrow> rhp_error + unit" where
  "discard r = (case r of Inl e \<Rightarrow> Inl e | Inr _ \<Rightarrow> Inr ())"

definition handle_of :: "rhp_error + rhp_message \<Rightarrow> rhp_error + int" where
  "handle_of r = (case r of Inl e \<Rightarrow> Inl e | Inr reply \<Rightarrow> Inr (derefHandle (rm_handle reply)))"

definition Authenticate where
  "Authenticate marshal es user pass c =
     map_prod id (map_option discard) (roundTrip marshal es ((mk_message ''auth'')\<lparr>rm_user := user, rm_pass := pass\<rparr>) c)"

definition Socket where
  "Socket marshal es c =
     map_prod id (map_option handle_of) (roundTrip marshal es ((mk_message ''socket'')\<lparr>rm_pfam := ''ax25'', rm_mode := ''stream''\<rparr>) c)"

definition Bind where
  "Bind marshal es handle local p c =
     map_prod id (map_option discard)
       (roundTrip marshal es ((mk_message ''bind'')\<lparr>rm_handle := Some handle, rm_local := local, rm_port := port p\<rparr>) c)"

definition Listen where
  "Listen marshal es handle c =
     map_prod id (map_option discard)
       (roundTrip marshal es ((mk_message ''listen'')\<lparr>rm_handle := Some handle, rm_flags := Some 0x00\<rparr>) c)"

definition Open where
  "Open marshal es local remote p c =
     map_prod id (map_option handle_of)
       (roundTrip marshal es ((mk_message ''open'')\<lparr>rm_pfam := ''ax25'', rm_mode := ''stream'', rm_port := port p,
          rm_local := local, rm_remote := remote, rm_flags := Some 0x80\<rparr>) c)"

definition Send where
  "Send marshal es handle data c =
     map_prod id (map_option discard)
       (roundTrip marshal es ((mk_message ''send'')\<lparr>rm_handle := Some handle, rm_data := Some (EncodeData data)\<rparr>) c)"

definition ignore_invalid_handle :: "rhp_error + unit \<Rightarrow> rhp_error + unit" where
  "ignore_invalid_handle r =
     (case r of Inl (ServerError code _) \<Rightarrow> if code = ErrInvalidHandle then Inr () else r | _ \<Rightarrow> r)"

definition CloseHandle where
  "CloseHandle marshal es handle c =
     map_prod id (map_option (ignore_invalid_handle \<circ> discard))
       (roundTrip marshal es ((mk_message ''close'')\<lparr>rm_handle := Some handle\<rparr>) c)"

subsection \<open>Interleavings\<close>

text \<open>The state of every call made so far.\<close>

datatype call = Writing rhp_message | Waiting | Returned "rhp_error + rhp_message"

type_synonym rhp_sys = "client \<times> (int \<rightharpoonup> call)"

inductive client_step :: "(rhp_message \<Rightarrow> string + string) \<Rightarrow> rhp_sys \<Rightarrow> rhp_sys \<Rightarrow> bool" for marshal where
  start: "\<not> cl_closed c \<Longrightarrow> register c = (i, c') \<Longrightarrow> client_step marshal (c, calls) (c', calls(i \<mapsto> Writing req))"
| written: "calls i = Some (Writing req) \<Longrightarrow> write_request marshal i req c = (c', Inr ()) \<Longrightarrow>
    client_step marshal (c, calls) (c', calls(i \<mapsto> Waiting))"
| write_failed: "calls i = Some (Writing req) \<Longrightarrow> write_request marshal i req c = (c', Inl e) \<Longrightarrow>
    client_step marshal (c, calls) (c', calls(i \<mapsto> Returned (Inl e)))"
| reply: "calls i = Some Waiting \<Longrightarrow> chan_recv (cl_chan c i) = Some r \<Longrightarrow>
    client_step marshal (c, calls) (c, calls(i \<mapsto> Returned r))"
| cancel: "calls i = Some Waiting \<Longrightarrow>
    client_step marshal (c, calls) (del_pending i c, calls(i \<mapsto> Returned (Inl CtxErr)))"
| frame: "\<not> cl_done c \<Longrightarrow> client_step marshal (c, calls) (dispatch msg c, calls)"
| loop_end: "\<not> cl_done c \<Longrightarrow> client_step marshal (c, calls) (readLoop_exit err c, calls)"
| close: "client_step marshal (c, calls) (Client_Close c, calls)"

inductive client_run :: "(rhp_message \<Rightarrow> string + string) \<Rightarrow> rhp_sys \<Rightarrow> bool" for marshal where
  init: "client_run marshal (Connect w, Map.empty)"
| step: "client_run marshal s \<Longrightarrow> client_step marshal s s' \<Longrightarrow> client_run marshal s'"

subsection \<open>The invariant\<close>

definition outstanding :: "(int \<rightharpoonup> call) \<Rightarrow> int \<Rightarrow> bool" where
  "outstanding calls i \<longleftrightarrow> (\<exists>req. calls i = Some (Writing req)) \<or> calls i = Some Waiting"

definition pending_ok :: "rhp_sys \<Rightarrow> bool" where
  "pending_ok s \<longleftrightarrow> distinct (cl_pending (fst s)) \<and>
     (\<forall>i. i \<in> set (cl_pending (fst s)) \<longrightarrow> cl_chan (fst s) i = new_chan \<and> outstanding (snd s) i)"

definition calls_ok :: "rhp_sys \<Rightarrow> bool" where
  "calls_ok s \<longleftrightarrow> (\<forall>i. snd s i \<noteq> None \<longrightarrow> i \<le> cl_nextID (fst s)) \<and>
     (\<forall>i. outstanding (snd s) i \<longrightarrow> i \<in> set (cl_pending (fst s)) \<or> ch_closed (cl_chan (fst s) i)) \<and>
     (\<forall>i m. ch_buf (cl_chan (fst s) i) = Some m \<longrightarrow> rm_id m = Some i) \<and>
     (\<forall>i m. snd s i = Some (Returned (Inr m)) \<longrightarrow> rm_id m = Some i \<and> Message_Err m = ErrOk)"

definition client_inv :: "rhp_sys \<Rightarrow> bool" where
  "client_inv s \<longleftrightarrow> pending_ok s \<and> calls_ok s \<and> cl_fault (fst s) = None \<and>
     (cl_done (fst s) \<longrightarrow> cl_pending (fst s) = [] \<and> cl_closed (fst s))"

lemmas client_inv_defs = client_inv_def pending_ok_def calls_ok_def

lemma new_chan_sel [simp]: "ch_buf new_chan = None" "\<not> ch_closed new_chan"
  by (simp_all add: new_chan_def)

text \<open>What a dispatch does, on a client whose pending channels are fresh.\<close>

lemma dispatch_reply:
  assumes "rm_id msg = Some i" "i \<in> set (cl_pending c)" "cl_chan c i = new_chan"
  shows "dispatch msg c =
    c\<lparr>cl_pending := removeAll i (cl_pending c), cl_chan := (cl_chan c)(i := \<lparr>ch_buf = Some msg, ch_closed = True\<rparr>)\<rparr>"
  using assms by (simp add: dispatch_def chan_send_def chan_close_def del_pending_def Let_def new_chan_def)

text \<open>The handler call a frame without an id causes, if any.\<close>

definition push_of :: "rhp_message \<Rightarrow> push list" where
  "push_of m =
     (if rm_id m \<noteq> None then []
      else if rm_type m = ''accept'' then
        [OnAccept (derefHandle (rm_handle m)) (derefHandle (rm_child m)) (rm_remote m) (rm_local m) (port_string (rm_port m))]
      else if rm_type m = ''recv'' then [OnRecv (derefHandle (rm_handle m)) (DecodeData (deref (rm_data m)))]
      else if rm_type m = ''status'' then [OnStatus (derefHandle (rm_handle m)) (statusFlags m)]
      else if rm_type m = ''close'' then [OnClose (derefHandle (rm_handle m))]
      else [])"

lemma dispatch_other:
  assumes "\<And>i. rm_id msg = Some i \<Longrightarrow> i \<notin> set (cl_pending c)"
  shows "dispatch msg c = c\<lparr>cl_pushes := cl_pushes c @ push_of msg\<rparr>"
  using assms by (cases "rm_id msg") (simp_all add: dispatch_def push_of_def push_to_def)

lemma fold_chan_close:
  "distinct is \<Longrightarrow> \<forall>i \<in> set is. cl_chan c i = new_chan \<Longrightarrow>
   fold chan_close is c = c\<lparr>cl_chan := (\<lambda>i. if i \<in> set is then \<lparr>ch_buf = None, ch_closed = True\<rparr> else cl_chan c i)\<rparr>"
proof (induction "is" arbitrary: c)
  case (Cons j js)
  have "chan_close j c = c\<lparr>cl_chan := (cl_chan c)(j := \<lparr>ch_buf = None, ch_closed = True\<rparr>)\<rparr>"
    using Cons.prems by (simp add: chan_close_def new_chan_def)
  moreover have "\<forall>i \<in> set js. cl_chan (chan_close j c) i = new_chan" using Cons.prems calculation by auto
  ultimately show ?case using Cons by (auto simp: fun_eq_iff)
qed simp

lemma readLoop_exit_eq:
  assumes "pending_ok (c, calls)"
  shows "readLoop_exit err c = c\<lparr>cl_err := err, cl_pending := [], cl_closed := True, cl_done := True,
    cl_chan := (\<lambda>i. if i \<in> set (cl_pending c) then \<lparr>ch_buf = None, ch_closed = True\<rparr> else cl_chan c i)\<rparr>"
  using assms by (simp add: readLoop_exit_def Let_def fold_chan_close pending_ok_def cong: if_cong)

lemma client_inv_dispatch:
  assumes "client_inv (c, calls)"
  shows "client_inv (dispatch msg c, calls)"
proof (cases "\<exists>i. rm_id msg = Some i \<and> i \<in> set (cl_pending c)")
  case True
  then obtain i where i: "rm_id msg = Some i" "i \<in> set (cl_pending c)" by blast
  then have "cl_chan c i = new_chan" using assms by (simp add: client_inv_defs)
  with i have "dispatch msg c =
    c\<lparr>cl_pending := removeAll i (cl_pending c), cl_chan := (cl_chan c)(i := \<lparr>ch_buf = Some msg, ch_closed = True\<rparr>)\<rparr>"
    by (rule dispatch_reply)
  with assms i show ?thesis by (auto simp: client_inv_defs distinct_removeAll)
next
  case False
  then have "dispatch msg c = c\<lparr>cl_pushes := cl_pushes c @ push_of msg\<rparr>" by (intro dispatch_other) blast
  with assms show ?thesis by (simp add: client_inv_defs)
qed

lemma client_inv_exit: "client_inv (c, calls) \<Longrightarrow> client_inv (readLoop_exit err c, calls)"
  by (subst readLoop_exit_eq [of c calls]) (auto simp: client_inv_defs)

lemma client_inv_del:
  "client_inv (c, calls) \<Longrightarrow> client_inv (del_pending i c, calls(i \<mapsto> Returned (Inl e)))"
  if "calls i \<noteq> None"
  using that by (auto simp: client_inv_defs del_pending_def outstanding_def distinct_removeAll)

lemma client_inv_w: "client_inv (c\<lparr>cl_w := w\<rparr>, calls) = client_inv (c, calls)"
  by (simp add: client_inv_defs)

lemma client_inv_register:
  assumes "client_inv (c, calls)" "\<not> cl_closed c" "register c = (i, c')"
  shows "client_inv (c', calls(i \<mapsto> Writing req))"
proof -
  have i: "i = cl_nextID c + 1" and c': "c' = c\<lparr>cl_nextID := i, cl_pending := i # removeAll i (cl_pending c), cl_chan := (cl_chan c)(i := new_chan)\<rparr>"
    using assms(3) by (auto simp: register_def Let_def)
  have "calls i = None" using assms(1) i by (force simp: client_inv_defs)
  then show ?thesis using assms(1,2) unfolding c'
    by (auto simp: client_inv_defs outstanding_def distinct_removeAll i)
qed

inductive_cases client_stepE: "client_step marshal s s'"

lemma write_request_cases:
  assumes "write_request marshal i req c = (c', r)"
  shows "\<exists>w. c' = (case r of Inl _ \<Rightarrow> del_pending i (c\<lparr>cl_w := w\<rparr>) | Inr _ \<Rightarrow> c\<lparr>cl_w := w\<rparr>)"
  using assms by (auto simp: write_request_def split: prod.splits sum.splits)

lemma client_inv_reply:
  assumes "client_inv (c, calls)" "calls i = Some Waiting" "chan_recv (cl_chan c i) = Some r"
  shows "client_inv (c, calls(i \<mapsto> Returned r))"
proof -
  have np: "i \<notin> set (cl_pending c)" using assms(1,3) by (auto simp: client_inv_defs chan_recv_def)
  have r: "rm_id m = Some i \<and> Message_Err m = ErrOk" if "r = Inr m" for m
    using that assms(1,3) by (auto simp: client_inv_defs chan_recv_def reply_result_def split: option.splits if_splits)
  show ?thesis using assms(1,2) np r by (auto simp: client_inv_defs outstanding_def)
qed

lemma client_inv_step:
  assumes "client_step marshal s s'" "client_inv s"
  shows "client_inv s'"
  using assms
proof (induction rule: client_step.induct)
  case (start c i c' calls req)
  then show ?case by (intro client_inv_register)
next
  case (written calls i req c c')
  obtain w where "c' = c\<lparr>cl_w := w\<rparr>" using write_request_cases [OF written(2)] by auto
  then have "client_inv (c', calls)" using written(3) by (simp add: client_inv_w)
  with written(1) show ?case by (auto simp: client_inv_defs outstanding_def)
next
  case (write_failed calls i req c c' e)
  obtain w where "c' = del_pending i (c\<lparr>cl_w := w\<rparr>)" using write_request_cases [OF write_failed(2)] by auto
  with write_failed show ?case by (simp add: client_inv_del client_inv_w)
next
  case (close c calls)
  then show ?case by (auto simp: client_inv_defs Client_Close_def)
qed (auto intro: client_inv_reply client_inv_del client_inv_dispatch client_inv_exit)

lemma client_run_inv: "client_run marshal s \<Longrightarrow> client_inv s"
proof (induction rule: client_run.induct)
  case (init w)
  show ?case by (simp add: client_inv_defs Connect_def outstanding_def)
qed (rule client_inv_step)

text \<open>The read loop on any byte stream is a run of frames and the end of the loop.\<close>

lemma dispatch_done: "cl_done (dispatch msg c) = cl_done c"
  by (simp add: dispatch_def push_to_def chan_send_def chan_close_def del_pending_def set_fault_def Let_def split: option.split)

lemma readLoop_run:
  "client_run marshal (c, calls) \<Longrightarrow> \<not> cl_done c \<Longrightarrow>
   client_run marshal (readLoop unmarshal s c, calls) \<and> cl_done (readLoop unmarshal s c)"
proof (induction unmarshal s c rule: readLoop.induct)
  case (1 unmarshal s c)
  have exit: "client_run marshal (readLoop_exit e c, calls) \<and> cl_done (readLoop_exit e c)" for e
    using client_run.step [OF 1(2) client_step.loop_end [OF 1(3)]] by (simp add: readLoop_exit_def Let_def)
  have frm: "client_run marshal (dispatch msg c, calls)" "\<not> cl_done (dispatch msg c)" for msg
    using client_run.step [OF 1(2) client_step.frame [OF 1(3)]] 1(3) by (simp_all add: dispatch_done)
  show ?case
    by (subst (1 2) readLoop.simps) (use 1(1) exit frm in \<open>simp split: sum.split prod.split\<close>)
qed

text \<open>
  C9: whatever the interleaving of calls, replies, pushes, cancellations, write errors and the
  end of the connection: the read goroutine never panics and never blocks on a reply channel, and on every byte stream
  the read loop comes to its end; a call
  that returns without error returns a reply that carries its own id and the error code 0; a call
  that has returned stays as it is; and a reply dispatched while its call waits is the call's result.
\<close>

theorem client_calls_safe:
  assumes run: "client_run marshal (c, calls)"
  shows "cl_fault c = None \<and> cl_fault (dispatch msg c) = None \<and> cl_fault (readLoop_exit err c) = None
    \<and> (\<not> cl_done c \<longrightarrow> cl_fault (readLoop unmarshal s c) = None \<and> cl_done (readLoop unmarshal s c))
    \<and> (\<forall>i m. calls i = Some (Returned (Inr m)) \<longrightarrow> rm_id m = Some i \<and> Message_Err m = 0)
    \<and> (\<forall>i r c' calls'. calls i = Some (Returned r) \<and> client_step marshal (c, calls) (c', calls') \<longrightarrow> calls' i = Some (Returned r))
    \<and> (\<forall>i. calls i = Some Waiting \<and> chan_recv (cl_chan c i) = None \<and> rm_id msg = Some i \<longrightarrow>
         chan_recv (cl_chan (dispatch msg c) i) = Some (reply_result msg))"
proof (intro conjI allI impI)
  have i: "client_inv (c, calls)" using run by (rule client_run_inv)
  show "cl_fault c = None" "cl_fault (dispatch msg c) = None" "cl_fault (readLoop_exit err c) = None"
    using i client_inv_dispatch [OF i] client_inv_exit [OF i] by (simp_all add: client_inv_def)
  show "cl_fault (readLoop unmarshal s c) = None" "cl_done (readLoop unmarshal s c)" if "\<not> cl_done c"
    using readLoop_run [OF run that] client_run_inv [of marshal "(readLoop unmarshal s c, calls)"] by (simp_all add: client_inv_def)
  show "rm_id m = Some j" "Message_Err m = 0" if "calls j = Some (Returned (Inr m))" for j m
    using i that by (simp_all add: client_inv_defs ErrOk_def)
  have fresh: "calls (cl_nextID c + 1) = None" using i by (force simp: client_inv_defs)
  show "calls' j = Some (Returned r)"
    if "calls j = Some (Returned r) \<and> client_step marshal (c, calls) (c', calls')" for j r c' calls'
    using that fresh by (auto elim!: client_stepE simp: register_def Let_def)
  show "chan_recv (cl_chan (dispatch msg c) j) = Some (reply_result msg)"
    if a: "calls j = Some Waiting \<and> chan_recv (cl_chan c j) = None \<and> rm_id msg = Some j" for j
  proof -
    have "j \<in> set (cl_pending c)" "cl_chan c j = new_chan"
      using i a by (auto simp: client_inv_defs chan_recv_def outstanding_def split: option.splits if_splits)
    with a show ?thesis by (simp add: dispatch_reply chan_recv_def)
  qed
qed


subsection \<open>Witnesses\<close>

text \<open>A client with one call waiting: registered and written.\<close>

definition demo_writer :: writer where
  "demo_writer = \<lparr>wr_out = '''', wr_room = None\<rparr>"

definition demo_waiting :: client where
  "demo_waiting = fst (write_request (\<lambda>_. Inr ''{}'') 1 (mk_message ''socket'') (snd (register (Connect demo_writer))))"

lemma demo_waiting_run: "client_run (\<lambda>_. Inr ''{}'') (demo_waiting, [1 \<mapsto> Waiting])"
proof -
  let ?m = "\<lambda>_ :: rhp_message. Inr ''{}'' :: string + string"
  let ?r = "snd (register (Connect demo_writer))"
  have "client_run ?m (Connect demo_writer, Map.empty)" by (rule client_run.init)
  moreover have "client_step ?m (Connect demo_writer, Map.empty) (?r, [1 \<mapsto> Writing (mk_message ''socket'')])"
    by (rule client_step.start) (simp_all add: Connect_def register_def)
  ultimately have "client_run ?m (?r, [1 \<mapsto> Writing (mk_message ''socket'')])" by (rule client_run.step)
  moreover have "client_step ?m (?r, [1 \<mapsto> Writing (mk_message ''socket'')])
      (demo_waiting, [1 \<mapsto> Writing (mk_message ''socket''), 1 \<mapsto> Waiting])"
    by (rule client_step.written [of _ 1 "mk_message ''socket''"])
       (simp_all add: demo_waiting_def write_request_def writeMessage_def writeFrame_def write_all_def MaxPayloadLength_def
         Connect_def register_def demo_writer_def Let_def)
  ultimately show ?thesis by (metis client_run.step fun_upd_upd)
qed

theorem client_calls_safe_witness:
  "client_run (\<lambda>_. Inr ''{}'') (demo_waiting, [1 \<mapsto> Waiting]) \<and>
   cl_fault (dispatch ((mk_message ''socketReply'')\<lparr>rm_id := Some 1\<rparr>) demo_waiting) = None"
  using client_calls_safe [OF demo_waiting_run] demo_waiting_run by blast


subsection \<open>A call from its caller's side\<close>

lemma await_frames:
  assumes "i \<in> set (cl_pending c)" "cl_chan c i = new_chan" "list_all (\<lambda>m. rm_id m = None) pre" "rm_id m = Some i"
  shows "\<exists>c'. await i (map Frame pre @ Frame m # post) c = (c', Some (reply_result m)) \<and>
    cl_pushes c' = cl_pushes c @ concat (map push_of pre) \<and> cl_pending c' = removeAll i (cl_pending c) \<and> cl_w c' = cl_w c"
  using assms
proof (induction pre arbitrary: c)
  case Nil
  then show ?case by (cases post) (simp_all add: chan_recv_def dispatch_reply)
next
  case (Cons f pre)
  then have "dispatch f c = c\<lparr>cl_pushes := cl_pushes c @ push_of f\<rparr>" by (intro dispatch_other) simp
  with Cons.IH [of "dispatch f c"] Cons.prems show ?case by (simp add: chan_recv_def)
qed

lemma roundTrip_answered:
  assumes "\<not> cl_closed c" "wr_room (cl_w c) = None" "cl_nextID c + 1 \<notin> set (cl_pending c)"
    and "marshal (req\<lparr>rm_id := Some (cl_nextID c + 1)\<rparr>) = Inr payload" "length payload \<le> 65535" "rm_id m = Some (cl_nextID c + 1)"
  shows "\<exists>c'. roundTrip marshal [Frame m] req c = (c', Some (reply_result m)) \<and> \<not> cl_closed c' \<and> wr_room (cl_w c') = None \<and>
    cl_pending c' = cl_pending c \<and> cl_nextID c' = cl_nextID c + 1"
  using assms
  by (simp add: roundTrip_def register_def Let_def write_request_def writeMessage_def writeFrame_def write_all_def
      MaxPayloadLength_def chan_recv_def dispatch_reply removeAll_id)

text \<open>
  On an open client whose connection takes the request, a call gets the reply that
  carries its id, a non-zero error code becoming an error; the pushes that arrive before it reach the
  handler in order. The request is written once, as one frame, with the fresh id. A request whose
  encoding exceeds a frame fails without writing a byte. In both cases the call leaves nothing pending.
\<close>

theorem roundTrip_spec:
  assumes ok: "\<not> cl_closed c" "wr_room (cl_w c) = None" and i: "i = cl_nextID c + 1" "i \<notin> set (cl_pending c)"
    and enc: "marshal (req\<lparr>rm_id := Some i\<rparr>) = Inr payload"
  shows "(length payload \<le> 65535 \<and> list_all (\<lambda>m. rm_id m = None) pre \<and> rm_id m = Some i \<longrightarrow>
      (\<exists>c'. roundTrip marshal (map Frame pre @ Frame m # post) req c =
              (c', Some (if Message_Err m = 0 then Inr m else Inl (ServerError (Message_Err m) (rm_errText m))))
         \<and> cl_pushes c' = cl_pushes c @ concat (map push_of pre) \<and> cl_pending c' = cl_pending c
         \<and> wr_out (cl_w c') = wr_out (cl_w c) @ frame payload))
    \<and> (length payload > 65535 \<longrightarrow>
      (\<exists>c'. roundTrip marshal es req c = (c', Some (Inl (PayloadTooLong (length payload))))
         \<and> wr_out (cl_w c') = wr_out (cl_w c) \<and> cl_pending c' = cl_pending c))"
proof (intro conjI impI)
  let ?c = "c\<lparr>cl_nextID := i, cl_pending := i # cl_pending c, cl_chan := (cl_chan c)(i := new_chan)\<rparr>"
  have reg: "register c = (i, ?c)" using i by (simp add: register_def Let_def removeAll_id)
  {
    assume a: "length payload \<le> 65535 \<and> list_all (\<lambda>m. rm_id m = None) pre \<and> rm_id m = Some i"
    define d where "d = ?c\<lparr>cl_w := (cl_w c)\<lparr>wr_out := wr_out (cl_w c) @ frame payload\<rparr>\<rparr>"
    have "write_request marshal i req ?c = (d, Inr ())"
      using a ok enc by (simp add: write_request_def writeMessage_def writeFrame_def write_all_def MaxPayloadLength_def d_def)
    then have "roundTrip marshal es req c = await i es d" for es using ok(1) reg by (simp add: roundTrip_def)
    moreover obtain c' where "await i (map Frame pre @ Frame m # post) d = (c', Some (reply_result m))"
      "cl_pushes c' = cl_pushes d @ concat (map push_of pre)" "cl_pending c' = removeAll i (cl_pending d)" "cl_w c' = cl_w d"
      using await_frames [of i d pre m post] a by (auto simp: d_def)
    ultimately show "\<exists>c'. roundTrip marshal (map Frame pre @ Frame m # post) req c =
              (c', Some (if Message_Err m = 0 then Inr m else Inl (ServerError (Message_Err m) (rm_errText m))))
         \<and> cl_pushes c' = cl_pushes c @ concat (map push_of pre) \<and> cl_pending c' = cl_pending c
         \<and> wr_out (cl_w c') = wr_out (cl_w c) @ frame payload"
      using i(2) by (simp add: d_def reply_result_def ErrOk_def removeAll_id)
  }
  assume a: "length payload > 65535"
  have "write_request marshal i req ?c = (del_pending i ?c, Inl (PayloadTooLong (length payload)))"
    using a enc by (simp add: write_request_def writeMessage_def writeFrame_def MaxPayloadLength_def)
  then show "\<exists>c'. roundTrip marshal es req c = (c', Some (Inl (PayloadTooLong (length payload))))
         \<and> wr_out (cl_w c') = wr_out (cl_w c) \<and> cl_pending c' = cl_pending c"
    using ok(1) reg i(2) by (simp add: roundTrip_def del_pending_def removeAll_id)
qed

theorem roundTrip_spec_witness:
  "\<exists>c'. roundTrip (\<lambda>_. Inr ''{}'') [Frame (mk_message ''status''), Frame ((mk_message ''socketReply'')\<lparr>rm_id := Some 1, rm_handle := Some 7\<rparr>)]
      (mk_message ''socket'') (Connect demo_writer) =
     (c', Some (Inr ((mk_message ''socketReply'')\<lparr>rm_id := Some 1, rm_handle := Some 7\<rparr>))) \<and> cl_pending c' = []"
proof -
  let ?c = "Connect demo_writer" and ?m = "(mk_message ''socketReply'')\<lparr>rm_id := Some 1, rm_handle := Some 7\<rparr>"
  have h: "\<not> cl_closed ?c" "wr_room (cl_w ?c) = None" "1 = cl_nextID ?c + 1" "1 \<notin> set (cl_pending ?c)"
    by (simp_all add: Connect_def demo_writer_def)
  have a: "length ''{}'' \<le> 65535 \<and> list_all (\<lambda>m. rm_id m = None) [mk_message ''status''] \<and> rm_id ?m = Some 1" "Message_Err ?m = 0"
    "cl_pending ?c = []" by (simp_all add: mk_message_def Message_Err_def Connect_def)
  have "(\<lambda>_. Inr ''{}'') (mk_message ''socket''\<lparr>rm_id := Some 1\<rparr>) = Inr ''{}''" by simp
  from roundTrip_spec [OF h this, where pre = "[mk_message ''status'']" and m = ?m and post = "[]", THEN conjunct1, THEN mp, OF a(1)] a(2,3)
  show ?thesis by auto
qed

end
