(* ===== verification/Config.thy ===== *)
theory Config
  imports Peer_Link
begin

text \<open>
  \<^verbatim>\<open>internal/config/config.go\<close>: the configuration read from the environment. The
  environment is a function from variable names to values (\<^verbatim>\<open>os.Getenv\<close>: an unset variable
  reads as the empty string); an error carries the offending text. \<open>Atoi\<close> is
  \<^verbatim>\<open>strconv.Atoi\<close> on a 64-bit platform. \<^verbatim>\<open>DBPath\<close> (a file name) is left out.

  Shown: what every loaded configuration satisfies, that entries in the documented forms parse to
  what they say, and which callsigns the effective allow-list holds.
\<close>

definition DefaultSSID :: int where "DefaultSSID = 4"
definition DefaultWebPort :: int where "DefaultWebPort = 18093"
definition DefaultRHPHost :: string where "DefaultRHPHost = ''127.0.0.1''"
definition DefaultRHPPort :: int where "DefaultRHPPort = 9000"
definition DefaultState :: string where "DefaultState = ''/var/lib/packetnet/apps/bpqchat''"

record peer_cfg =
  p_Call :: string
  p_Addr :: string

record rf_peer =
  rf_PeerCall :: string
  rf_OpenTo :: string
  rf_OpenPort :: string
  rf_Script :: "script_step list"

record config =
  cf_AppCallsign :: string
  cf_NodeCallsign :: string
  cf_SSID :: int
  cf_RHPHost :: string
  cf_RHPPort :: int
  cf_RHPUser :: string
  cf_RHPPass :: string
  cf_StateDir :: string
  cf_WebPort :: int
  cf_Peers :: "peer_cfg list"
  cf_RFPeers :: "rf_peer list"
  cf_PeerListen :: string
  cf_PeerAllow :: "string list"

datatype config_error =
    NoNodeCallsign
  | BadSSID string
  | BadAllowEntry string
  | BadRFEntry string
  | BadPeerEntry string
  | ViaNeedsCall string
  | ViaNeedsTarget string
  | ViaNeedsStep string
  | BadViaEntry string

subsection \<open>Numbers\<close>

definition is_digit :: "char \<Rightarrow> bool" where
  "is_digit c \<longleftrightarrow> 48 \<le> byte c \<and> byte c \<le> 57"

definition digits_val :: "string \<Rightarrow> nat" where
  "digits_val s = foldl (\<lambda>n c. n * 10 + (byte c - 48)) 0 s"

definition Atoi :: "string \<Rightarrow> int option" where
  "Atoi s =
     (let (neg, ds) = (case s of [] \<Rightarrow> (False, s) | c # t \<Rightarrow> if c = CHR ''-'' then (True, t) else if c = CHR ''+'' then (False, t) else (False, s));
          i = (if neg then - int (digits_val ds) else int (digits_val ds))
      in if ds \<noteq> [] \<and> list_all is_digit ds \<and> - (2 ^ 63) \<le> i \<and> i < 2 ^ 63 then Some i else None)"

subsection \<open>Parsing\<close>

definition isValidCallsign :: "string \<Rightarrow> bool" where
  "isValidCallsign cs =
     (let (base, ssid) = (case Cut cs (CHR ''-'') of None \<Rightarrow> (cs, None) | Some (b, s) \<Rightarrow> (b, Some s))
      in base \<noteq> '''' \<and> list_all (\<lambda>r. 65 \<le> byte r \<and> byte r \<le> 90 \<or> 48 \<le> byte r \<and> byte r \<le> 57) base
         \<and> (case ssid of None \<Rightarrow> True
            | Some s \<Rightarrow> (case Atoi s of None \<Rightarrow> False | Some n \<Rightarrow> 0 \<le> n \<and> n \<le> 15)))"

definition allowEntrySep :: "char \<Rightarrow> bool" where
  "allowEntrySep c \<longleftrightarrow> c = CHR '','' \<or> c = CHR '' '' \<or> c = CHR 0x09 \<or> c = CHR 0x0A"

fun parseAllow_entries :: "string list \<Rightarrow> config_error + string list" where
  "parseAllow_entries [] = Inr []"
| "parseAllow_entries (entry # es) =
     (let cs = ToUpper (TrimSpace entry)
      in if cs = '''' then parseAllow_entries es
         else if \<not> isValidCallsign cs then Inl (BadAllowEntry entry)
         else (case parseAllow_entries es of Inl e \<Rightarrow> Inl e | Inr out \<Rightarrow> Inr (cs # out)))"

definition parseAllow :: "string \<Rightarrow> config_error + string list" where
  "parseAllow s = (let s = TrimSpace s in if s = '''' then Inr [] else parseAllow_entries (FieldsFunc s allowEntrySep))"

definition config_baseCall :: "string \<Rightarrow> string" where
  "config_baseCall callsign = takeWhile (\<lambda>c. c \<noteq> CHR ''-'') callsign"

text \<open>The loop over the steps of a connect script.\<close>

fun via_script :: "string list \<Rightarrow> script_step list" where
  "via_script [] = []"
| "via_script (f # fs) =
     (if f = '''' then via_script fs
      else (case Cut f (CHR ''='') of
              Some (e, s) \<Rightarrow> \<lparr>s_Expect = TrimSpace e, s_Send = TrimSpace s\<rparr>
            | None \<Rightarrow> \<lparr>s_Expect = '''', s_Send = TrimSpace f\<rparr>) # via_script fs)"

definition parseVia :: "string \<Rightarrow> string \<Rightarrow> config_error + rf_peer" where
  "parseVia spec entry =
     (let fields = map TrimSpace (Split spec (CHR ''|'')); peerCall = ToUpper (fields ! 0)
      in if peerCall = '''' then Inl (ViaNeedsCall entry)
         else if length fields = 1 then
           (let base = config_baseCall peerCall
            in Inr \<lparr>rf_PeerCall = peerCall, rf_OpenTo = base, rf_OpenPort = '''',
                 rf_Script = [\<lparr>s_Expect = base @ ''>'', s_Send = ''C '' @ peerCall\<rparr>]\<rparr>)
         else if length fields \<ge> 3 then
           (let openTo = ToUpper (fields ! 1)
            in if openTo = '''' then Inl (ViaNeedsTarget entry)
               else (let script = via_script (drop 2 fields)
                     in if script = [] then Inl (ViaNeedsStep entry)
                        else Inr \<lparr>rf_PeerCall = peerCall, rf_OpenTo = openTo, rf_OpenPort = '''', rf_Script = script\<rparr>))
         else Inl (BadViaEntry entry))"

fun parsePeers_entries :: "string list \<Rightarrow> config_error + peer_cfg list \<times> rf_peer list" where
  "parsePeers_entries [] = Inr ([], [])"
| "parsePeers_entries (raw # es) =
     (let entry = TrimSpace raw
      in if entry = '''' then parsePeers_entries es
         else
           (case CutPrefix entry ''rf:'' of
              Some call \<Rightarrow>
                (let call = ToUpper (TrimSpace call)
                 in if call = '''' then Inl (BadRFEntry entry)
                    else (case parsePeers_entries es of
                            Inl e \<Rightarrow> Inl e
                          | Inr (ps, rfs) \<Rightarrow>
                              Inr (ps, \<lparr>rf_PeerCall = call, rf_OpenTo = call, rf_OpenPort = '''', rf_Script = []\<rparr> # rfs)))
            | None \<Rightarrow>
                (case CutPrefix entry ''via:'' of
                   Some spec \<Rightarrow>
                     (case parseVia spec entry of
                        Inl e \<Rightarrow> Inl e
                      | Inr plan \<Rightarrow>
                          (case parsePeers_entries es of Inl e \<Rightarrow> Inl e | Inr (ps, rfs) \<Rightarrow> Inr (ps, plan # rfs)))
                 | None \<Rightarrow>
                     (case Cut entry (CHR ''@'') of
                        None \<Rightarrow> Inl (BadPeerEntry entry)
                      | Some (call, addr) \<Rightarrow>
                          (let call = TrimSpace call; addr = TrimSpace addr
                           in if call = '''' \<or> addr = '''' then Inl (BadPeerEntry entry)
                              else (case parsePeers_entries es of
                                      Inl e \<Rightarrow> Inl e
                                    | Inr (ps, rfs) \<Rightarrow> Inr (\<lparr>p_Call = ToUpper call, p_Addr = addr\<rparr> # ps, rfs)))))))"

definition parsePeers :: "string \<Rightarrow> config_error + peer_cfg list \<times> rf_peer list" where
  "parsePeers s = (let s = TrimSpace s in if s = '''' then Inr ([], []) else parsePeers_entries (Split s (CHR '','')))"

subsection \<open>The configuration\<close>

definition envOr :: "(string \<Rightarrow> string) \<Rightarrow> string \<Rightarrow> string \<Rightarrow> string" where
  "envOr env key d = (let v = TrimSpace (env key) in if v \<noteq> '''' then v else d)"

definition envIntOr :: "(string \<Rightarrow> string) \<Rightarrow> string \<Rightarrow> int \<Rightarrow> int" where
  "envIntOr env key d =
     (let v = TrimSpace (env key)
      in if v \<noteq> '''' then (case Atoi v of Some n \<Rightarrow> n | None \<Rightarrow> d) else d)"

definition load_ssid :: "(string \<Rightarrow> string) \<Rightarrow> config_error + int" where
  "load_ssid env =
     (let v = env ''PDN_BPQCHAT_SSID''
      in if v = '''' then Inr DefaultSSID
         else (case Atoi v of
                 None \<Rightarrow> Inl (BadSSID v)
               | Some ssid \<Rightarrow> if ssid < 0 \<or> ssid > 15 then Inl (BadSSID v) else Inr ssid))"

definition Load :: "(string \<Rightarrow> string) \<Rightarrow> config_error + config" where
  "Load env =
     (let app = ToUpper (TrimSpace (env ''PDN_APP_CALLSIGN'')); node = TrimSpace (env ''PDN_NODE_CALLSIGN'')
      in if app = '''' \<and> node = '''' then Inl NoNodeCallsign
         else
           (case load_ssid env of
              Inl e \<Rightarrow> Inl e
            | Inr ssid \<Rightarrow>
                (case parsePeers (env ''PDN_BPQCHAT_PEERS'') of
                   Inl e \<Rightarrow> Inl e
                 | Inr (peers, rfPeers) \<Rightarrow>
                     (case parseAllow (env ''PDN_BPQCHAT_PEER_ALLOW'') of
                        Inl e \<Rightarrow> Inl e
                      | Inr allow \<Rightarrow>
                          Inr \<lparr>cf_AppCallsign = app, cf_NodeCallsign = node, cf_SSID = ssid,
                            cf_RHPHost = envOr env ''PDN_RHP_HOST'' DefaultRHPHost,
                            cf_RHPPort = envIntOr env ''PDN_RHP_PORT'' DefaultRHPPort,
                            cf_RHPUser = env ''PDN_RHP_USER'', cf_RHPPass = env ''PDN_RHP_PASS'',
                            cf_StateDir = envOr env ''PDN_APP_STATE'' DefaultState,
                            cf_WebPort = envIntOr env ''PDN_WEB_PORT'' DefaultWebPort,
                            cf_Peers = peers, cf_RFPeers = rfPeers,
                            cf_PeerListen = TrimSpace (env ''PDN_BPQCHAT_PEER_LISTEN''),
                            cf_PeerAllow = allow\<rparr>))))"

definition ChatCallsign :: "config \<Rightarrow> string" where
  "ChatCallsign c = (if cf_SSID c \<le> 0 then cf_NodeCallsign c else cf_NodeCallsign c @ ''-'' @ dec_int (cf_SSID c))"

definition BoundCallsign :: "config \<Rightarrow> string" where
  "BoundCallsign c = (if cf_AppCallsign c \<noteq> '''' then cf_AppCallsign c else ChatCallsign c)"

definition NodeOwnsCallsign :: "config \<Rightarrow> bool" where
  "NodeOwnsCallsign c \<longleftrightarrow> cf_AppCallsign c \<noteq> ''''"

text \<open>The closure \<^verbatim>\<open>add\<close>: canonical, non-blank, first occurrence only.\<close>

fun add_distinct :: "string list \<Rightarrow> string list \<Rightarrow> string list" where
  "add_distinct out [] = out"
| "add_distinct out (s # ss) =
     (let cs = ToUpper (TrimSpace s)
      in if cs = '''' \<or> cs \<in> set out then add_distinct out ss else add_distinct (out @ [cs]) ss)"

definition EffectiveAllow :: "config \<Rightarrow> string list" where
  "EffectiveAllow c = add_distinct [] (cf_PeerAllow c @ map p_Call (cf_Peers c) @ map rf_PeerCall (cf_RFPeers c))"

definition DialedPeerCallsigns :: "config \<Rightarrow> string list" where
  "DialedPeerCallsigns c = add_distinct [] (map p_Call (cf_Peers c) @ map rf_PeerCall (cf_RFPeers c))"

subsection \<open>Decimal numbers are read back\<close>

lemma digits_val_append: "digits_val (s @ [c]) = digits_val s * 10 + (byte c - 48)"
  by (simp add: digits_val_def)

lemma byte_digit10: "n < 10 \<Longrightarrow> byte (digit n) = 48 + n"
  by (simp add: byte_digit)

lemma dec_nat_digits: "dec_nat n \<noteq> [] \<and> list_all is_digit (dec_nat n) \<and> digits_val (dec_nat n) = n"
proof (induction n rule: dec_nat.induct)
  case (1 n)
  show ?case
  proof (cases "n < 10")
    case True
    then show ?thesis by (subst (1 2 3) dec_nat.simps) (simp add: is_digit_def digits_val_def byte_digit10)
  next
    case False
    have d: "byte (digit (n mod 10)) = 48 + n mod 10" by (simp add: byte_digit10)
    have "n mod 10 < 10" by simp
    then have "is_digit (digit (n mod 10))" unfolding is_digit_def d by linarith
    then show ?thesis by (subst (1 2 3) dec_nat.simps) (use False 1 [OF False] d in \<open>simp add: digits_val_append\<close>)
  qed
qed

lemma is_digit_not_sign: "is_digit c \<Longrightarrow> c \<noteq> CHR ''-'' \<and> c \<noteq> CHR ''+''"
  by (auto simp: is_digit_def)

lemma Atoi_dec_nat: "n < 2 ^ 63 \<Longrightarrow> Atoi (dec_nat n) = Some (int n)"
proof -
  assume n: "n < 2 ^ 63"
  obtain c t where ct: "dec_nat n = c # t" using dec_nat_digits [of n] by (cases "dec_nat n") auto
  have "int n < 2 ^ 63" using n by (simp add: zless_nat_eq_int_zless)
  then show ?thesis using dec_nat_digits [of n] is_digit_not_sign [of c] by (simp add: Atoi_def ct split_def)
qed

subsection \<open>What the parsers return\<close>

lemma Atoi_chars: "Atoi s = Some n \<Longrightarrow> c \<in> set s \<Longrightarrow> is_digit c \<or> c = CHR ''-'' \<or> c = CHR ''+''"
  by (auto simp: Atoi_def Let_def list_all_iff split: list.splits if_splits)

lemma valid_callsign_chars:
  assumes "isValidCallsign cs" "c \<in> set cs"
  shows "65 \<le> byte c \<and> byte c \<le> 90 \<or> is_digit c \<or> c = CHR ''-'' \<or> c = CHR ''+''"
proof (cases "Cut cs (CHR ''-'')")
  case None
  then show ?thesis using assms by (auto simp: isValidCallsign_def list_all_iff is_digit_def)
next
  case (Some p)
  then obtain b s where bs: "Cut cs (CHR ''-'') = Some (b, s)" by (cases p) auto
  then have "cs = b @ CHR ''-'' # s" by (simp add: Cut_Some_iff)
  with assms bs show ?thesis
    by (auto simp: isValidCallsign_def list_all_iff is_digit_def dest: Atoi_chars split: option.splits)
qed

lemma valid_callsign_nonempty: "isValidCallsign cs \<Longrightarrow> cs \<noteq> ''''"
  by (auto simp: isValidCallsign_def)

lemma valid_callsign_storable: "isValidCallsign cs \<Longrightarrow> storable cs"
  by (auto simp: storable_def list_all_iff allowSep_def is_digit_def dest!: valid_callsign_chars)

lemma canonical_ToUpper_TrimSpace: "ToUpper (TrimSpace s) \<noteq> '''' \<Longrightarrow> canonical (ToUpper (TrimSpace s))"
  by (simp add: canonical_def normCallsign_def TrimSpace_ToUpper)

lemma parseAllow_entries_ok:
  "parseAllow_entries es = Inr out \<Longrightarrow> list_all (\<lambda>c. isValidCallsign c \<and> canonical c) out"
  by (induction es arbitrary: out)
     (auto simp: Let_def canonical_ToUpper_TrimSpace split: if_splits sum.splits)

definition rf_peer_ok :: "rf_peer \<Rightarrow> bool" where
  "rf_peer_ok p \<longleftrightarrow> canonical (rf_PeerCall p) \<and> (rf_Script p = [] \<longrightarrow> rf_OpenTo p = rf_PeerCall p) \<and>
     (rf_OpenTo p = '''' \<longrightarrow> HasPrefix (rf_PeerCall p) ''-'')"

lemma takeWhile_Nil_HasPrefix: "config_baseCall c = '''' \<Longrightarrow> c \<noteq> '''' \<Longrightarrow> HasPrefix c ''-''"
  by (cases c) (auto simp: config_baseCall_def HasPrefix_def split: if_splits)

lemma Split_nonempty: "Split_from acc s d \<noteq> []"
  by (induction acc s d rule: Split_from.induct) auto

lemma parseVia_ok: "parseVia spec entry = Inr p \<Longrightarrow> rf_peer_ok p"
proof -
  assume p: "parseVia spec entry = Inr p"
  have "map TrimSpace (Split spec (CHR ''|'')) ! 0 = TrimSpace (Split spec (CHR ''|'') ! 0)"
    using Split_nonempty [of "[]" spec] by (intro nth_map) (simp add: Split_def)
  with p show ?thesis
    by (auto simp: parseVia_def rf_peer_ok_def Let_def canonical_ToUpper_TrimSpace takeWhile_Nil_HasPrefix split: if_splits)
qed

lemma parsePeers_entries_ok:
  "parsePeers_entries es = Inr (ps, rfs) \<Longrightarrow>
   list_all (\<lambda>p. canonical (p_Call p) \<and> p_Addr p \<noteq> '''') ps \<and> list_all rf_peer_ok rfs"
proof (induction es arbitrary: ps rfs)
  case (Cons e es)
  then show ?case
    by (auto simp: Let_def canonical_ToUpper_TrimSpace rf_peer_ok_def parseVia_ok
        split: if_splits sum.splits option.splits prod.splits dest: parseVia_ok)
qed simp

lemma TrimSpace_Nil_ToUpper: "ToUpper (TrimSpace s) = '''' \<longleftrightarrow> TrimSpace s = ''''"
  by simp

lemma Load_Inr:
  assumes "Load env = Inr c"
  obtains ps rfs al ssid where "load_ssid env = Inr ssid" "parsePeers (env ''PDN_BPQCHAT_PEERS'') = Inr (ps, rfs)"
    "parseAllow (env ''PDN_BPQCHAT_PEER_ALLOW'') = Inr al" "cf_SSID c = ssid" "cf_Peers c = ps" "cf_RFPeers c = rfs"
    "cf_PeerAllow c = al" "cf_AppCallsign c = ToUpper (TrimSpace (env ''PDN_APP_CALLSIGN''))"
    "cf_NodeCallsign c = TrimSpace (env ''PDN_NODE_CALLSIGN'')" "cf_AppCallsign c \<noteq> '''' \<or> cf_NodeCallsign c \<noteq> ''''"
  using assms by (auto simp: Load_def Let_def split: if_splits sum.splits prod.splits)

text \<open>
  C25: every configuration that loads is well formed: there is a callsign to bind, the SSID is
  in 0 to 15, every entry of the allow-list is a valid callsign in canonical form that can be
  persisted, every peer to dial has a canonical callsign and an IP peer an address; an RF peer
  without a script is opened directly, and an empty open target is possible only for a peer
  callsign that starts with a hyphen.
\<close>

theorem Load_wellformed:
  assumes "Load env = Inr c"
  shows "BoundCallsign c \<noteq> '''' \<and> 0 \<le> cf_SSID c \<and> cf_SSID c \<le> 15
    \<and> list_all (\<lambda>a. isValidCallsign a \<and> canonical a \<and> storable a) (cf_PeerAllow c)
    \<and> list_all (\<lambda>p. canonical (p_Call p) \<and> p_Addr p \<noteq> '''') (cf_Peers c)
    \<and> list_all (\<lambda>p. canonical (rf_PeerCall p) \<and> (rf_Script p = [] \<longrightarrow> rf_OpenTo p = rf_PeerCall p)
         \<and> (rf_OpenTo p = '''' \<longrightarrow> HasPrefix (rf_PeerCall p) ''-'')) (cf_RFPeers c)"
proof -
  obtain ps rfs al ssid where l: "load_ssid env = Inr ssid" "parsePeers (env ''PDN_BPQCHAT_PEERS'') = Inr (ps, rfs)"
    "parseAllow (env ''PDN_BPQCHAT_PEER_ALLOW'') = Inr al" "cf_SSID c = ssid" "cf_Peers c = ps" "cf_RFPeers c = rfs"
    "cf_PeerAllow c = al" "cf_AppCallsign c \<noteq> '''' \<or> cf_NodeCallsign c \<noteq> ''''"
    using assms by (rule Load_Inr) blast
  have "BoundCallsign c \<noteq> ''''" using l(8) by (auto simp: BoundCallsign_def ChatCallsign_def)
  moreover have "0 \<le> ssid" "ssid \<le> 15"
    using l(1) by (auto simp: load_ssid_def Let_def DefaultSSID_def split: if_splits option.splits)
  moreover have "list_all (\<lambda>a. isValidCallsign a \<and> canonical a \<and> storable a) al"
    using l(3) parseAllow_entries_ok by (fastforce simp: parseAllow_def Let_def list_all_iff valid_callsign_storable split: if_splits)
  moreover have "list_all (\<lambda>p. canonical (p_Call p) \<and> p_Addr p \<noteq> '''') ps \<and> list_all rf_peer_ok rfs"
    using l(2) parsePeers_entries_ok by (fastforce simp: parsePeers_def Let_def split: if_splits)
  ultimately show ?thesis using l by (simp add: rf_peer_ok_def [abs_def])
qed

definition demo_env :: "string \<Rightarrow> string" where
  "demo_env k =
     (if k = ''PDN_NODE_CALLSIGN'' then ''GB7RDG''
      else if k = ''PDN_BPQCHAT_PEERS'' then ''M0LTE@10.0.0.1:8011, rf:gb7ndh-1,via:G0BBB-4''
      else if k = ''PDN_BPQCHAT_PEER_ALLOW'' then ''g0xxx-2, GB7STH''
      else '''')"

definition demo_config :: config where
  "demo_config =
     \<lparr>cf_AppCallsign = '''', cf_NodeCallsign = ''GB7RDG'', cf_SSID = 4, cf_RHPHost = ''127.0.0.1'', cf_RHPPort = 9000,
      cf_RHPUser = '''', cf_RHPPass = '''', cf_StateDir = ''/var/lib/packetnet/apps/bpqchat'', cf_WebPort = 18093,
      cf_Peers = [\<lparr>p_Call = ''M0LTE'', p_Addr = ''10.0.0.1:8011''\<rparr>],
      cf_RFPeers = [\<lparr>rf_PeerCall = ''GB7NDH-1'', rf_OpenTo = ''GB7NDH-1'', rf_OpenPort = '''', rf_Script = []\<rparr>,
        \<lparr>rf_PeerCall = ''G0BBB-4'', rf_OpenTo = ''G0BBB'', rf_OpenPort = '''',
         rf_Script = [\<lparr>s_Expect = ''G0BBB>'', s_Send = ''C G0BBB-4''\<rparr>]\<rparr>],
      cf_PeerListen = '''', cf_PeerAllow = [''G0XXX-2'', ''GB7STH'']\<rparr>"

lemma demo_load: "Load demo_env = Inr demo_config"
  by code_simp

theorem Load_wellformed_witness:
  "Load demo_env = Inr demo_config \<and> BoundCallsign demo_config \<noteq> '''' \<and> cf_SSID demo_config \<le> 15"
  using Load_wellformed [OF demo_load] demo_load by blast

subsection \<open>The documented entry forms\<close>

text \<open>A non-empty text whose first and last bytes are visible ASCII.\<close>

definition vis :: "char \<Rightarrow> bool" where
  "vis c \<longleftrightarrow> 0x21 \<le> byte c \<and> byte c \<le> 0x7E"

definition edges :: "string \<Rightarrow> bool" where
  "edges t \<longleftrightarrow> t \<noteq> [] \<and> vis (hd t) \<and> vis (last t)"

lemma space_len_vis: "vis c \<Longrightarrow> space_len (c # s) = 0 \<and> space_len_rev (c # s) = 0"
  by (cases s rule: space_len.cases) (auto simp: vis_def sp_defs)

lemma TrimSpace_edges [simp]: "edges t \<Longrightarrow> TrimSpace t = t"
proof -
  assume e: "edges t"
  then obtain c s where t: "t = c # s" "vis c" by (cases t) (auto simp: edges_def)
  have "last t # rev (butlast t) = rev t"
    using arg_cong [OF append_butlast_last_id [of t], of rev] t(1) by simp
  then obtain d r where "rev t = d # r" "d = last t" by metis
  with e t show ?thesis by (intro TrimSpace_id) (auto simp: edges_def space_len_vis)
qed

lemma edges_append: "edges s \<Longrightarrow> edges t \<Longrightarrow> edges (s @ u @ t)"
  by (simp add: edges_def)

lemma Split_from_nosep: "d \<notin> set s \<Longrightarrow> Split_from acc (s @ d # t) d = (rev acc @ s) # Split_from [] t d"
  by (induction s arbitrary: acc) auto

lemma Split_from_last: "d \<notin> set s \<Longrightarrow> Split_from acc s d = [rev acc @ s]"
  by (induction s arbitrary: acc) auto

lemma Split_Join: "ss \<noteq> [] \<Longrightarrow> list_all (\<lambda>s. d \<notin> set s) ss \<Longrightarrow> Split (Join ss d) d = ss"
proof (induction ss d rule: Join.induct)
  case (3 s t ss d)
  then show ?case by (simp add: Split_def Split_from_nosep)
qed (simp_all add: Split_def Split_from_last)

datatype peer_entry =
    IPEntry string string
  | RFEntry string
  | ViaEntry string
  | ViaScript string string "(string \<times> string) list"

fun show_entry :: "peer_entry \<Rightarrow> string" where
  "show_entry (IPEntry call addr) = call @ ''@'' @ addr"
| "show_entry (RFEntry call) = ''rf:'' @ call"
| "show_entry (ViaEntry call) = ''via:'' @ call"
| "show_entry (ViaScript call target steps) = ''via:'' @ Join (call # target # map (\<lambda>(e, s). e @ ''='' @ s) steps) (CHR ''|'')"

definition plain_tok :: "string \<Rightarrow> bool" where
  "plain_tok t \<longleftrightarrow> edges t \<and> CHR '','' \<notin> set t \<and> CHR ''|'' \<notin> set t"

definition call_token :: "string \<Rightarrow> bool" where
  "call_token t \<longleftrightarrow> plain_tok t \<and> ToUpper t = t"

fun entry_ok :: "peer_entry \<Rightarrow> bool" where
  "entry_ok (IPEntry call addr) \<longleftrightarrow> call_token call \<and> CHR ''@'' \<notin> set call \<and> plain_tok addr"
| "entry_ok (RFEntry call) \<longleftrightarrow> call_token call"
| "entry_ok (ViaEntry call) \<longleftrightarrow> call_token call"
| "entry_ok (ViaScript call target steps) \<longleftrightarrow> call_token call \<and> call_token target \<and> steps \<noteq> [] \<and>
     list_all (\<lambda>(e, s). plain_tok e \<and> CHR ''='' \<notin> set e \<and> plain_tok s) steps"

fun ip_peers :: "peer_entry list \<Rightarrow> peer_cfg list" where
  "ip_peers [] = []"
| "ip_peers (IPEntry call addr # es) = \<lparr>p_Call = call, p_Addr = addr\<rparr> # ip_peers es"
| "ip_peers (_ # es) = ip_peers es"

fun rf_peers :: "peer_entry list \<Rightarrow> rf_peer list" where
  "rf_peers [] = []"
| "rf_peers (IPEntry _ _ # es) = rf_peers es"
| "rf_peers (RFEntry call # es) = \<lparr>rf_PeerCall = call, rf_OpenTo = call, rf_OpenPort = '''', rf_Script = []\<rparr> # rf_peers es"
| "rf_peers (ViaEntry call # es) =
     \<lparr>rf_PeerCall = call, rf_OpenTo = config_baseCall call, rf_OpenPort = '''',
      rf_Script = [\<lparr>s_Expect = config_baseCall call @ ''>'', s_Send = ''C '' @ call\<rparr>]\<rparr> # rf_peers es"
| "rf_peers (ViaScript call target steps # es) =
     \<lparr>rf_PeerCall = call, rf_OpenTo = target, rf_OpenPort = '''',
      rf_Script = map (\<lambda>(e, s). \<lparr>s_Expect = e, s_Send = s\<rparr>) steps\<rparr> # rf_peers es"

lemma call_token_first:
  assumes "call_token call"
  obtains c t where "call = c # t" "c \<noteq> CHR ''r''" "c \<noteq> CHR ''v''"
proof -
  obtain c t where ct: "call = c # t" using assms by (cases call) (auto simp: call_token_def plain_tok_def edges_def)
  then have "upper_byte c = c" using assms by (simp add: call_token_def)
  then have "byte (upper_byte c) = byte c" by simp
  then have "c \<noteq> CHR ''r''" "c \<noteq> CHR ''v''" by (auto simp: byte_upper_byte)
  with ct that show thesis by blast
qed

lemma edges_nonempty: "edges t \<Longrightarrow> t \<noteq> []"
  by (simp add: edges_def)

lemma edges_last: "edges t \<Longrightarrow> vis c \<Longrightarrow> edges (c # s @ t)"
  by (auto simp: edges_def)

lemma vis_letters [simp]: "vis (CHR ''r'')" "vis (CHR ''v'')" "vis (CHR ''='')"
  by (simp_all add: vis_def)

text \<open>The fields of a \<^verbatim>\<open>via:\<close> specification.\<close>

lemma via_script_steps:
  "list_all (\<lambda>(e, s). plain_tok e \<and> CHR ''='' \<notin> set e \<and> plain_tok s) steps \<Longrightarrow>
   via_script (map (\<lambda>(e, s). e @ CHR ''='' # s) steps) = map (\<lambda>(e, s). \<lparr>s_Expect = e, s_Send = s\<rparr>) steps"
proof (induction steps)
  case (Cons p steps)
  obtain e s where p: "p = (e, s)" by fastforce
  have "Cut (e @ ''='' @ s) (CHR ''='') = Some (e, s)" using Cons.prems by (simp add: p Cut_Some_iff)
  with Cons p show ?case by (simp add: plain_tok_def)
qed simp

lemma step_token: "plain_tok e \<Longrightarrow> plain_tok s \<Longrightarrow> plain_tok (e @ ''='' @ s)"
  by (auto simp: plain_tok_def edges_def)

lemma parseVia_call: "call_token call \<Longrightarrow> parseVia call entry = Inr (hd (rf_peers [ViaEntry call]))"
  by (auto simp: parseVia_def call_token_def plain_tok_def Split_def Split_from_last edges_nonempty Let_def)

lemma parseVia_steps:
  assumes "entry_ok (ViaScript call target steps)"
  shows "parseVia (Join (call # target # map (\<lambda>(e, s). e @ ''='' @ s) steps) (CHR ''|'')) entry =
    Inr (hd (rf_peers [ViaScript call target steps]))"
proof -
  let ?fs = "call # target # map (\<lambda>(e, s). e @ ''='' @ s) steps"
  have tok: "list_all plain_tok ?fs"
    using assms step_token by (auto simp: call_token_def list_all_iff)
  have "Split (Join ?fs (CHR ''|'')) (CHR ''|'') = ?fs"
    by (rule Split_Join) (use tok in \<open>auto simp: list_all_iff plain_tok_def\<close>)
  moreover have "map TrimSpace ?fs = ?fs"
    by (rule map_idI) (use tok in \<open>auto simp: list_all_iff plain_tok_def\<close>)
  ultimately have f: "map TrimSpace (Split (Join ?fs (CHR ''|'')) (CHR ''|'')) = ?fs" by (simp only:)
  have s: "via_script (drop 2 ?fs) = map (\<lambda>(e, s). \<lparr>s_Expect = e, s_Send = s\<rparr>) steps"
    using assms by (simp add: via_script_steps)
  have l: "length ?fs \<ge> 3" "length ?fs \<noteq> 1" using assms by (cases steps; simp)+
  show ?thesis
    unfolding parseVia_def f Let_def s
    using assms l by (auto simp: call_token_def plain_tok_def edges_nonempty)
qed

lemma Join_last: "ss \<noteq> [] \<Longrightarrow> \<exists>u. Join ss c = u @ last ss"
  by (induction ss c rule: Join.induct) (auto simp: append_eq_append_conv2)

lemma entry_edges:
  assumes "entry_ok e"
  shows "edges (show_entry e)"
proof (cases e)
  case (ViaScript call target steps)
  let ?fs = "call # target # map (\<lambda>(e, s). e @ ''='' @ s) steps"
  have "list_all plain_tok ?fs" using assms step_token by (auto simp: ViaScript call_token_def list_all_iff)
  then have tok: "plain_tok (last ?fs)" by (metis last_in_set list.distinct(1) list_all_iff)
  obtain u where u: "Join ?fs (CHR ''|'') = u @ last ?fs" using Join_last [of ?fs] by blast
  have "show_entry e = CHR ''v'' # (''ia:'' @ u) @ last ?fs" unfolding ViaScript show_entry.simps u by simp
  then show ?thesis using tok edges_last [OF _ vis_letters(2), of "last ?fs" "''ia:'' @ u"] by (simp only: plain_tok_def)
qed (use assms in \<open>auto simp: call_token_def plain_tok_def edges_def vis_def\<close>)

lemma entry_no_comma:
  assumes "entry_ok e"
  shows "CHR '','' \<notin> set (show_entry e)"
proof (cases e)
  case (ViaScript call target steps)
  let ?fs = "call # target # map (\<lambda>(e, s). e @ ''='' @ s) steps"
  have "list_all plain_tok ?fs" using assms step_token by (auto simp: ViaScript call_token_def list_all_iff)
  then have "CHR '','' \<notin> set (Join ?fs (CHR ''|''))"
    using set_Join [of ?fs "CHR ''|''"] unfolding plain_tok_def list_all_iff by blast
  moreover have "CHR '','' \<notin> set ''via:''" by simp
  ultimately show ?thesis unfolding ViaScript show_entry.simps set_append by blast
qed (use assms in \<open>auto simp: call_token_def plain_tok_def\<close>)

lemma parsePeers_entry:
  assumes "entry_ok e" "parsePeers_entries raws = Inr (ps, rfs)"
  shows "parsePeers_entries (show_entry e # raws) = Inr (ip_peers [e] @ ps, rf_peers [e] @ rfs)"
proof -
  have t: "TrimSpace (show_entry e) = show_entry e" "show_entry e \<noteq> ''''"
    using entry_edges [OF assms(1)] edges_nonempty by auto
  show ?thesis
  proof (cases e)
    case (IPEntry call addr)
    obtain c u where c: "call = c # u" "c \<noteq> CHR ''r''" "c \<noteq> CHR ''v''"
      using assms(1) call_token_first [of call] by (auto simp: IPEntry)
    have "Cut (show_entry e) (CHR ''@'') = Some (call, addr)" using assms(1) by (simp add: IPEntry Cut_Some_iff)
    moreover have "CutPrefix (show_entry e) ''rf:'' = None" "CutPrefix (show_entry e) ''via:'' = None"
      using c by (auto simp: IPEntry CutPrefix_def HasPrefix_def)
    moreover have "TrimSpace call = call" "TrimSpace addr = addr" "call \<noteq> ''''" "addr \<noteq> ''''" "ToUpper call = call"
      using assms(1) edges_nonempty by (auto simp: IPEntry call_token_def plain_tok_def)
    ultimately show ?thesis using t assms(2) by (simp add: IPEntry Let_def)
  next
    case (RFEntry call)
    then have "TrimSpace call = call" "call \<noteq> ''''" "ToUpper call = call"
      using assms(1) edges_nonempty by (auto simp: call_token_def plain_tok_def)
    moreover have "CutPrefix (show_entry e) ''rf:'' = Some call" by (simp add: RFEntry CutPrefix_def HasPrefix_def)
    ultimately show ?thesis using t assms(2) by (simp add: RFEntry Let_def)
  next
    case (ViaEntry call)
    have "CutPrefix (show_entry e) ''rf:'' = None" "CutPrefix (show_entry e) ''via:'' = Some call"
      by (simp_all add: ViaEntry CutPrefix_def HasPrefix_def)
    moreover have "parseVia call (show_entry e) = Inr (hd (rf_peers [ViaEntry call]))"
      using assms(1) parseVia_call by (simp add: ViaEntry)
    ultimately show ?thesis using t assms(2) by (simp add: ViaEntry Let_def)
  next
    case (ViaScript call target steps)
    define sp where "sp = Join (call # target # map (\<lambda>(e, s). e @ ''='' @ s) steps) (CHR ''|'')"
    have s: "show_entry e = ''via:'' @ sp" unfolding ViaScript show_entry.simps sp_def ..
    have "CutPrefix (show_entry e) ''rf:'' = None" "CutPrefix (show_entry e) ''via:'' = Some sp"
      by (simp_all add: s CutPrefix_def HasPrefix_def)
    moreover have "parseVia sp (show_entry e) = Inr (hd (rf_peers [ViaScript call target steps]))"
      unfolding sp_def using assms(1) ViaScript by (intro parseVia_steps) simp
    moreover have "ip_peers [e] = []" "rf_peers [e] = [hd (rf_peers [ViaScript call target steps])]" by (simp_all add: ViaScript)
    ultimately show ?thesis using t assms(2) unfolding parsePeers_entries.simps by (simp add: Let_def)
  qed
qed

text \<open>
  A peer list written in the documented forms (\<^verbatim>\<open>CALL@host:port\<close>,
  \<^verbatim>\<open>rf:CALL\<close>, \<^verbatim>\<open>via:CALL\<close>, \<^verbatim>\<open>via:CALL|TARGET|EXPECT=SEND|...\<close>) and
  separated by commas parses to exactly the peers it names, in order, each with the open target and
  the connect script it says; the short \<^verbatim>\<open>via:\<close> form opens the node of the callsign's
  base, waits for its prompt and connects on to the callsign.
\<close>

theorem parsePeers_roundtrip:
  assumes "list_all entry_ok es"
  shows "parsePeers (Join (map show_entry es) (CHR '','')) = Inr (ip_peers es, rf_peers es)"
proof (cases "es = []")
  case False
  have p: "parsePeers_entries (map show_entry es) = Inr (ip_peers es, rf_peers es)"
    using assms
  proof (induction es)
    case (Cons e es)
    have "parsePeers_entries (show_entry e # map show_entry es) = Inr (ip_peers [e] @ ip_peers es, rf_peers [e] @ rf_peers es)"
      using Cons by (intro parsePeers_entry) simp_all
    moreover have "ip_peers (e # es) = ip_peers [e] @ ip_peers es" "rf_peers (e # es) = rf_peers [e] @ rf_peers es"
      by (cases e; simp)+
    ultimately show ?case by simp
  qed simp
  have "edges (Join (map show_entry es) (CHR '',''))" using assms False
  proof (induction es)
    case (Cons e es)
    then show ?case
      using entry_edges [of e] edges_append [of "show_entry e" "Join (map show_entry es) (CHR '','')" "'',''"]
      by (cases es) auto
  qed simp
  then have "TrimSpace (Join (map show_entry es) (CHR '','')) = Join (map show_entry es) (CHR '','')"
    "Join (map show_entry es) (CHR '','') \<noteq> ''''" using edges_nonempty by auto
  moreover have "Split (Join (map show_entry es) (CHR '','')) (CHR '','') = map show_entry es"
    by (rule Split_Join) (use False assms entry_no_comma in \<open>auto simp: list_all_iff\<close>)
  ultimately show ?thesis unfolding parsePeers_def Let_def by (simp only: p if_False)
qed (simp add: parsePeers_def)

theorem parsePeers_roundtrip_witness:
  "parsePeers ''M0LTE@h:1,via:GB7RDG-1|GB7STH|GB7STH>=C GB7RDG'' =
     Inr ([\<lparr>p_Call = ''M0LTE'', p_Addr = ''h:1''\<rparr>],
       [\<lparr>rf_PeerCall = ''GB7RDG-1'', rf_OpenTo = ''GB7STH'', rf_OpenPort = '''',
         rf_Script = [\<lparr>s_Expect = ''GB7STH>'', s_Send = ''C GB7RDG''\<rparr>]\<rparr>])"
proof -
  let ?es = "[IPEntry ''M0LTE'' ''h:1'', ViaScript ''GB7RDG-1'' ''GB7STH'' [(''GB7STH>'', ''C GB7RDG'')]]"
  have "list_all entry_ok ?es" by code_simp
  from parsePeers_roundtrip [OF this] show ?thesis by simp
qed

subsection \<open>The allow-list of a configuration\<close>

lemma add_distinct_set:
  "set (add_distinct out ss) = set out \<union> (normCallsign ` set ss - {''''})"
  by (induction ss arbitrary: out) (auto simp: Let_def normCallsign_def)

lemma add_distinct_distinct: "distinct out \<Longrightarrow> distinct (add_distinct out ss)"
  by (induction ss arbitrary: out) (auto simp: Let_def)

lemma EffectiveAllow_set:
  "set (EffectiveAllow c) = (normCallsign ` (set (cf_PeerAllow c) \<union> set (DialedPeerCallsigns c))) - {''''}"
proof -
  have "normCallsign ` (normCallsign ` A - {''''}) - {''''} = normCallsign ` A - {''''}" for A
    by (auto simp: image_iff intro!: bexI [where x = "normCallsign _"])
  then show ?thesis by (simp add: EffectiveAllow_def DialedPeerCallsigns_def add_distinct_set image_Un Un_Diff)
qed

text \<open>
  An SSID with a sign or leading zeros is accepted as valid, but callsigns are compared as text, so
  such an entry admits nobody under the callsign it means.
\<close>

lemma signed_ssid_accepted:
  "parseAllow ''M0LTE-+4 G0BBB-04'' = Inr [''M0LTE-+4'', ''G0BBB-04''] \<and>
   \<not> AllowList_Allowed (Some (NewAllowList [''M0LTE-+4'', ''G0BBB-04''])) ''M0LTE-4'' \<and>
   \<not> AllowList_Allowed (Some (NewAllowList [''M0LTE-+4'', ''G0BBB-04''])) ''G0BBB-4''"
  by code_simp

text \<open>The short \<^verbatim>\<open>via:\<close> form of a callsign without a base opens an empty target.\<close>

lemma via_empty_target:
  "parsePeers ''via:-4'' = Inr ([], [\<lparr>rf_PeerCall = ''-4'', rf_OpenTo = '''', rf_OpenPort = '''',
     rf_Script = [\<lparr>s_Expect = ''>'', s_Send = ''C -4''\<rparr>]\<rparr>])"
  by code_simp

end
