(* ===== verification/Peer_Link_Spec.thy ===== *)
theory Peer_Link_Spec
  imports Peer_Link
begin

text \<open>
  What a link guarantees: line framing on the wire and its bound, that the two handshakes meet,
  that a peer that is not on the allow-list changes nothing, that the expect window finds the
  first match, what a served link leaves behind, and the waits of the dialler.
\<close>

subsection \<open>Framing\<close>

definition plain :: "string \<Rightarrow> bool" where
  "plain s \<longleftrightarrow> list_all (\<lambda>c. \<not> eol c) s"

lemma plain_simps [simp]: "plain []" "plain (c # s) \<longleftrightarrow> \<not> eol c \<and> plain s" "plain (s @ t) \<longleftrightarrow> plain s \<and> plain t"
  by (simp_all add: plain_def)

lemma clean_plain: "clean s \<Longrightarrow> plain s"
  by (auto simp: clean_def plain_def list_all_iff eol_def FORMAT_def)

lemma readLine_append:
  "plain line \<Longrightarrow> eol c \<Longrightarrow> length b \<le> maxLine \<Longrightarrow>
     readLine b (line @ c # s) = (Some (b @ take (maxLine - length b) line), s)"
proof (induction line arbitrary: b)
  case (Cons d line)
  show ?case
  proof (cases "length b < maxLine")
    case True
    then have "maxLine - length b = Suc (maxLine - Suc (length b))" by simp
    then show ?thesis using Cons.IH [of "b @ [d]"] Cons.prems True by simp
  next
    case False
    then show ?thesis using Cons.IH [of b] Cons.prems by simp
  qed
qed simp

lemma readLine_plain: "plain s \<Longrightarrow> readLine b s = (None, [])"
  by (induction b s rule: readLine.induct) auto

text \<open>Every byte stream is a line with its terminator and a rest, or an unterminated tail.\<close>

lemma stream_cases:
  obtains (tail) "plain s" | (line) line c rest where "s = line @ c # rest" "plain line" "eol c"
proof (induction s arbitrary: thesis)
  case Nil
  then show ?case by simp
next
  case (Cons d s)
  show ?case
  proof (cases "eol d")
    case True
    then show ?thesis using Cons.prems(2) [of "[]"] by simp
  next
    case False
    show ?thesis
      by (rule Cons.IH) (use False Cons.prems in \<open>auto intro: Cons.prems(2) [of "d # _"]\<close>)
  qed
qed

lemma readLine_Nil_append: "plain line \<Longrightarrow> eol c \<Longrightarrow> readLine [] (line @ c # s) = (Some (take maxLine line), s)"
  using readLine_append [of line c "[]" s] by simp

lemma readLines_append: "plain line \<Longrightarrow> eol c \<Longrightarrow> readLines (line @ c # s) = take maxLine line # readLines s"
  by (subst readLines.simps) (simp add: readLine_Nil_append)

lemma readLines_plain: "plain s \<Longrightarrow> readLines s = []"
  by (subst readLines.simps) (simp add: readLine_plain)

lemma eol_CR [simp]: "eol (CHR 0x0D)" "eol (CHR 0x0A)"
  by (simp_all add: eol_def)

lemma plain_take: "plain s \<Longrightarrow> plain (take n s)"
  by (auto simp: plain_def list_all_iff dest: in_set_takeD)

lemma readLines_bound: "l \<in> set (readLines s) \<Longrightarrow> length l \<le> maxLine \<and> plain l"
proof (induction s rule: readLines.induct)
  case (1 s)
  show ?case
  proof (cases s rule: stream_cases)
    case tail
    then show ?thesis using "1.prems" by (simp add: readLines_plain)
  next
    case (line line c rest)
    have "l = take maxLine line \<or> l \<in> set (readLines rest)"
      using "1.prems" line by (simp add: readLines_append)
    then show ?thesis
      using "1.IH" [OF readLine_Nil_append [OF line(2,3), of rest, folded line(1), symmetric]] line(2)
      by (auto simp: plain_take)
  qed
qed

text \<open>
  Records written by a link, one per \<^verbatim>\<open>sendRaw\<close>, arrive as the same lines in the
  same order, if none of them holds a CR or LF and none is longer than 4096 bytes; and whatever a
  peer sends, no line handed on is longer than that or holds a terminator.
\<close>

theorem readLines_framing:
  shows "(list_all (\<lambda>l. plain l \<and> length l \<le> 4096) ls \<longrightarrow> readLines (concat (map (\<lambda>l. l @ [CHR 0x0D]) ls)) = ls)
    \<and> (\<forall>l \<in> set (readLines s). length l \<le> 4096 \<and> CHR 0x0D \<notin> set l \<and> CHR 0x0A \<notin> set l)"
proof (intro conjI impI ballI)
  show "readLines (concat (map (\<lambda>l. l @ [CHR 0x0D]) ls)) = ls" if "list_all (\<lambda>l. plain l \<and> length l \<le> 4096) ls"
    using that by (induction ls) (simp_all add: readLines_plain readLines_append maxLine_def)
qed (auto dest!: readLines_bound simp: plain_def list_all_iff maxLine_def eol_def)

theorem readLines_framing_witness:
  "readLines (concat (map (\<lambda>l. l @ [CHR 0x0D]) [''OK'', ''x y''])) = [''OK'', ''x y''] \<and>
   list_all (\<lambda>l. length l \<le> 4096) (readLines (''a'' @ [CHR 0x0A]))"
proof -
  have "list_all (\<lambda>l. plain l \<and> length l \<le> 4096) [''OK'', ''x y'']" by (simp add: eol_def)
  then show ?thesis
    using readLines_framing [of "[''OK'', ''x y'']" "''a'' @ [CHR 0x0A]"] unfolding list_all_iff by blast
qed

text \<open>
  \<^verbatim>\<open>Hub.Post\<close> trims only the ends of a text, so a text with a CR inside goes out
  raw: what follows the CR arrives at every peer as a line of its own, and if it starts with Ctrl-A
  the peer decodes it as a record of any node and user the sender chose.
\<close>

theorem cr_in_text_injects_record:
  assumes "plain node" "plain user" "plain text" "plain forged" "length (encodeData node user text) \<le> 4096" "length forged \<le> 4096"
    and "Decode forged = Some rc"
  shows "readLines (encodeData node user (text @ [CHR 0x0D] @ forged) @ [CHR 0x0D]) = [encodeData node user text, forged]"
proof -
  have e: "encodeData node user (text @ [CHR 0x0D] @ forged) @ [CHR 0x0D] = encodeData node user text @ CHR 0x0D # forged @ CHR 0x0D # []"
    by (simp add: encodeData_def encode_def)
  have "plain (encodeData node user text)" using assms(1-3) by (simp add: encodeData_def encode_def FORMAT_def ID_defs eol_def)
  then show ?thesis unfolding e using assms(4-6) by (simp add: readLines_append readLines_plain maxLine_def)
qed

theorem cr_in_text_injects_record_witness:
  "\<exists>rc. Decode (encodeLeave ''GB7RDG-4'' ''2E0XYZ'' '''' '''') = Some rc \<and> r_Type rc = IDLeave \<and>
     clip (''hi'' @ [CHR 0x0D] @ encodeLeave ''GB7RDG-4'' ''2E0XYZ'' '''' '''') = ''hi'' @ [CHR 0x0D] @ encodeLeave ''GB7RDG-4'' ''2E0XYZ'' '''' '''' \<and>
     readLines (encodeData ''M0LTE-4'' ''G8PZT'' (''hi'' @ [CHR 0x0D] @ encodeLeave ''GB7RDG-4'' ''2E0XYZ'' '''' '''') @ [CHR 0x0D]) =
       [encodeData ''M0LTE-4'' ''G8PZT'' ''hi'', encodeLeave ''GB7RDG-4'' ''2E0XYZ'' '''' '''']"
proof -
  let ?f = "encodeLeave ''GB7RDG-4'' ''2E0XYZ'' '''' ''''"
  have h: "plain ''M0LTE-4''" "plain ''G8PZT''" "plain ''hi''" "plain ?f" "length (encodeData ''M0LTE-4'' ''G8PZT'' ''hi'') \<le> 4096"
    "length ?f \<le> 4096" and d: "map_option r_Type (Decode ?f) = Some IDLeave"
    and c: "clip (''hi'' @ [CHR 0x0D] @ ?f) = ''hi'' @ [CHR 0x0D] @ ?f" by code_simp+
  from d obtain rc where "Decode ?f = Some rc" "r_Type rc = IDLeave" by auto
  with cr_in_text_injects_record [OF h this(1)] c show ?thesis by blast
qed

subsection \<open>The handshakes\<close>

lemma readUntil_hit: "plain line \<Longrightarrow> eol c \<Longrightarrow> pred (take maxLine line) \<Longrightarrow> readUntil (line @ c # s) pred = (None, s)"
  by (subst readUntil.simps) (simp add: readLine_Nil_append)

lemma readUntil_miss: "plain line \<Longrightarrow> eol c \<Longrightarrow> \<not> pred (take maxLine line) \<Longrightarrow> readUntil (line @ c # s) pred = readUntil s pred"
  by (subst readUntil.simps) (simp add: readLine_Nil_append)

lemma readFirstRecord_hit: "plain line \<Longrightarrow> eol c \<Longrightarrow> Decode (take maxLine line) = Some rc \<Longrightarrow> readFirstRecord (line @ c # s) = (Inr rc, s)"
  by (subst readFirstRecord.simps) (simp add: readLine_Nil_append)

text \<open>A transport on which no write fails.\<close>

definition healthy :: "conn \<Rightarrow> bool" where
  "healthy c \<longleftrightarrow> (\<forall>i. \<not> c_wfail c i)"

lemma conn_write_healthy:
  "healthy c \<Longrightarrow> conn_write c s = (c\<lparr>c_out := c_out c @ s, c_writes := Suc (c_writes c)\<rparr>, None)"
  by (simp add: conn_write_def healthy_def)

lemma healthy_sel [simp]: "healthy (c\<lparr>c_in := s\<rparr>) = healthy c" "healthy (c\<lparr>c_out := t\<rparr>) = healthy c"
  "healthy (c\<lparr>c_writes := n\<rparr>) = healthy c"
  by (simp_all add: healthy_def)

definition says :: "link \<Rightarrow> string list \<Rightarrow> string" where
  "says l ls = c_out (l_conn l) @ concat (map (\<lambda>s. s @ [CHR 0x0D]) ls)"

text \<open>The keepalive line a node sends.\<close>

abbreviation keepaliveLine :: "link \<Rightarrow> string" where
  "keepaliveLine l \<equiv> encodeKeepalive (l_ourNode l) (l_peerCall l) (l_version l)"

lemma take_maxLine: "length s \<le> maxLine \<Longrightarrow> take maxLine s = s"
  by simp

lemma plain_banner: "plain banner" "length banner \<le> maxLine" "isBanner banner"
  by code_simp+

lemma plain_OK: "plain ''OK''" "length ''OK'' \<le> maxLine" "isOK ''OK''"
  by code_simp+

lemma plain_RTL: "plain rtlLogin" "length rtlLogin \<le> maxLine" "IsRTL rtlLogin"
  by code_simp+

lemma handshake_outbound:
  assumes "l_outbound l" "healthy (l_conn l)" "c_in (l_conn l) = b @ CHR 0x0D # ''OK'' @ CHR 0x0D # rest"
    and "plain b" "isBanner (take maxLine b)"
  shows "\<exists>n. handshake l = (l\<lparr>l_conn := (l_conn l)\<lparr>c_in := rest, c_out := says l [rtlLogin, keepaliveLine l], c_writes := n\<rparr>\<rparr>, None)"
proof -
  have ok: "readUntil (''OK'' @ CHR 0x0D # rest) isOK = (None, rest)"
    using readUntil_hit [of "''OK''" "CHR 0x0D" isOK rest] plain_OK by (simp add: take_maxLine)
  show ?thesis
    using assms ok
    by (intro exI [of _ "c_writes (l_conn l) + 2"])
      (simp add: handshake_def andThen_def link_readUntil_def Let_def readUntil_hit sendKeepalive_def sendRaw_def
        conn_write_healthy says_def)
qed

lemma handshake_inbound:
  assumes "\<not> l_outbound l" "\<not> l_greeted l" "healthy (l_conn l)" "c_in (l_conn l) = rtl @ CHR 0x0D # rest"
    and "plain rtl" "IsRTL (take maxLine rtl)"
  shows "\<exists>n. handshake l = (l\<lparr>l_conn := (l_conn l)\<lparr>c_in := rest, c_out := says l [banner, ''OK'', keepaliveLine l], c_writes := n\<rparr>\<rparr>, None)"
  using assms
  by (intro exI [of _ "c_writes (l_conn l) + 3"])
    (simp add: handshake_def andThen_def link_readUntil_def Let_def readUntil_hit sendKeepalive_def sendRaw_def
      conn_write_healthy says_def)

text \<open>
  C33: the two ends of a link meet. On a transport that carries what the other end has
  written (the banner, then OK and a keepalive; *RTL and a keepalive), both handshakes succeed,
  each consumes exactly the lines of the handshake, and what is left to read starts with the
  other end's keepalive.
\<close>

theorem handshakes_meet:
  assumes out: "l_outbound a" "healthy (l_conn a)" "c_out (l_conn a) = ''''"
    and inb: "\<not> l_outbound b" "\<not> l_greeted b" "healthy (l_conn b)" "c_out (l_conn b) = ''''"
    and wireA: "c_in (l_conn a) = banner @ CHR 0x0D # ''OK'' @ CHR 0x0D # keepaliveLine b @ CHR 0x0D # moreA"
    and wireB: "c_in (l_conn b) = rtlLogin @ CHR 0x0D # keepaliveLine a @ CHR 0x0D # moreB"
  shows "\<exists>a' b'. handshake a = (a', None) \<and> handshake b = (b', None)
    \<and> c_out (l_conn a') = rtlLogin @ CHR 0x0D # keepaliveLine a @ [CHR 0x0D]
    \<and> c_out (l_conn b') = banner @ CHR 0x0D # ''OK'' @ CHR 0x0D # keepaliveLine b @ [CHR 0x0D]
    \<and> c_in (l_conn a') = keepaliveLine b @ CHR 0x0D # moreA
    \<and> c_in (l_conn b') = keepaliveLine a @ CHR 0x0D # moreB"
proof -
  obtain n where a: "handshake a = (a\<lparr>l_conn := (l_conn a)\<lparr>c_in := keepaliveLine b @ CHR 0x0D # moreA,
      c_out := says a [rtlLogin, keepaliveLine a], c_writes := n\<rparr>\<rparr>, None)"
    using handshake_outbound [OF out(1,2) wireA plain_banner(1)] plain_banner by (auto simp: take_maxLine)
  obtain m where b: "handshake b = (b\<lparr>l_conn := (l_conn b)\<lparr>c_in := keepaliveLine a @ CHR 0x0D # moreB,
      c_out := says b [banner, ''OK'', keepaliveLine b], c_writes := m\<rparr>\<rparr>, None)"
    using handshake_inbound [OF inb(1-3) wireB plain_RTL(1)] plain_RTL by (auto simp: take_maxLine)
  show ?thesis unfolding a b using out(3) inb(4) by (simp add: says_def)
qed

definition demo_conn :: "string \<Rightarrow> conn" where
  "demo_conn s = \<lparr>c_in = s, c_out = '''', c_wfail = \<lambda>_. False, c_writes = 0\<rparr>"

definition demo_link :: "bool \<Rightarrow> string \<Rightarrow> string \<Rightarrow> string \<Rightarrow> link" where
  "demo_link outb peer our s = NewLink (demo_conn s) \<lparr>cfg_PeerCall = peer, cfg_OurNode = our, cfg_Version = '''',
     cfg_Outbound = outb, cfg_Greeted = False, cfg_Keepalive = 0, cfg_ExpectTimeout = 0\<rparr>"

lemma demo_link_sel [simp]:
  "l_outbound (demo_link b p o' s) = b" "l_greeted (demo_link b p o' s) = False" "l_conn (demo_link b p o' s) = demo_conn s"
  "l_ourNode (demo_link b p o' s) = ToUpper o'" "l_peerCall (demo_link b p o' s) = ToUpper p" "l_version (demo_link b p o' s) = ''pdn''"
  by (simp_all add: demo_link_def NewLink_def)

lemma demo_conn_sel [simp]: "healthy (demo_conn s)" "c_in (demo_conn s) = s" "c_out (demo_conn s) = ''''"
  by (simp_all add: demo_conn_def healthy_def)

theorem handshakes_meet_witness:
  "\<exists>sa sb a' b'. handshake (demo_link True ''GB7RDG-4'' ''M0LTE-4'' sa) = (a', None) \<and>
     handshake (demo_link False ''M0LTE-4'' ''GB7RDG-4'' sb) = (b', None) \<and>
     c_out (l_conn b') = banner @ CHR 0x0D # ''OK'' @ CHR 0x0D # encodeKeepalive ''GB7RDG-4'' ''M0LTE-4'' ''pdn'' @ [CHR 0x0D]"
proof -
  let ?ka = "encodeKeepalive ''M0LTE-4'' ''GB7RDG-4'' ''pdn''" and ?kb = "encodeKeepalive ''GB7RDG-4'' ''M0LTE-4'' ''pdn''"
  let ?sa = "banner @ CHR 0x0D # ''OK'' @ CHR 0x0D # ?kb @ CHR 0x0D # []" and ?sb = "rtlLogin @ CHR 0x0D # ?ka @ CHR 0x0D # []"
  let ?a = "demo_link True ''GB7RDG-4'' ''M0LTE-4'' ?sa" and ?b = "demo_link False ''M0LTE-4'' ''GB7RDG-4'' ?sb"
  have u: "ToUpper ''GB7RDG-4'' = ''GB7RDG-4''" "ToUpper ''M0LTE-4'' = ''M0LTE-4''" by code_simp+
  have "c_in (l_conn ?a) = banner @ CHR 0x0D # ''OK'' @ CHR 0x0D # keepaliveLine ?b @ CHR 0x0D # []"
    "c_in (l_conn ?b) = rtlLogin @ CHR 0x0D # keepaliveLine ?a @ CHR 0x0D # []" by (simp_all only: demo_link_sel demo_conn_sel u)
  from handshakes_meet [OF _ _ _ _ _ _ _ this] have "\<exists>a' b'. handshake ?a = (a', None) \<and> handshake ?b = (b', None) \<and>
      c_out (l_conn b') = banner @ CHR 0x0D # ''OK'' @ CHR 0x0D # keepaliveLine ?b @ [CHR 0x0D]"
    by (simp only: demo_link_sel demo_conn_sel simp_thms) blast
  then show ?thesis unfolding demo_link_sel u by blast
qed

subsection \<open>The inbound gate\<close>

text \<open>What the caller presents: after *RTL, the node field of its first decodable record.\<close>

definition presents :: "string \<Rightarrow> wire_record \<Rightarrow> bool" where
  "presents s rc \<longleftrightarrow> (\<exists>s' s''. readUntil s IsRTL = (None, s') \<and> readFirstRecord s' = (Inr rc, s''))"

text \<open>
  C13: an inbound IP caller whose claimed callsign is not on the allow-list is dropped before any
  OK, change of the hub, registration or relay: the router is the same, nothing is sent to other
  links, the caller gets only the banner, and the refusal is counted. This holds for a nil list
  and for every caller; only a listed caller gets an OK.
\<close>

theorem inbound_gate:
  assumes ok: "healthy rw" "c_out rw = ''''" and first: "presents (c_in rw) rc"
    and deny: "\<not> AllowList_Allowed allow (r_Node rc)"
  shows "ib_router (ServeInboundIP clk handled hnd rw r ourNode allow) = r
    \<and> ib_sent (ServeInboundIP clk handled hnd rw r ourNode allow) = []
    \<and> c_out (ib_conn (ServeInboundIP clk handled hnd rw r ourNode allow)) = banner @ [CHR 0x0D]
    \<and> (r_Node rc \<noteq> '''' \<longrightarrow>
         ib_allow (ServeInboundIP clk handled hnd rw r ourNode allow) = fst (AllowList_Reject allow) \<and>
         ib_err (ServeInboundIP clk handled hnd rw r ourNode allow) = Refused (r_Node rc))"
proof -
  obtain s' s'' where s: "readUntil (c_in rw) IsRTL = (None, s')" "readFirstRecord s' = (Inr rc, s'')"
    using first by (auto simp: presents_def)
  let ?c = "(rw\<lparr>c_out := banner @ [CHR 0x0D], c_writes := Suc (c_writes rw)\<rparr>)\<lparr>c_in := s''\<rparr>"
  have "ServeInboundIP clk handled hnd rw r ourNode allow =
      (if r_Node rc = '''' then \<lparr>ib_conn = ?c, ib_router = r, ib_allow = allow, ib_sent = [], ib_err = NoNode\<rparr>
       else \<lparr>ib_conn = ?c, ib_router = r, ib_allow = fst (AllowList_Reject allow), ib_sent = [], ib_err = Refused (r_Node rc)\<rparr>)"
    using s deny ok by (simp add: ServeInboundIP_def Let_def conn_write_healthy)
  then show ?thesis by simp
qed

theorem inbound_gate_witness:
  "ib_router (ServeInboundIP int 9 ''link-3'' (demo_conn (rtlLogin @ CHR 0x0D # encodeKeepalive ''G0BAD'' ''M0LTE-4'' ''1'' @ [CHR 0x0D]))
     demo_router ''M0LTE-4'' (Some (NewAllowList [''GB7RDG-4'']))) = demo_router"
proof -
  let ?k = "encodeKeepalive ''G0BAD'' ''M0LTE-4'' ''1''" and ?l = "Some (NewAllowList [''GB7RDG-4''])"
  let ?s = "rtlLogin @ CHR 0x0D # ?k @ [CHR 0x0D]"
  have k: "plain ?k" "length ?k \<le> maxLine" "map_option r_Node (Decode ?k) = Some ''G0BAD''" "\<not> AllowList_Allowed ?l ''G0BAD''" by code_simp+
  then obtain rc where rc: "Decode ?k = Some rc" "r_Node rc = ''G0BAD''" by auto
  have "readFirstRecord (?k @ [CHR 0x0D]) = (Inr rc, [])"
    using readFirstRecord_hit [of ?k "CHR 0x0D" rc "[]"] k rc by (simp add: take_maxLine)
  moreover have "readUntil ?s IsRTL = (None, ?k @ [CHR 0x0D])"
    using readUntil_hit [of rtlLogin "CHR 0x0D" IsRTL] plain_RTL by (simp add: take_maxLine)
  ultimately have p: "presents (c_in (demo_conn ?s)) rc" by (auto simp: presents_def)
  have d: "\<not> AllowList_Allowed ?l (r_Node rc)" using k(4) rc(2) by simp
  show ?thesis by (rule inbound_gate [OF demo_conn_sel(1,3) p d, THEN conjunct1])
qed

subsection \<open>The expect window\<close>

lemma sublist_snoc_cases: "sublist w (x @ [c]) \<Longrightarrow> sublist w x \<or> suffix w (x @ [c])"
proof -
  assume "sublist w (x @ [c])"
  then obtain ps ss where e: "x @ [c] = ps @ w @ ss" by (auto simp: sublist_def)
  show ?thesis
  proof (cases ss rule: rev_cases)
    case Nil
    then show ?thesis using e by (auto simp: suffix_def)
  next
    case (snoc ss' d)
    then have "x = ps @ w @ ss'" using e by (metis append_assoc butlast_snoc)
    then show ?thesis by (auto simp: sublist_def)
  qed
qed

lemma suffix_ToUpper: "suffix a b \<Longrightarrow> suffix (ToUpper a) (ToUpper b)"
  by (metis ToUpper_simps(3) suffix_def)

lemma Contains_upper_snoc:
  assumes "\<not> Contains (ToUpper s) w"
  shows "Contains (ToUpper (s @ [b])) w \<longleftrightarrow> suffix w (ToUpper (s @ [b]))"
proof -
  have "ToUpper (s @ [b]) = ToUpper s @ [upper_byte b]" by simp
  then show ?thesis using assms sublist_snoc_cases [of w "ToUpper s" "upper_byte b"]
    by (auto simp: Contains_iff simp del: ToUpper_simps dest: suffix_imp_sublist)
qed

text \<open>A window that is a suffix of what was read and long enough sees the same new matches.\<close>

lemma window_match:
  assumes "suffix win (s @ [b])" "length w \<le> length win \<or> win = s @ [b]" "\<not> Contains (ToUpper s) w" "w \<noteq> []"
  shows "Contains (ToUpper win) w \<longleftrightarrow> Contains (ToUpper (s @ [b])) w"
proof
  have sw: "suffix (ToUpper win) (ToUpper (s @ [b]))"
    using assms(1) by (rule suffix_ToUpper)
  assume "Contains (ToUpper win) w"
  then show "Contains (ToUpper (s @ [b])) w"
    unfolding Contains_iff using sw by (meson sublist_order.order_trans suffix_imp_sublist)
next
  assume "Contains (ToUpper (s @ [b])) w"
  then have w: "suffix w (ToUpper (s @ [b]))" using Contains_upper_snoc [OF assms(3)] by blast
  have sw: "suffix (ToUpper win) (ToUpper (s @ [b]))" using assms(1) by (rule suffix_ToUpper)
  have "suffix w (ToUpper win)"
  proof (cases "win = s @ [b]")
    case False
    then have "length w \<le> length (ToUpper win)" using assms(2) by simp
    then show ?thesis using w sw by (meson suffix_length_suffix)
  qed (use w in simp)
  then show "Contains (ToUpper win) w" unfolding Contains_iff by (rule suffix_imp_sublist)
qed

text \<open>The reference: read until what was read contains the text.\<close>

fun expect_spec :: "string \<Rightarrow> string \<Rightarrow> string \<Rightarrow> link_error option \<times> string" where
  "expect_spec wantUp seen [] = (Some EOF, [])"
| "expect_spec wantUp seen (b # s) =
     (if Contains (ToUpper (seen @ [b])) wantUp then (None, s) else expect_spec wantUp (seen @ [b]) s)"

lemma expect_window:
  assumes "\<And>i. \<not> canc i" "\<And>i. clk i < deadline" "w \<noteq> []" "length w \<le> keep"
  shows "suffix win seen \<Longrightarrow> keep \<le> length win \<or> win = seen \<Longrightarrow> \<not> Contains (ToUpper seen) w \<Longrightarrow>
    expect canc clk deadline w keep i win s = expect_spec w seen s"
proof (induction s arbitrary: i win seen)
  case (Cons b s)
  let ?win = "if length (win @ [b]) > keep * 2 then drop (length (win @ [b]) - keep) (win @ [b]) else win @ [b]"
  have sf: "suffix (win @ [b]) (seen @ [b])" using Cons.prems(1) by (auto simp: suffix_def)
  have suf: "suffix ?win (seen @ [b])" 
  proof (cases "length (win @ [b]) > keep * 2")
    case True
    then show ?thesis using suffix_order.trans [OF suffix_drop sf] by (simp only: if_True)
  next
    case False
    then show ?thesis using sf by (simp only: if_False)
  qed
  have len: "keep \<le> length ?win \<or> ?win = seen @ [b]" using Cons.prems(2) by auto
  then have "length w \<le> length ?win \<or> ?win = seen @ [b]" using assms(4) by auto
  note m = window_match [OF suf this Cons.prems(3) assms(3)]
  show ?case
  proof (cases "Contains (ToUpper (seen @ [b])) w")
    case True
    then show ?thesis using m assms(1) by (simp add: Let_def del: ToUpper_simps)
  next
    case False
    then show ?thesis using m Cons.IH [OF suf len False] assms(1,2) by (simp add: Let_def del: ToUpper_simps)
  qed
qed (use assms in simp)

lemma expect_spec_result:
  assumes "\<not> Contains (ToUpper seen) w" "expect_spec w seen s = (e, rest)"
  shows "e = None \<longleftrightarrow> Contains (ToUpper (seen @ s)) w"
    and "e = None \<Longrightarrow> \<exists>p. s = p @ rest \<and> Contains (ToUpper (seen @ p)) w \<and>
      (\<forall>q. strict_prefix q p \<longrightarrow> \<not> Contains (ToUpper (seen @ q)) w)"
  using assms
proof (induction w seen s arbitrary: rule: expect_spec.induct)
  case (2 w seen b s)
  {
    case 1
    show ?case
    proof (cases "Contains (ToUpper (seen @ [b])) w")
      case True
      have "sublist (ToUpper (seen @ [b])) (ToUpper (seen @ b # s))" by (simp add: sublist_def) (metis append_Nil)
      then have "Contains (ToUpper (seen @ b # s)) w"
        using True unfolding Contains_iff by (meson sublist_order.order_trans)
      then show ?thesis using True 1 by (simp del: ToUpper_simps)
    next
      case False
      then show ?thesis using 2(1) [OF False False] 1 by (simp del: ToUpper_simps)
    qed
  next
    case 2
    show ?case
    proof (cases "Contains (ToUpper (seen @ [b])) w")
      case True
      then have "s = rest" using 2 by (simp del: ToUpper_simps)
      moreover have "\<not> Contains (ToUpper (seen @ q)) w" if "strict_prefix q [b]" for q
      proof -
        have "q = []" using that by (auto simp: strict_prefix_def prefix_Cons)
        then show ?thesis using 2(2) by simp
      qed
      ultimately show ?thesis using True by (intro exI [of _ "[b]"]) (auto simp del: ToUpper_simps)
    next
      case False
      have e: "expect_spec w (seen @ [b]) s = (e, rest)" using False 2(3) by (simp del: ToUpper_simps)
      obtain p where p: "s = p @ rest" "Contains (ToUpper (seen @ [b] @ p)) w"
        "\<forall>q. strict_prefix q p \<longrightarrow> \<not> Contains (ToUpper (seen @ [b] @ q)) w"
        using "2.IH"(2) [OF False 2(1) False e] by (auto simp del: ToUpper_simps)
      have "\<not> Contains (ToUpper (seen @ q)) w" if q: "strict_prefix q (b # p)" for q
      proof (cases q)
        case Nil
        then show ?thesis using 2(2) by simp
      next
        case (Cons c q')
        then have "c = b" "strict_prefix q' p" using q by auto
        then show ?thesis using p(3) Cons by simp
      qed
      then show ?thesis using p by (intro exI [of _ "b # p"]) (simp del: ToUpper_simps)
    qed
  }
qed auto

text \<open>
  C34: the bounded window loses nothing. While neither the context is cancelled nor the
  deadline passed, \<^verbatim>\<open>expect\<close> finds the text exactly if the stream contains it in any
  mixture of cases, and then it has consumed exactly the shortest prefix that contains it, so the
  bytes after the match are there for the next step.
\<close>

theorem expect_finds_first:
  assumes "want \<noteq> ''''" "\<forall>i. \<not> canc i" "\<forall>i. clk i < start + l_expectTimeout l"
    and "link_expect canc clk start l want = (l', e)"
  shows "(e = None \<longleftrightarrow> Contains (ToUpper (c_in (l_conn l))) (ToUpper want))
    \<and> (e = None \<longrightarrow> (\<exists>p. c_in (l_conn l) = p @ c_in (l_conn l') \<and> Contains (ToUpper p) (ToUpper want) \<and>
         (\<forall>q. strict_prefix q p \<longrightarrow> \<not> Contains (ToUpper q) (ToUpper want))))"
proof -
  have w: "ToUpper want \<noteq> []" using assms(1) by simp
  have "expect canc clk (start + l_expectTimeout l) (ToUpper want) (length want + 64) 0 [] s = expect_spec (ToUpper want) [] s" for s
    by (rule expect_window) (use assms w in simp_all)
  moreover obtain e' rest where es: "expect_spec (ToUpper want) [] (c_in (l_conn l)) = (e', rest)" by fastforce
  ultimately have r: "expect_spec (ToUpper want) [] (c_in (l_conn l)) = (e, rest)" "c_in (l_conn l') = rest"
    using assms(4) by (auto simp: link_expect_def)
  have n: "\<not> Contains (ToUpper []) (ToUpper want)" using w by simp
  show ?thesis using expect_spec_result [OF n r(1)] r(2) by auto
qed

theorem expect_finds_first_witness:
  "\<exists>l'. link_expect (\<lambda>_. False) (\<lambda>_. 0) 0 (demo_link True ''A'' ''B'' ''Node> Cmd:rest'') ''cmd:'' = (l', None) \<and>
     c_in (l_conn l') = ''rest''"
proof -
  let ?l = "demo_link True ''A'' ''B'' ''Node> Cmd:rest''"
  obtain l' e where le: "link_expect (\<lambda>_. False) (\<lambda>_. 0) 0 ?l ''cmd:'' = (l', e)" by (cases "link_expect (\<lambda>_. False) (\<lambda>_. 0) 0 ?l ''cmd:''")
  have "0 < l_expectTimeout ?l" by code_simp
  then have t: "\<forall>i :: nat. 0 < 0 + l_expectTimeout ?l" by simp
  have "Contains (ToUpper (c_in (l_conn ?l))) (ToUpper ''cmd:'')" by code_simp
  then have "e = None" using expect_finds_first [OF _ _ t le] by simp
  moreover have "c_in (l_conn (fst (link_expect (\<lambda>_. False) (\<lambda>_. 0) 0 ?l ''cmd:''))) = ''rest''" by code_simp
  ultimately show ?thesis using le by simp
qed

subsection \<open>The dialler\<close>

lemma nextBackoff_iter: "(nextBackoff ^^ n) dialInitial = min (dialInitial * 2 ^ n) dialMax"
proof (induction n)
  case (Suc n)
  have "(nextBackoff ^^ Suc n) dialInitial = nextBackoff (min (dialInitial * 2 ^ n) dialMax)" using Suc by simp
  also have "\<dots> = min (dialInitial * 2 ^ Suc n) dialMax"
    by (auto simp: nextBackoff_def Let_def min_def dialMax_def dialInitial_def second_def)
  finally show ?case .
qed (simp add: dialInitial_def dialMax_def second_def)

lemma dial_waits: "snd (snd (DialAndServe ds clk handled hnd pc our b r)) = map (\<lambda>n. (nextBackoff ^^ n) b) [0..<length ds]"
proof (induction ds arbitrary: b r)
  case (Cons d ds)
  have "map (\<lambda>n. (nextBackoff ^^ n) b) [0..<Suc (length ds)] = b # map (\<lambda>n. (nextBackoff ^^ n) (nextBackoff b)) [0..<length ds]"
    by (simp add: upt_conv_Cons map_Suc_upt [symmetric] funpow_swap1 del: upt_Suc)
  with Cons show ?case by (simp add: Let_def split_def)
qed simp

text \<open>
  The waits between the attempts of the dialler: 2 seconds, doubling each time, at most 60
  seconds, whatever the outcomes of the attempts are.
\<close>

theorem DialAndServe_waits:
  "snd (snd (DialAndServe ds clk handled hnd peerCall ourNode (2 * second) r)) =
     map (\<lambda>n. min (2 * second * 2 ^ n) (60 * second)) [0..<length ds]"
  using dial_waits [of ds clk handled hnd peerCall ourNode dialInitial r]
  by (simp add: nextBackoff_iter) (simp add: dialInitial_def dialMax_def)

end
