(* ===== verification/Peer_Serve.thy ===== *)
theory Peer_Serve
  imports Peer_Link_Spec
begin

text \<open>
  What a link does to the hub over its whole life: that it leaves nothing behind when it ends, and
  what a T record with a topic of two words does at the other end.
\<close>

subsection \<open>The node graph while a link is up\<close>

lemma Join_nodes [simp]: "h_nodes (fst (Hub_Join h u)) = h_nodes h"
  by (simp add: Hub_Join_def Let_def split_def split: option.split)

lemma ops_nodes [simp]:
  "h_nodes (Hub_Leave h k) = h_nodes h" "h_nodes (fst (Hub_SetInfo h k n q)) = h_nodes h"
  "h_nodes (fst (Hub_Post h k t)) = h_nodes h" "h_nodes (fst (Hub_Private h k c t)) = h_nodes h"
  by (simp_all add: Hub_Leave_def Hub_SetInfo_def Post_eq Private_eq Let_def split: option.split)

lemma SetTopic_nodes [simp]: "h_nodes (fst (Hub_SetTopic h k n)) = h_nodes h"
  by (simp add: Hub_SetTopic_def Let_def split_def split: option.split)

lemma LinkNode_nodes: "map_of (h_nodes h) x \<noteq> None \<Longrightarrow> map_of (h_nodes (fst (Hub_LinkNode h c a v))) x \<noteq> None"
  by (simp add: Hub_LinkNode_def Let_def split: option.split)

lemma ensureUser_nodes [simp]: "h_nodes (ensureUser h rc f) = h_nodes h"
  by (simp add: ensureUser_def Let_def split: option.split)

lemma apply_rec_nodes:
  "r_Type rc \<noteq> IDUnlink \<Longrightarrow> map_of (h_nodes h) x \<noteq> None \<Longrightarrow> map_of (h_nodes (apply_rec h rc f)) x \<noteq> None"
  using LinkNode_nodes [of h x] by (simp add: apply_rec_def Let_def)

lemma Ingest_nodes:
  "r_Type rc \<noteq> IDUnlink \<Longrightarrow> map_of (h_nodes (rt_hub r)) x \<noteq> None \<Longrightarrow>
     map_of (h_nodes (rt_hub (fst (Ingest r rc f)))) x \<noteq> None"
  using apply_rec_nodes [of rc "rt_hub r" x f] apply_rec_nodes [of rc "snd (Hub_Seen (rt_hub r) (recordID r rc))" x f]
  by (simp add: Ingest_def Let_def split_def)

text \<open>What holds between \<open>serve_up\<close> and \<open>serve_down\<close>.\<close>

definition link_up :: "string \<Rightarrow> link \<times> ('s, 'l) router \<Rightarrow> bool" where
  "link_up pc lr \<longleftrightarrow> l_peerCall (fst lr) = pc \<and> router_inv (snd lr) \<and> map_of (h_nodes (rt_hub (snd lr))) pc \<noteq> None"

lemma sendRaw_peer [simp]: "l_peerCall (fst (sendRaw l s)) = l_peerCall l" "l_ourNode (fst (sendRaw l s)) = l_ourNode l"
  by (simp_all add: sendRaw_def Let_def split_def)

lemma stateTell_peer [simp]: "l_peerCall (stateTell h l) = l_peerCall l"
proof -
  have "l_peerCall (fold tellUser us l) = l_peerCall l" for us
    by (induction us arbitrary: l) (simp_all add: tellUser_def Let_def)
  then show ?thesis by (simp add: stateTell_def)
qed

lemma handleRecord_up: "link_up pc lr \<Longrightarrow> r_Type rc \<noteq> IDUnlink \<Longrightarrow> link_up pc (fst (handleRecord t1 t2 lr rc))"
  using Ingest_nodes [of rc "snd lr" pc "l_peerCall (fst lr)"] router_inv_Ingest [of "snd lr" rc "l_peerCall (fst lr)"]
  by (auto simp: link_up_def handleRecord_def Let_def split_def markSeen_def recordPong_def)

lemma handle_up:
  "link_up pc lr \<Longrightarrow> (\<And>rc. Decode line = Some rc \<Longrightarrow> r_Type rc \<noteq> IDUnlink) \<Longrightarrow> link_up pc (fst (handle t1 t2 lr line))"
  by (auto simp: handle_def handleRecord_up split: option.split)

definition no_unlink :: "string \<Rightarrow> bool" where
  "no_unlink line \<longleftrightarrow> (case Decode line of None \<Rightarrow> True | Some rc \<Rightarrow> r_Type rc \<noteq> IDUnlink)"

lemma handleLines_up: "link_up pc lr \<Longrightarrow> list_all no_unlink lines \<Longrightarrow> link_up pc (fst (handleLines clk k lines lr))"
proof (induction lines arbitrary: k lr)
  case (Cons line lines)
  have "link_up pc (fst (handle (clk k) (clk (Suc k)) lr line))"
    using Cons.prems by (intro handle_up) (auto simp: no_unlink_def)
  then show ?case using Cons by (simp add: Let_def split_def)
qed simp

lemma serve_up_up:
  assumes "router_inv (snd lr)" "normCall (l_peerCall (fst lr)) = l_peerCall (fst lr)" "l_peerCall (fst lr) \<noteq> ''''"
  shows "link_up (l_peerCall (fst lr)) (serve_up t hnd lr)"
  using assms LinkNode_known [of "l_peerCall (fst lr)" "rt_hub (Router_Add (snd lr) (l_peerCall (fst lr)) hnd)" "''''"]
  by (simp add: link_up_def serve_up_def Let_def router_inv_def Router_Add_def inv_intros)

lemma serve_down_clean:
  assumes "link_up pc lr" "normCall pc = pc"
  shows "map_of (rt_links (snd (serve_down lr))) pc = None
    \<and> map_of (h_nodes (rt_hub (snd (serve_down lr)))) pc = None
    \<and> (\<forall>k u. map_of (h_users (rt_hub (snd (serve_down lr)))) k = Some u \<longrightarrow>
         o_link (u_origin u) \<noteq> pc \<and> o_node (u_origin u) \<noteq> pc)"
proof -
  let ?h = "rt_hub (snd lr)"
  have inv: "hub_inv ?h" and pc: "l_peerCall (fst lr) = pc" using assms(1) by (auto simp: link_up_def router_inv_def)
  obtain n where n: "map_of (h_nodes ?h) (normCall pc) = Some n" using assms by (auto simp: link_up_def)
  have h: "rt_hub (snd (serve_down lr)) = fst (Hub_UnlinkNode ?h pc)"
    by (simp add: serve_down_def Let_def Router_Remove_def pc)
  have "map_of (rt_links (snd (serve_down lr))) pc = None"
    by (simp add: serve_down_def Let_def Router_Remove_def pc)
  moreover have "map_of (h_nodes (fst (Hub_UnlinkNode ?h pc))) pc = None"
    by (simp add: UnlinkNode_known [OF n] assms(2))
  moreover have "o_link (u_origin u) \<noteq> pc \<and> o_node (u_origin u) \<noteq> pc"
    if "map_of (h_users (fst (Hub_UnlinkNode ?h pc))) k = Some u" for k u
    using that unfolding UnlinkNode_users [OF inv n] assms(2) by (auto split: option.splits if_splits)
  ultimately show ?thesis unfolding h by blast
qed

lemma stateTell_in [simp]: "c_in (l_conn (stateTell h l)) = c_in (l_conn l)"
proof -
  have s: "c_in (l_conn (fst (sendRaw l x))) = c_in (l_conn l)" for l x
    by (simp add: sendRaw_def conn_write_def Let_def)
  have "c_in (l_conn (fold tellUser us l)) = c_in (l_conn l)" for us
    by (induction us arbitrary: l) (simp_all add: tellUser_def Let_def s)
  then show ?thesis by (simp add: stateTell_def)
qed

lemma handleRecord_in: "c_in (l_conn (fst (fst (handleRecord t1 t2 lr rc)))) = c_in (l_conn (fst lr))"
  by (simp add: handleRecord_def Let_def split_def markSeen_def recordPong_def sendRaw_def conn_write_def)

lemma serve_leaves_nothing:
  assumes "router_inv r" "normCall (l_peerCall l) = l_peerCall l" "l_peerCall l \<noteq> ''''"
    and "list_all no_unlink (readLines (c_in (l_conn l)))" "\<forall>rc. pending = Some rc \<longrightarrow> r_Type rc \<noteq> IDUnlink"
    and r': "r' = snd (fst (serve clk handled pending hnd (l, r)))"
  shows "map_of (rt_links r') (l_peerCall l) = None
    \<and> map_of (h_nodes (rt_hub r')) (l_peerCall l) = None
    \<and> (\<forall>k u. map_of (h_users (rt_hub r')) k = Some u \<longrightarrow>
         o_link (u_origin u) \<noteq> l_peerCall l \<and> o_node (u_origin u) \<noteq> l_peerCall l)"
proof -
  let ?lr = "serve_up (clk 0) hnd (l, r)"
  let ?p = "case pending of None \<Rightarrow> (?lr, []) | Some rc \<Rightarrow> handleRecord (clk 1) (clk 2) ?lr rc"
  have up: "link_up (l_peerCall l) ?lr" using serve_up_up [of "(l, r)"] assms(1-3) by simp
  then have up1: "link_up (l_peerCall l) (fst ?p)" using assms(5) by (auto simp: handleRecord_up split: option.split)
  have "c_in (l_conn (fst ?lr)) = c_in (l_conn l)" by (simp add: serve_up_def Let_def)
  then have "c_in (l_conn (fst (fst ?p))) = c_in (l_conn l)" by (simp add: handleRecord_in split: option.split)
  then have "list_all no_unlink (take handled (readLines (c_in (l_conn (fst (fst ?p))))))"
    using assms(4) by (auto simp: list_all_iff dest: in_set_takeD)
  from handleLines_up [OF up1 this]
  have "link_up (l_peerCall l) (fst (handleLines clk 3 (take handled (readLines (c_in (l_conn (fst (fst ?p)))))) (fst ?p)))" .
  from serve_down_clean [OF this assms(2)] show ?thesis by (simp add: r' serve_def Let_def split_def)
qed


definition demo_up :: link where
  "demo_up = demo_link False ''GB7BSK-4'' ''M0LTE-4'' (encodeJoin ''GB7BSK-4'' ''2E0XYZ'' ''Ann'' ''Bath'' @ [CHR 0x0D])"


subsection \<open>A topic of two words\<close>

text \<open>
  A T record carries the topic unquoted and the receiver takes its first word. A topic
  of two words moves the user, at every peer, to the topic named by the first word alone.
\<close>

theorem topic_of_two_words_truncated:
  assumes inv: "hub_inv h" and tok: "token our" "token call" "token w1" "token w2" and up: "ToUpper our = our" "ToUpper call = call"
    and u: "Hub_User h (UserKey call our) = Some u"
  shows "\<exists>t u'. Decode (encodeTopic our call (w1 @ CHR '' '' # w2)) = Some t \<and>
    Hub_User (apply_rec h t f) (UserKey call our) = Some u' \<and> normTopicKey (u_topic u') = normTopicKey w1"
proof -
  have c: "list_all clean [w1 @ CHR '' '' # w2]" using tok(3,4) by (simp add: token_def)
  have "Fields (spaced [w1 @ CHR '' '' # w2]) = [w1, w2]"
    using Fields_two_tokens [OF tok(3,4)] by (simp add: spaced_def)
  with Decode_encode [OF tok(1,2) c, of IDTopic] obtain t where t: "Decode (encodeTopic our call (w1 @ CHR '' '' # w2)) = Some t"
    "r_Type t = IDTopic" "r_Node t = our" "r_User t = call" "Field t 0 = w1"
    by (auto simp: encodeTopic_def up Field_def)
  have n: "normTopicKey w1 \<noteq> ''''" using tok(3) by (simp add: token_def normTopicKey_def nosp_TrimSpace)
  have "apply_rec h t f = fst (Hub_SetTopic h (UserKey call our) w1)"
    using u by (simp add: apply_rec_def t ID_defs Let_def ensureUser_def)
  then show ?thesis using SetTopic_user [OF inv n u] t(1) by auto
qed

theorem topic_of_two_words_truncated_witness:
  "\<exists>t u'. Decode (encodeTopic ''GB7BSK-4'' ''2E0XYZ'' ''DX chat'') = Some t \<and>
     Hub_User (apply_rec demo_linked t ''GB7RDG-4'') (UserKey ''2E0XYZ'' ''GB7BSK-4'') = Some u' \<and>
     normTopicKey (u_topic u') = ''dx''"
proof -
  have inv: "hub_inv demo_linked" unfolding demo_linked_def by (intro hub_do_inv demo_hub_inv)
  have t: "token ''GB7BSK-4''" "token ''2E0XYZ''" "token ''DX''" "token ''chat''" "normTopicKey ''DX'' = ''dx''"
    and u: "ToUpper ''GB7BSK-4'' = ''GB7BSK-4''" "ToUpper ''2E0XYZ'' = ''2E0XYZ''"
    and p: "Hub_User demo_linked (UserKey ''2E0XYZ'' ''GB7BSK-4'') \<noteq> None" by code_simp+
  from p obtain v where "Hub_User demo_linked (UserKey ''2E0XYZ'' ''GB7BSK-4'') = Some v" by auto
  from topic_of_two_words_truncated [OF inv t(1-4) u this, of "''GB7RDG-4''"] show ?thesis by (simp add: t(5))
qed

end
