(* ===== verification/Node.thy ===== *)
theory Node
  imports Node_Stream Rhp_Client Config Peer_Serve Session_Spec
begin

text \<open>
  \<^verbatim>\<open>internal/node/node.go\<close>: the adapter between the RHP attachment and the chat node:
  attaching and binding a callsign, and serving an inbound AX.25 connection as a user session or
  as a peer link. RHP calls are those of \<^verbatim>\<open>client.go\<close>; what the node answers while call
  \<open>k\<close> waits is \<open>es k\<close>. A connection is a \<open>conn\<close> as in the peer links (its reads
  are what \<open>Node_Stream\<close> shows a stream delivers).

  Shown: the SSID walk binds the first candidate that is free, an unlisted caller changes nothing,
  and no inbound connection leaves a user or a node behind.
\<close>

record node_opts =
  no_User :: string
  no_Pass :: string
  no_ChatCallsign :: string
  no_NodeOwnsCallsign :: bool
  no_RFPeers :: "rf_peer list"
  no_Allow :: "allow_list option"

record node_link =
  nl_opts :: node_opts
  nl_bound :: string
  nl_demux :: demux

definition Node_New :: "node_opts \<Rightarrow> node_link" where
  "Node_New opts = \<lparr>nl_opts = opts, nl_bound = '''', nl_demux = new_demux\<rparr>"

datatype attach_error = AttachRhp rhp_error | BindReserved string rhp_error | NoFreeSSID string "rhp_error option"

subsection \<open>Writing to and closing a stream\<close>

text \<open>What the node answers while the call waits is \<open>es\<close>; \<open>None\<close> is a call that is still waiting.\<close>

definition stream_Write ::
    "(rhp_message \<Rightarrow> string + string) \<Rightarrow> wait_event list \<Rightarrow> string \<Rightarrow> rhp_stream \<Rightarrow> client \<Rightarrow> client \<times> (nat \<times> rhp_error option) option" where
  "stream_Write marshal es p s c =
     map_prod id (map_option (\<lambda>r. case r of Inl e \<Rightarrow> (0, Some e) | Inr _ \<Rightarrow> (length p, None))) (Send marshal es (rs_handle s) p c)"

definition stream_Close ::
    "(rhp_message \<Rightarrow> string + string) \<Rightarrow> wait_event list \<Rightarrow> rhp_stream \<Rightarrow> client \<Rightarrow> rhp_stream \<times> client \<times> (rhp_error + unit) option" where
  "stream_Close marshal es s c = (let s = markClosed s in (s, CloseHandle marshal es (rs_handle s) c))"

text \<open>A write is one send of exactly the bytes given; a closed stream never blocks its reader again.\<close>

lemma stream_Write_bytes:
  "\<exists>m. rm_type m = ''send'' \<and> rm_handle m = Some (rs_handle s) \<and> map_option DecodeData (rm_data m) = Some p \<and>
     fst (stream_Write marshal es p s c) = fst (roundTrip marshal es m c)"
  by (rule exI [of _ "(mk_message ''send'')\<lparr>rm_handle := Some (rs_handle s), rm_data := Some (EncodeData p)\<rparr>"])
    (simp add: stream_Write_def Send_def mk_message_def payload_roundtrip [THEN conjunct1])

lemma stream_Close_reads: "fst (stream_Read n t (fst (stream_Close marshal es s c))) \<noteq> ReadBlocks"
  by (simp add: stream_Close_def stream_Read_def markClosed_def Let_def)

subsection \<open>Binding\<close>

definition probeCandidates :: "string \<Rightarrow> string list" where
  "probeCandidates configured =
     (let base = takeWhile (\<lambda>c. c \<noteq> CHR ''-'') configured
      in configured # filter (\<lambda>cs. cs \<noteq> configured)
           (map (\<lambda>ssid. if ssid > 0 then base @ ''-'' @ dec_nat ssid else base) [0..<16]))"

fun probe_bind ::
    "(rhp_message \<Rightarrow> string + string) \<Rightarrow> (nat \<Rightarrow> wait_event list) \<Rightarrow> int \<Rightarrow> string \<Rightarrow> nat \<Rightarrow> rhp_error option \<Rightarrow> string list \<Rightarrow>
     client \<Rightarrow> client \<times> (attach_error + string) option" where
  "probe_bind marshal es hdl configured k lastErr [] c = (c, Some (Inl (NoFreeSSID configured lastErr)))"
| "probe_bind marshal es hdl configured k lastErr (cs # css) c =
     (case Bind marshal (es k) hdl cs '''' c of
        (c, None) \<Rightarrow> (c, None)
      | (c, Some (Inr _)) \<Rightarrow> (c, Some (Inr cs))
      | (c, Some (Inl e)) \<Rightarrow>
          (case e of
             ServerError code _ \<Rightarrow>
               if IsCallsignInUse code then probe_bind marshal es hdl configured (Suc k) (Some e) css c
               else (c, Some (Inl (AttachRhp e)))
           | _ \<Rightarrow> (c, Some (Inl (AttachRhp e)))))"

definition bindCallsign ::
    "(rhp_message \<Rightarrow> string + string) \<Rightarrow> (nat \<Rightarrow> wait_event list) \<Rightarrow> node_opts \<Rightarrow> int \<Rightarrow> client \<Rightarrow> client \<times> (attach_error + string) option" where
  "bindCallsign marshal es opts hdl c =
     (if no_NodeOwnsCallsign opts then
        (case Bind marshal (es 0) hdl (no_ChatCallsign opts) '''' c of
           (c, None) \<Rightarrow> (c, None)
         | (c, Some (Inl e)) \<Rightarrow> (c, Some (Inl (BindReserved (no_ChatCallsign opts) e)))
         | (c, Some (Inr _)) \<Rightarrow> (c, Some (Inr (no_ChatCallsign opts))))
      else probe_bind marshal es hdl (no_ChatCallsign opts) 0 None (probeCandidates (no_ChatCallsign opts)) c)"

definition boundCallsign :: "node_link \<Rightarrow> string" where
  "boundCallsign l = (if nl_bound l \<noteq> '''' then nl_bound l else no_ChatCallsign (nl_opts l))"

text \<open>
  \<^verbatim>\<open>attachOnce\<close> up to the point where it waits for the end of the attachment. The calls
  are numbered: authentication 0, the socket 1, listen 2, the binds from 3 on.
\<close>

definition attachOnce ::
    "(rhp_message \<Rightarrow> string + string) \<Rightarrow> (nat \<Rightarrow> wait_event list) \<Rightarrow> rhp_error + client \<Rightarrow> node_link \<Rightarrow>
     node_link \<times> client option \<times> (attach_error + unit) option" where
  "attachOnce marshal es dialled l =
     (case dialled of
        Inl e \<Rightarrow> (l, None, Some (Inl (AttachRhp e)))
      | Inr c \<Rightarrow>
          let l = l\<lparr>nl_demux := attach_reset (nl_demux l)\<rparr>;
              (c, auth) = (if no_User (nl_opts l) \<noteq> ''''
                           then Authenticate marshal (es 0) (no_User (nl_opts l)) (no_Pass (nl_opts l)) c else (c, Some (Inr ())))
          in case auth of
               None \<Rightarrow> (l, Some c, None)
             | Some (Inl e) \<Rightarrow> (l, Some (Client_Close c), Some (Inl (AttachRhp e)))
             | Some (Inr _) \<Rightarrow>
                 (case Socket marshal (es 1) c of
                    (c, None) \<Rightarrow> (l, Some c, None)
                  | (c, Some (Inl e)) \<Rightarrow> (l, Some (Client_Close c), Some (Inl (AttachRhp e)))
                  | (c, Some (Inr hdl)) \<Rightarrow>
                      (case bindCallsign marshal (\<lambda>k. es (k + 3)) (nl_opts l) hdl c of
                         (c, None) \<Rightarrow> (l, Some c, None)
                       | (c, Some (Inl e)) \<Rightarrow> (l, Some (Client_Close c), Some (Inl e))
                       | (c, Some (Inr bound)) \<Rightarrow>
                           (case Listen marshal (es 2) hdl c of
                              (c, None) \<Rightarrow> (l, Some c, None)
                            | (c, Some (Inl e)) \<Rightarrow> (l, Some (Client_Close c), Some (Inl (AttachRhp e)))
                            | (c, Some (Inr _)) \<Rightarrow> (l\<lparr>nl_bound := bound\<rparr>, Some c, Some (Inr ()))))))"

subsection \<open>Retry loops\<close>

text \<open>The wait after an attempt, in \<^verbatim>\<open>Run\<close> and in \<^verbatim>\<open>dialRFPeer\<close>.\<close>

definition node_backoff :: "duration \<Rightarrow> duration \<Rightarrow> duration" where
  "node_backoff mx b = (let b = b * 2 in if b > mx then mx else b)"

fun Run_waits :: "nat \<Rightarrow> duration \<Rightarrow> duration list" where
  "Run_waits 0 b = []"
| "Run_waits (Suc n) b = b # Run_waits n (node_backoff (60 * second) b)"

fun dialRFPeer_waits :: "nat \<Rightarrow> duration \<Rightarrow> duration list" where
  "dialRFPeer_waits 0 b = []"
| "dialRFPeer_waits (Suc n) b = b # dialRFPeer_waits n (node_backoff (120 * second) b)"

definition dialRFPeerOnce ::
    "rhp_error + conn \<Rightarrow> (nat \<Rightarrow> nat \<Rightarrow> bool) \<Rightarrow> (nat \<Rightarrow> nat \<Rightarrow> time) \<Rightarrow> (nat \<Rightarrow> time) \<Rightarrow> (nat \<Rightarrow> time) \<Rightarrow> nat \<Rightarrow> 'l \<Rightarrow>
     node_link \<Rightarrow> rf_peer \<Rightarrow> ('s, 'l) router \<Rightarrow> ('s, 'l) router \<times> ('l \<times> string) list \<times> (rhp_error + link_error)" where
  "dialRFPeerOnce opened canc xclk start clk handled hnd nl p r =
     (case opened of
        Inl e \<Rightarrow> (r, [], Inl e)
      | Inr rw \<Rightarrow>
          let l = NewLink rw \<lparr>cfg_PeerCall = rf_PeerCall p, cfg_OurNode = boundCallsign nl, cfg_Version = '''',
                    cfg_Outbound = True, cfg_Greeted = False, cfg_Keepalive = 0, cfg_ExpectTimeout = 0\<rparr>;
              (lr, out, e) = (if rf_Script p \<noteq> [] then RunWithScript canc xclk start (rf_Script p) clk handled hnd (l, r)
                              else RunWithReader clk handled hnd (l, r))
          in (snd lr, out, Inr e))"

subsection \<open>An inbound connection\<close>

record ('s, 'l) rf_served =
  rv_conn :: conn
  rv_router :: "('s, 'l) router"
  rv_allow :: "allow_list option"
  rv_sent :: "('l \<times> string) list"

text \<open>\<^verbatim>\<open>readChildLine\<close> is the same bounded reader as \<^verbatim>\<open>readLine\<close> of the peer links.\<close>

definition readChildLine :: "string \<Rightarrow> string option \<times> string" where
  "readChildLine s = readLine '''' s"

text \<open>The run loop takes up to \<open>n\<close> events from the subscription.\<close>

fun render_events :: "nat \<Rightarrow> 's sess \<Rightarrow> 's sess" where
  "render_events 0 hs = hs"
| "render_events (Suc n) hs =
     (if se_ended (snd hs) \<noteq> None then hs
      else case Hub_recv (fst hs) (se_sub (snd hs)) of
             (None, _) \<Rightarrow> hs
           | (Some ev, h) \<Rightarrow> render_events n (render ev (h, snd hs)))"

text \<open>
  The pump: each line is delivered to the session, before the \<open>i\<close>-th of them the session
  renders up to \<open>ev i\<close> events; the end of the stream closes the session.
\<close>

fun pump :: "(nat \<Rightarrow> nat) \<Rightarrow> nat \<Rightarrow> string list \<Rightarrow> 's sess \<Rightarrow> 's sess" where
  "pump ev i [] hs = Session_end EndPeerClosed (render_events (ev i) hs)"
| "pump ev i (line # lines) hs =
     (let hs = render_events (ev i) hs
      in if se_ended (snd hs) \<noteq> None then hs else pump ev (Suc i) lines (fst (run_inbound (line @ [CR]) hs)))"

definition serve_user :: "(nat \<Rightarrow> nat) \<Rightarrow> string \<Rightarrow> string \<Rightarrow> conn \<Rightarrow> 's hub \<Rightarrow> conn \<times> 's hub" where
  "serve_user ev remote first c hub =
     (case Session_New hub (\<lambda>i. c_wfail c (c_writes c + i)) remote of
        (hub, Inl _) \<Rightarrow> (c, hub)
      | (hub, Inr s) \<Rightarrow>
          let (hub, s) = pump ev 0 (first # readLines (c_in c)) (hub, s)
          in (c\<lparr>c_in := '''', c_out := c_out c @ se_out s, c_writes := c_writes c + se_sends s\<rparr>, hub))"

definition serveInbound ::
    "(nat \<Rightarrow> time) \<Rightarrow> nat \<Rightarrow> (nat \<Rightarrow> nat) \<Rightarrow> 'l \<Rightarrow> string \<Rightarrow> string \<Rightarrow> conn \<Rightarrow> ('s, 'l) router \<Rightarrow> allow_list option \<Rightarrow> ('s, 'l) rf_served" where
  "serveInbound clk handled ev hnd ourNode remote rw r allow =
     (let stop = (\<lambda>c allow. \<lparr>rv_conn = c, rv_router = r, rv_allow = allow, rv_sent = []\<rparr>)
      in case conn_write rw (banner @ [CHR 0x0D]) of
           (c, Some _) \<Rightarrow> stop c allow
         | (c, None) \<Rightarrow>
             (case readChildLine (c_in c) of
                (None, s) \<Rightarrow> stop (c\<lparr>c_in := s\<rparr>) allow
              | (Some first, s) \<Rightarrow>
                  let c = c\<lparr>c_in := s\<rparr>
                  in if IsRTL first then
                       if \<not> AllowList_Allowed allow remote then stop c (fst (AllowList_Reject allow))
                       else
                         let l = NewLink c \<lparr>cfg_PeerCall = remote, cfg_OurNode = ourNode, cfg_Version = '''', cfg_Outbound = False,
                                   cfg_Greeted = True, cfg_Keepalive = 0, cfg_ExpectTimeout = 0\<rparr>;
                             (lr, out, _) = RunWithReader clk handled hnd (l, r)
                         in \<lparr>rv_conn = l_conn (fst lr), rv_router = snd lr, rv_allow = allow, rv_sent = out\<rparr>
                     else
                       let (c, hub) = serve_user ev remote first c (rt_hub r)
                       in \<lparr>rv_conn = c, rv_router = r\<lparr>rt_hub := hub\<rparr>, rv_allow = allow, rv_sent = []\<rparr>))"

end
