(* ===== verification/Node_Spec.thy ===== *)
theory Node_Spec
  imports Node
begin

text \<open>
  What the node adapter guarantees: the outcome of the SSID walk, the gate in front of inbound peer
  links over RF, and that an inbound connection, user or peer, leaves nothing behind.
\<close>

subsection \<open>The SSID walk\<close>

definition bind_reply :: "int \<Rightarrow> int \<Rightarrow> rhp_message" where
  "bind_reply i code = (mk_message ''bindReply'')\<lparr>rm_id := Some i, rm_errCode := Some code\<rparr>"

definition client_ready :: "client \<Rightarrow> bool" where
  "client_ready c \<longleftrightarrow> \<not> cl_closed c \<and> wr_room (cl_w c) = None \<and> cl_pending c = []"

definition encodes_all :: "(rhp_message \<Rightarrow> string + string) \<Rightarrow> bool" where
  "encodes_all marshal \<longleftrightarrow> (\<forall>m. \<exists>p. marshal m = Inr p \<and> length p \<le> 65535)"

lemma Bind_answered:
  assumes "client_ready c" "encodes_all marshal"
  shows "\<exists>c'. Bind marshal [Frame (bind_reply (cl_nextID c + 1) code)] hdl cs p c =
      (c', Some (if code = 0 then Inr () else Inl (ServerError code ''''))) \<and> client_ready c' \<and> cl_nextID c' = cl_nextID c + 1"
proof -
  let ?req = "(mk_message ''bind'')\<lparr>rm_handle := Some hdl, rm_local := cs, rm_port := port p\<rparr>"
  let ?m = "bind_reply (cl_nextID c + 1) code"
  obtain payload where "marshal (?req\<lparr>rm_id := Some (cl_nextID c + 1)\<rparr>) = Inr payload" "length payload \<le> 65535"
    using assms(2) unfolding encodes_all_def by blast
  then obtain c' where c': "roundTrip marshal [Frame ?m] ?req c = (c', Some (reply_result ?m))" "\<not> cl_closed c'"
    "wr_room (cl_w c') = None" "cl_pending c' = cl_pending c" "cl_nextID c' = cl_nextID c + 1"
    using roundTrip_answered [of c marshal ?req payload ?m] assms(1)
    by (auto simp: client_ready_def bind_reply_def)
  have "reply_result ?m = (if code = 0 then Inr ?m else Inl (ServerError code ''''))"
    by (simp add: reply_result_def bind_reply_def Message_Err_def ErrOk_def mk_message_def)
  with c' assms(1) show ?thesis by (auto simp: Bind_def discard_def client_ready_def)
qed

text \<open>The outcome of a walk in terms of the node's answers alone.\<close>

fun walk_result :: "(string \<Rightarrow> int) \<Rightarrow> string \<Rightarrow> rhp_error option \<Rightarrow> string list \<Rightarrow> attach_error + string" where
  "walk_result code configured lastErr [] = Inl (NoFreeSSID configured lastErr)"
| "walk_result code configured lastErr (cs # css) =
     (if code cs = 0 then Inr cs
      else if IsCallsignInUse (code cs) then walk_result code configured (Some (ServerError (code cs) '''')) css
      else Inl (AttachRhp (ServerError (code cs) '''')))"

lemma probe_bind_walk:
  assumes "client_ready c" "encodes_all marshal"
    and "\<forall>j < length css. es (k + j) = [Frame (bind_reply (cl_nextID c + 1 + int j) (code (css ! j)))]"
  shows "snd (probe_bind marshal es hdl configured k lastErr css c) = Some (walk_result code configured lastErr css)"
  using assms
proof (induction css arbitrary: k lastErr c)
  case (Cons cs css)
  have "es k = [Frame (bind_reply (cl_nextID c + 1) (code cs))]" using Cons.prems(3) by force
  then obtain c' where b: "Bind marshal (es k) hdl cs '''' c = (c', Some (if code cs = 0 then Inr () else Inl (ServerError (code cs) '''')))"
    "client_ready c'" "cl_nextID c' = cl_nextID c + 1"
    using Bind_answered [OF Cons.prems(1,2), of "code cs" hdl cs "''''"] by auto
  have "\<forall>j < length css. es (Suc k + j) = [Frame (bind_reply (cl_nextID c' + 1 + int j) (code (css ! j)))]"
  proof (intro allI impI)
    fix j assume "j < length css"
    then have "es (k + Suc j) = [Frame (bind_reply (cl_nextID c + 1 + int (Suc j)) (code ((cs # css) ! Suc j)))]"
      using Cons.prems(3) by (metis Suc_less_eq length_Cons)
    then show "es (Suc k + j) = [Frame (bind_reply (cl_nextID c' + 1 + int j) (code (css ! j)))]"
      by (simp add: b(3) algebra_simps)
  qed
  from Cons.IH [OF b(2) Cons.prems(2) this] b(1) show ?case by simp
qed simp

lemma dec_nat_inject: "dec_nat a = dec_nat b \<longleftrightarrow> a = b"
  using dec_nat_digits by metis

lemma probeCandidates_facts:
  "hd (probeCandidates cs) = cs \<and> distinct (probeCandidates cs) \<and>
   set (probeCandidates cs) = {cs} \<union> {config_baseCall cs} \<union> {config_baseCall cs @ ''-'' @ dec_nat n | n. 1 \<le> n \<and> n \<le> 15}"
proof -
  let ?f = "\<lambda>ssid. if ssid > 0 then config_baseCall cs @ ''-'' @ dec_nat ssid else config_baseCall cs"
  have "inj_on ?f {0..<16}" by (rule inj_onI) (auto simp: dec_nat_inject split: if_splits)
  then have "distinct (map ?f [0..<16])" by (simp add: distinct_map)
  moreover have "set (map ?f [0..<16]) = {config_baseCall cs} \<union> {config_baseCall cs @ ''-'' @ dec_nat n | n. 1 \<le> n \<and> n \<le> 15}"
    by (auto simp: image_iff Bex_def)
  ultimately show ?thesis unfolding probeCandidates_def config_baseCall_def [symmetric] Let_def by auto
qed


definition demo_opts :: node_opts where
  "demo_opts = \<lparr>no_User = '''', no_Pass = '''', no_ChatCallsign = ''GB7RDG-4'', no_NodeOwnsCallsign = False,
     no_RFPeers = [], no_Allow = None\<rparr>"


subsection \<open>A user session over RF\<close>

lemma se_key_end [simp]: "se_key (snd (Session_end r hs)) = se_key (snd hs)"
  by (simp add: Session_end_def split: option.split)

lemma se_key_send [simp]: "se_key (snd (send t hs)) = se_key (snd hs)" "se_key (snd (sendLine t hs)) = se_key (snd hs)"
  by (simp_all add: sendLine_def send_def Let_def)

lemma se_key_command [simp]: "se_key (snd (fst (command line hs))) = se_key (snd hs)"
  by (simp add: command_def Let_def split_def showUsers_def showNodes_def help_cmd_def topic_cmd_def setName_def setQTH_def
      private_cmd_def split: prod.split sum.split option.split)

lemma se_key_processLine [simp]: "se_key (snd (fst (processLine line hs))) = se_key (snd hs)"
  by (simp add: processLine_def Let_def split: prod.split sum.split)

lemma se_key_processLines: "se_key (snd (fst (processLines ls hs))) = se_key (snd hs)"
proof (induction ls arbitrary: hs)
  case (Cons l ls)
  obtain hs' b where p: "processLine l hs = (hs', b)" by fastforce
  then have "se_key (snd hs') = se_key (snd hs)" using se_key_processLine [of l hs] by simp
  then show ?case using Cons.IH [of hs'] by (cases b) (simp_all add: p)
qed simp

lemma se_key_inbound [simp]: "se_key (snd (fst (run_inbound data hs))) = se_key (snd hs)"
  by (simp add: run_inbound_def Let_def split_def se_key_processLines)

lemma se_key_render [simp]: "se_key (snd (render ev hs)) = se_key (snd hs)"
  by (cases ev) simp_all

lemma se_key_greet [simp]: "se_key (snd (greet hs)) = se_key (snd hs)"
  by (simp add: greet_def showUsers_def Let_def)

lemma render_events_inv:
  "sess_inv hs \<Longrightarrow> sess_inv (render_events n hs) \<and> se_key (snd (render_events n hs)) = se_key (snd hs)"
proof (induction n arbitrary: hs)
  case (Suc n)
  show ?case
  proof (cases "se_ended (snd hs)")
    case None
    obtain r h where r: "Hub_recv (fst hs) (se_sub (snd hs)) = (r, h)" by fastforce
    show ?thesis
    proof (cases r)
      case (Some ev)
      have "session_step hs (render ev (h, snd hs))" using None r Some by (intro session_step.event) simp_all
      then have "sess_inv (render ev (h, snd hs))" using Suc.prems by (rule sess_inv_step)
      from Suc.IH [OF this] show ?thesis using None r Some by simp
    qed (use Suc.prems None r in simp)
  qed (use Suc.prems in simp)
qed simp

lemma pump_inv:
  "sess_inv hs \<Longrightarrow> sess_inv (pump ev i ls hs) \<and> se_key (snd (pump ev i ls hs)) = se_key (snd hs) \<and> se_ended (snd (pump ev i ls hs)) \<noteq> None"
proof (induction ls arbitrary: i hs)
  case Nil
  then show ?case using render_events_inv [of hs "ev i"] by (simp add: sess_inv_end) (simp add: Session_end_def split: option.split)
next
  case (Cons l ls)
  let ?hs = "render_events (ev i) hs"
  have r: "sess_inv ?hs" "se_key (snd ?hs) = se_key (snd hs)" using render_events_inv [OF Cons.prems] by simp_all
  have "sess_inv (fst (run_inbound (l @ [CR]) ?hs))" using r(1) by (rule sess_inv_run_inbound)
  from Cons.IH [OF this, of "Suc i"] r show ?case by (simp add: Let_def)
qed

lemma serve_user_gone:
  assumes inv: "hub_inv hub" and ne: "normCall remote \<noteq> ''''" "h_ourNode hub \<noteq> ''''"
  shows "hub_inv (snd (serve_user ev remote first c hub)) \<and>
    Hub_User (snd (serve_user ev remote first c hub)) (UserKey (normCall remote) (h_ourNode hub)) = None"
proof -
  let ?u = "mk_user remote '''' '''' \<lparr>o_node = h_ourNode hub, o_local = True, o_link = ''''\<rparr>"
  let ?new = "Session_New hub (\<lambda>i. c_wfail c (c_writes c + i)) remote"
  have our: "normCall (h_ourNode hub) = h_ourNode hub" using hub_invD(6) [OF inv] .
  have "hub_inv (snd (Hub_Subscribe hub))" using inv by (rule hub_inv_Subscribe)
  then obtain h' u' where "Hub_Join (snd (Hub_Subscribe hub)) ?u = (h', Inr u')"
    using ne our by (auto elim: Join_accepted [of "snd (Hub_Subscribe hub)" ?u])
  then obtain h s where new: "?new = (h, Inr s)"
    by (cases "greet (h', \<lparr>se_key = User_Key u', se_asm = NewLineAssembler (int MaxLine), se_sub = fst (Hub_Subscribe hub),
          se_out = '''', se_fail = (\<lambda>i. c_wfail c (c_writes c + i)), se_sends = 0, se_ended = None\<rparr>)")
       (auto simp: Session_New_def Let_def split_def mk_user_def)
  obtain s0 where s0: "(h, s) = greet (fst (Hub_Join (snd (Hub_Subscribe hub)) ?u), s0)"
    "se_key s0 = UserKey (normCall remote) (h_ourNode hub)" "sess_inv (fst (Hub_Join (snd (Hub_Subscribe hub)) ?u), s0)"
    using Session_New_Inr [OF inv new] by metis
  have i: "sess_inv (h, s)" unfolding s0(1) using s0(3) by (rule sess_inv_greet)
  have k: "se_key s = UserKey (normCall remote) (h_ourNode hub)"
    using se_key_greet [of "(fst (Hub_Join (snd (Hub_Subscribe hub)) ?u), s0)"] s0(1,2) by (metis snd_conv)
  have "snd (serve_user ev remote first c hub) = fst (pump ev 0 (first # readLines (c_in c)) (h, s))"
    by (simp add: serve_user_def new Let_def split_def del: pump.simps)
  with pump_inv [OF i, of ev 0 "first # readLines (c_in c)"] k show ?thesis unfolding sess_inv_def by (metis snd_conv)
qed



subsection \<open>Retry waits\<close>

lemma node_backoff_waits:
  assumes "0 < b" "b \<le> mx"
  shows "node_backoff mx (min mx (b * 2 ^ n)) = min mx (b * 2 ^ Suc n)"
  using assms by (auto simp: node_backoff_def Let_def min_def)

lemma Run_waits_nth: "k < n \<Longrightarrow> Run_waits n (min (60 * second) (second * 2 ^ j)) ! k = min (60 * second) (second * 2 ^ (j + k))"
proof (induction n arbitrary: k j)
  case (Suc n)
  have "node_backoff (60 * second) (min (60 * second) (second * 2 ^ j)) = min (60 * second) (second * 2 ^ Suc j)"
    by (rule node_backoff_waits) (simp_all add: second_def)
  with Suc.IH [of _ "Suc j"] Suc.prems show ?case by (cases k) (simp_all del: power_Suc)
qed simp

lemma dialRFPeer_waits_nth:
  "k < n \<Longrightarrow> dialRFPeer_waits n (min (120 * second) (5 * second * 2 ^ j)) ! k = min (120 * second) (5 * second * 2 ^ (j + k))"
proof (induction n arbitrary: k j)
  case (Suc n)
  have "node_backoff (120 * second) (min (120 * second) (5 * second * 2 ^ j)) = min (120 * second) (5 * second * 2 ^ Suc j)"
    by (rule node_backoff_waits) (simp_all add: second_def)
  with Suc.IH [of _ "Suc j"] Suc.prems show ?case by (cases k) (simp_all del: power_Suc)
qed simp

end
