(* ===== verification/Daemon.thy ===== *)
theory Daemon
  imports Web_Presence Node_Spec
begin

text \<open>
  \<^verbatim>\<open>cmd/pdn-bpqchat/main.go\<close>: how the parts are put together. Starting reads the
  environment, opens the database and builds the hub on it, the router on the hub, the allow-list
  from the database and the configuration, and the web server and the RHP attachment on these. The
  outcome of opening the database is an argument. The parts hold the one database by the tables
  they use (the hub the messages, the web server the claims, the editor the configuration);
  \<open>database\<close> puts it together again. Accepted IP connections are served in the order they are
  accepted. Signals, logging and the goroutines around the parts are left out.

  Shown: the parts stay on their own tables; whom a start admits; and that a restart admits whom the
  running node admitted.
\<close>

datatype log_level = LevelDebug | LevelInfo | LevelWarn | LevelError

definition logLevel :: "(string \<Rightarrow> string) \<Rightarrow> log_level" where
  "logLevel env =
     (let v = ToLower (TrimSpace (env ''PDN_LOG_LEVEL''))
      in if v = ''debug'' then LevelDebug else if v = ''warn'' then LevelWarn else if v = ''error'' then LevelError else LevelInfo)"

definition configuredPeers :: "config \<Rightarrow> (string \<times> string \<times> string) list" where
  "configuredPeers cfg =
     map (\<lambda>p. (p_Call p, ''ip'', p_Addr p)) (cf_Peers cfg) @ map (\<lambda>p. (rf_PeerCall p, ''rf'', rf_OpenTo p)) (cf_RFPeers cfg)"

text \<open>
  The accept loop: a failed accept is skipped, a connection is served with the shared router and
  allow-list (\<open>handled\<close> lines of it are handled before it ends).
\<close>

fun servePeerListener ::
    "(nat \<Rightarrow> time) \<Rightarrow> string \<Rightarrow> (nat \<times> 'l \<times> conn) option list \<Rightarrow> ('s, 'l) router \<Rightarrow> allow_list option \<Rightarrow>
     ('s, 'l) router \<times> allow_list option \<times> ('l \<times> string) list" where
  "servePeerListener clk ourNode [] r allow = (r, allow, [])"
| "servePeerListener clk ourNode (None # accepts) r allow = servePeerListener clk ourNode accepts r allow"
| "servePeerListener clk ourNode (Some (handled, hnd, conn) # accepts) r allow =
     (let ib = ServeInboundIP clk handled hnd conn r ourNode allow;
          (r, allow, out) = servePeerListener clk ourNode accepts (ib_router ib) (ib_allow ib)
      in (r, allow, ib_sent ib @ out))"

datatype start_error = ConfigError config_error | DatabaseError string | AllowError string

record 'l daemon =
  da_cfg :: config
  da_router :: "(sql_store, 'l) router"
  da_allow :: "allow_list option"
  da_web :: "(sql_store, sql_store, sql_store) server"
  da_node :: node_link

definition start ::
    "(msg_row list \<Rightarrow> msg_row list) \<Rightarrow> (string \<Rightarrow> string) \<Rightarrow> (nat \<Rightarrow> time) \<Rightarrow> (string \<Rightarrow> string) \<Rightarrow> string + sql_store \<Rightarrow>
     start_error + 'l daemon" where
  "start ord hash clk env opened =
     (case Load env of
        Inl e \<Rightarrow> Inl (ConfigError e)
      | Inr cfg \<Rightarrow>
          (case opened of
             Inl e \<Rightarrow> Inl (DatabaseError e)
           | Inr store \<Rightarrow>
               let hub = NewHub (BoundCallsign cfg) (Sqlite ord) store hash clk;
                   router = NewRouter hub
               in (case LoadAllowList Sqlite_GetConfig Sqlite_SetConfig (Some store) (cf_PeerAllow cfg) of
                     Inl e \<Rightarrow> Inl (AllowError e)
                   | Inr (a, st) \<Rightarrow>
                       let allow = AllowList_Pin a (DialedPeerCallsigns cfg)
                       in Inr \<lparr>da_cfg = cfg, da_router = router, da_allow = allow,
                            da_web = Web_New (BoundCallsign cfg) (rt_hub router) sqlite_claims (Some store)
                              (Some \<lparr>fd_allow = allow, fd_put = Sqlite_SetConfig, fd_store = st, fd_links = Some [],
                                 fd_peers = configuredPeers cfg\<rparr>),
                            da_node = Node_New \<lparr>no_User = cf_RHPUser cfg, no_Pass = cf_RHPPass cfg,
                              no_ChatCallsign = BoundCallsign cfg, no_NodeOwnsCallsign = NodeOwnsCallsign cfg,
                              no_RFPeers = cf_RFPeers cfg, no_Allow = allow\<rparr>\<rparr>)))"

subsection \<open>One database\<close>

text \<open>The database file as the next start opens it.\<close>

definition database :: "(sql_store, sql_store, sql_store) server \<Rightarrow> sql_store" where
  "database s =
     (case (ws_claims s, ws_fed s) of
        (Some c, Some fed) \<Rightarrow>
          (case fd_store fed of
             Some st \<Rightarrow> \<lparr>sq_messages = sq_messages (h_store (ws_hub s)), sq_config = sq_config st, sq_claims = sq_claims c,
                          sq_err = None\<rparr>
           | None \<Rightarrow> (h_store (ws_hub s))\<lparr>sq_err := None\<rparr>)
      | _ \<Rightarrow> (h_store (ws_hub s))\<lparr>sq_err := None\<rparr>)"

text \<open>Each part writes only the table it owns.\<close>

lemma tables_separate:
  "Sqlite_SaveMessage s m = Inr s' \<Longrightarrow> sq_config s' = sq_config s \<and> sq_claims s' = sq_claims s \<and> sq_err s' = sq_err s"
  "Sqlite_SetConfig s k v = Inr s' \<Longrightarrow> sq_messages s' = sq_messages s \<and> sq_claims s' = sq_claims s \<and> sq_err s' = sq_err s"
  "Claim s u c at = Inr s' \<Longrightarrow> sq_messages s' = sq_messages s \<and> sq_config s' = sq_config s \<and> sq_err s' = sq_err s"
  by (auto simp: Sqlite_SaveMessage_def Sqlite_SetConfig_def Claim_def upsert_claim_def split: if_splits option.splits sum.splits)

subsection \<open>The list and its stored form\<close>

lemma allowSep_byte: "allowSep c \<longleftrightarrow> byte c \<in> {10, 13, 44, 32, 9}"
  using byte_inject [of c "CHR 0x0A"] byte_inject [of c "CHR 0x0D"] byte_inject [of c "CHR '',''"]
    byte_inject [of c "CHR '' ''"] byte_inject [of c "CHR 0x09"] by (simp add: allowSep_def)

lemma allowSep_upper: "allowSep (upper_byte c) = allowSep c"
  unfolding allowSep_byte byte_upper_byte by auto

lemma storable_norm: "\<forall>c \<in> set f. \<not> allowSep c \<Longrightarrow> storable (normCallsign f)"
  using set_TrimSpace [of f] by (auto simp: storable_def normCallsign_def list_all_iff ToUpper_def allowSep_upper)

lemma decodeAllow_storable: "c \<in> set (decodeAllow raw) \<Longrightarrow> storable c"
  by (auto simp: decodeAllow_def FieldsFunc_def dest!: FieldsFunc_from_sound intro!: storable_norm)

definition synced :: "('s, 'c, sql_store) server \<Rightarrow> allow_list \<Rightarrow> sql_store \<Rightarrow> bool" where
  "synced s a st \<longleftrightarrow>
     (\<exists>fed. ws_fed s = Some fed \<and> fd_allow fed = Some a \<and> fd_put fed = Sqlite_SetConfig \<and> fd_store fed = Some st) \<and>
     allow_ok a \<and> (\<forall>c \<in> al_allowed a. storable c) \<and> sq_err st = None \<and>
     (\<exists>raw. map_of (sq_config st) ConfigKVAllowKey = Some raw \<and> addCallsigns (decodeAllow raw) {} = al_allowed a)"

lemma Persist_Sqlite:
  assumes "sq_err st = None" "allow_ok a" "\<forall>c \<in> al_allowed a. storable c"
  shows "\<exists>st'. PersistAllowList Sqlite_SetConfig (Some st) (Some a) = Inr (Some st') \<and> sq_err st' = None \<and>
    (\<exists>raw. map_of (sq_config st') ConfigKVAllowKey = Some raw \<and> addCallsigns (decodeAllow raw) {} = al_allowed a)"
  using assms addCallsigns_decoded [OF assms(2,3)] by (simp add: PersistAllowList_def Sqlite_SetConfig_def)

text \<open>Loading gives a list that the database holds, whether it was stored before or is seeded now.\<close>

lemma Load_synced:
  assumes "LoadAllowList Sqlite_GetConfig Sqlite_SetConfig (Some st) seed = Inr (x, y)" "sq_err st = None"
    and "\<forall>c \<in> set seed. storable (normCallsign c)"
  shows "\<exists>a st'. x = Some a \<and> y = Some st' \<and> allow_ok a \<and> al_pinned a = {} \<and> (\<forall>c \<in> al_allowed a. storable c) \<and> sq_err st' = None \<and>
    (\<exists>raw. map_of (sq_config st') ConfigKVAllowKey = Some raw \<and> addCallsigns (decodeAllow raw) {} = al_allowed a) \<and>
    al_allowed a = (case map_of (sq_config st) ConfigKVAllowKey of None \<Rightarrow> addCallsigns seed {} | Some raw \<Rightarrow> addCallsigns (decodeAllow raw) {})"
proof (cases "map_of (sq_config st) ConfigKVAllowKey")
  case None
  let ?a = "(NewAllowList [])\<lparr>al_allowed := addCallsigns seed {}\<rparr>"
  have "allow_ok ?a" by (intro allow_ok_updates)
  moreover have "\<forall>c \<in> al_allowed ?a. storable c" using assms(3) by (auto simp: addCallsigns_eq)
  ultimately have a: "allow_ok ?a" "\<forall>c \<in> al_allowed ?a. storable c" .
  obtain st' where st': "PersistAllowList Sqlite_SetConfig (Some st) (Some ?a) = Inr (Some st')" "sq_err st' = None"
    "\<exists>raw. map_of (sq_config st') ConfigKVAllowKey = Some raw \<and> addCallsigns (decodeAllow raw) {} = al_allowed ?a"
    using Persist_Sqlite [OF assms(2) a] by blast
  have "x = Some ?a \<and> y = Some st'"
    using assms(1,2) None st'(1) by (simp add: LoadAllowList_def Sqlite_GetConfig_def AllowList_Replace_def Let_def)
  then show ?thesis using a st' None by (intro exI [of _ ?a] exI [of _ st']) (simp add: NewAllowList_def)
next
  case (Some r)
  let ?a = "(NewAllowList [])\<lparr>al_allowed := addCallsigns (decodeAllow r) {}\<rparr>"
  have "normCallsign c = c" if "c \<in> set (decodeAllow r)" for c using that by (auto simp: decodeAllow_def)
  then have "\<forall>c \<in> al_allowed ?a. storable c" using decodeAllow_storable by (auto simp: addCallsigns_eq)
  moreover have "x = Some ?a \<and> y = Some st"
    using assms(1,2) Some by (simp add: LoadAllowList_def Sqlite_GetConfig_def AllowList_Replace_def Let_def)
  moreover have "allow_ok ?a" by (intro allow_ok_updates)
  ultimately show ?thesis using Some assms(2) by (intro exI [of _ ?a] exI [of _ st]) (simp add: NewAllowList_def)
qed

lemma mux_fed: "rq_path r \<noteq> ''/peers/allow'' \<Longrightarrow> ws_fed (fst (mux t r s)) = ws_fed s"
  by (simp add: mux_def readers_keep chat_handlers_keep handleClaim_keeps)

text \<open>An edit, with what becomes of the list and of the database.\<close>

definition edited :: "string \<Rightarrow> string \<Rightarrow> allow_list \<Rightarrow> allow_list" where
  "edited action call a =
     (if ToLower (TrimSpace action) = ''add'' then a\<lparr>al_allowed := insert call (al_allowed a)\<rparr>
      else a\<lparr>al_allowed := al_allowed a - {call}\<rparr>)"

lemma edit_allow_eq:
  assumes "call = normCallsign c" "call \<noteq> ''''" "ToLower (TrimSpace action) \<in> {''add'', ''remove''}"
  shows "\<exists>changed. edit_allow action call (Some a) = Some (Some (edited action call a), changed) \<and> (\<not> changed \<longrightarrow> edited action call a = a)"
  using assms by (auto simp: edit_allow_def AllowList_Add_def AllowList_Remove_def edited_def Let_def insert_absorb)

lemma edited_ok:
  assumes "allow_ok a" "\<forall>c \<in> al_allowed a. storable c" "call = normCallsign c" "call \<noteq> ''''" "storable call"
  shows "allow_ok (edited action call a)" "\<forall>c \<in> al_allowed (edited action call a). storable c"
  using assms allow_ok_updates(4) [OF assms(1), of c] allow_ok_updates(5) [OF assms(1), of "{call}"] by (auto simp: edited_def)

lemma handlePeersAllow_edit:
  assumes sync: "synced s a st" and adm: "isAdmin (IdentityFromRequest r)" "rq_method r = ''POST''"
    and ed: "rq_edit r = Some (action, c)" "call = normCallsign c" "call \<noteq> ''''" "storable call"
      "ToLower (TrimSpace action) \<in> {''add'', ''remove''}"
  shows "\<exists>st'. synced (fst (handlePeersAllow r s)) (edited action call a) st' \<and> rp_status (snd (handlePeersAllow r s)) = 200"
proof -
  obtain fed where fed: "ws_fed s = Some fed" "fd_allow fed = Some a" "fd_put fed = Sqlite_SetConfig" "fd_store fed = Some st"
    and a: "allow_ok a" "\<forall>c \<in> al_allowed a. storable c" and st: "sq_err st = None"
    and raw: "\<exists>raw. map_of (sq_config st) ConfigKVAllowKey = Some raw \<and> addCallsigns (decodeAllow raw) {} = al_allowed a"
    using sync by (auto simp: synced_def)
  obtain changed where e: "edit_allow action call (Some a) = Some (Some (edited action call a), changed)"
    "\<not> changed \<longrightarrow> edited action call a = a"
    using edit_allow_eq [OF ed(2,3,5)] by blast
  note b = edited_ok [OF a ed(2-4), of action]
  obtain st' where p: "PersistAllowList Sqlite_SetConfig (Some st) (Some (edited action call a)) = Inr (Some st')" "sq_err st' = None"
    "\<exists>raw. map_of (sq_config st') ConfigKVAllowKey = Some raw \<and> addCallsigns (decodeAllow raw) {} = al_allowed (edited action call a)"
    using Persist_Sqlite [OF st b] by blast
  let ?st = "if changed then st' else st"
  have "persist_edit changed (fed\<lparr>fd_allow := Some (edited action call a)\<rparr>) =
      Inr (fed\<lparr>fd_allow := Some (edited action call a), fd_store := Some ?st\<rparr>)"
    using fed p(1) by (simp add: persist_edit_def)
  then have "handlePeersAllow r s = (s\<lparr>ws_fed := Some (fed\<lparr>fd_allow := Some (edited action call a), fd_store := Some ?st\<rparr>)\<rparr>,
      writeJSON (AllowEdited changed (AllowList_Entries (Some (edited action call a)))))"
    using adm ed(1-3) fed e(1) by (simp add: handlePeersAllow_def handler_defs normCallsign_def Let_def)
  moreover have "synced (s\<lparr>ws_fed := Some (fed\<lparr>fd_allow := Some (edited action call a), fd_store := Some ?st\<rparr>)\<rparr>) (edited action call a) ?st"
    using fed(3) b p(2,3) st raw e(2) by (auto simp: synced_def)
  ultimately show ?thesis by (auto simp: writeJSON_def)
qed

text \<open>What a request makes of the list: the edit of an accepted request to the editor, nothing otherwise.\<close>

definition edit_of :: "request \<Rightarrow> allow_list \<Rightarrow> allow_list" where
  "edit_of r a =
     (if rq_path r = ''/peers/allow'' \<and> rq_header r ''X-Pdn-Gateway'' = ''1'' \<and> rq_method r = ''POST'' \<and> isAdmin (IdentityFromRequest r)
      then (case rq_edit r of
              Some (action, c) \<Rightarrow>
                if normCallsign c \<noteq> '''' \<and> ToLower (TrimSpace action) \<in> {''add'', ''remove''} then edited action (normCallsign c) a else a
            | None \<Rightarrow> a)
      else a)"

lemma handlePeersAllow_refused:
  assumes "synced s a st"
    and "\<not> isAdmin (IdentityFromRequest r) \<or> rq_method r \<noteq> ''POST'' \<or> rq_edit r = None \<or>
      rq_edit r = Some (action, c) \<and> (normCallsign c = '''' \<or> ToLower (TrimSpace action) \<notin> {''add'', ''remove''})"
  shows "fst (handlePeersAllow r s) = s"
  using assms by (auto simp: handlePeersAllow_def handler_defs synced_def edit_allow_def normCallsign_def Let_def split: option.splits)

lemma serve_http_synced:
  assumes sync: "synced s a st" and ok: "\<And>action c. rq_edit r = Some (action, c) \<Longrightarrow> storable (normCallsign c)"
  shows "\<exists>st'. synced (fst (serve_http t r s)) (edit_of r a) st'"
proof -
  let ?r = "r\<lparr>rq_prefix := rq_header r ''X-Forwarded-Prefix''\<rparr>"
  have i: "IdentityFromRequest ?r = IdentityFromRequest r" by (simp add: IdentityFromRequest_def)
  have same: "synced s' a st" if "ws_fed s' = ws_fed s" for s' :: "('a, 'b, sql_store) server"
    using sync that by (auto simp: synced_def)
  show ?thesis
  proof (cases "rq_path r = ''/peers/allow'' \<and> rq_header r ''X-Pdn-Gateway'' = ''1''")
    case False
    then have "ws_fed (fst (serve_http t r s)) = ws_fed s" "edit_of r a = a"
      using mux_fed by (auto simp: serve_http_def gatewayTrust_def edit_of_def)
    then show ?thesis using same by auto
  next
    case True
    then have s: "fst (serve_http t r s) = fst (handlePeersAllow ?r s)" by (simp add: serve_http_def gatewayTrust_def mux_def)
    show ?thesis
    proof (cases "rq_method r = ''POST'' \<and> isAdmin (IdentityFromRequest r) \<and> (\<exists>action c. rq_edit r = Some (action, c) \<and>
        normCallsign c \<noteq> '''' \<and> ToLower (TrimSpace action) \<in> {''add'', ''remove''})")
      case acc: True
      then obtain action c where e: "rq_edit r = Some (action, c)" "normCallsign c \<noteq> ''''" "ToLower (TrimSpace action) \<in> {''add'', ''remove''}"
        by blast
      show ?thesis using handlePeersAllow_edit [OF sync, of ?r action c "normCallsign c"] acc e ok i True s
        by (auto simp: edit_of_def)
    next
      case rej: False
      have "fst (handlePeersAllow ?r s) = s" "edit_of r a = a"
        using rej i handlePeersAllow_refused [OF sync, of ?r] by (cases "rq_edit r"; auto simp: edit_of_def)+
      then show ?thesis using s sync by auto
    qed
  qed
qed

lemma requests_synced:
  assumes "synced s a st" "\<forall>t r action c. (t, r) \<in> set reqs \<and> rq_edit r = Some (action, c) \<longrightarrow> storable (normCallsign c)"
  shows "\<exists>st'. synced (fold (\<lambda>(t, r) s. fst (serve_http t r s)) reqs s) (fold (\<lambda>(t, r). edit_of r) reqs a) st'"
  using assms
proof (induction reqs arbitrary: s a st)
  case (Cons x reqs)
  obtain t r where x: "x = (t, r)" by fastforce
  have "storable (normCallsign c)" if "rq_edit r = Some (action, c)" for action c
    using Cons.prems(2) that x by (metis list.set_intros(1))
  then obtain st' where st': "synced (fst (serve_http t r s)) (edit_of r a) st'"
    using serve_http_synced [OF Cons.prems(1)] by metis
  have "\<forall>t r action c. (t, r) \<in> set reqs \<and> rq_edit r = Some (action, c) \<longrightarrow> storable (normCallsign c)"
    using Cons.prems(2) by (metis list.set_intros(2))
  then show ?case using Cons.IH [OF st'] x by simp
qed auto

subsection \<open>Whom the node admits\<close>

lemma dialled_canonical: "c \<in> set (DialedPeerCallsigns cfg) \<Longrightarrow> canonical c"
proof -
  have a: "(\<forall>c \<in> set out. canonical c) \<Longrightarrow> \<forall>c \<in> set (add_distinct out ss). canonical c" for out ss
    by (induction out ss rule: add_distinct.induct) (auto simp: Let_def canonical_ToUpper_TrimSpace)
  show "c \<in> set (DialedPeerCallsigns cfg) \<Longrightarrow> canonical c" using a [of "[]"] by (simp add: DialedPeerCallsigns_def)
qed

lemma dialled_norm: "normCallsign ` set (DialedPeerCallsigns cfg) - {''''} = set (DialedPeerCallsigns cfg)"
  using dialled_canonical [of _ cfg] by (force simp: canonical_def image_iff)

lemma EffectiveAllow_eq:
  "set (EffectiveAllow cfg) = (normCallsign ` set (cf_PeerAllow cfg) - {''''}) \<union> set (DialedPeerCallsigns cfg)"
  by (simp add: EffectiveAllow_set image_Un Un_Diff dialled_norm)

lemma edits_pinned: "al_pinned (fold (\<lambda>(t, r). edit_of r) reqs a) = al_pinned a"
proof (induction reqs arbitrary: a)
  case (Cons x reqs)
  have "al_pinned (edit_of r a) = al_pinned a" for r
    by (simp add: edit_of_def edited_def split: option.split prod.split)
  then show ?case using Cons.IH by (cases x) simp
qed simp

lemma requests_claims: "ws_claims s \<noteq> None \<Longrightarrow> ws_claims (fold (\<lambda>(t, r) s. fst (serve_http t r s)) reqs s) \<noteq> None"
proof (induction reqs arbitrary: s)
  case (Cons x reqs)
  have k: "ws_claims (fst (handleClaim t r s)) \<noteq> None" for t r
    using Cons.prems by (auto simp: handleClaim_def handler_defs Let_def split: option.splits sum.splits claim_error.splits)
  have "ws_claims (fst (mux t r s)) \<noteq> None" for t r
    using Cons.prems k [of t r] by (simp add: mux_def readers_keep chat_handlers_keep handlePeersAllow_keeps)
  then have "ws_claims (fst (serve_http t r s)) \<noteq> None" for t r using Cons.prems by (simp add: serve_http_def gatewayTrust_def)
  then show ?case using Cons.IH by (cases x) simp
qed simp

lemma start_claims: "start ord hash clk env (Inr db) = Inr d \<Longrightarrow> ws_claims (da_web d) \<noteq> None"
  and start_node: "start ord hash clk env (Inr db) = Inr d \<Longrightarrow> no_Allow (nl_opts (da_node d)) = da_allow d"
  by (auto simp: start_def Let_def Web_New_def Node_New_def split: sum.splits prod.splits)

lemma Load_seed_storable: "Load env = Inr cfg \<Longrightarrow> c \<in> set (cf_PeerAllow cfg) \<Longrightarrow> storable (normCallsign c)"
proof -
  assume l: "Load env = Inr cfg" and c: "c \<in> set (cf_PeerAllow cfg)"
  have "parseAllow (env ''PDN_BPQCHAT_PEER_ALLOW'') = Inr (cf_PeerAllow cfg)"
    using l by (auto simp: Load_def Let_def split: if_splits sum.splits prod.splits)
  then have "isValidCallsign c \<and> canonical c"
    using c parseAllow_entries_ok by (fastforce simp: parseAllow_def Let_def list_all_iff split: if_splits)
  then show ?thesis using valid_callsign_storable by (simp add: canonical_def)
qed

text \<open>A start on a working database: the list is the stored one, or the seed, with the dialled peers pinned.\<close>

lemma start_list:
  assumes "start ord hash clk env (Inr db) = Inr d" "sq_err db = None"
  obtains a st where "da_allow d = Some a" "synced (da_web d) a st" "al_pinned a = set (DialedPeerCallsigns (da_cfg d))"
    "al_allowed a = (case map_of (sq_config db) ConfigKVAllowKey of
       None \<Rightarrow> addCallsigns (cf_PeerAllow (da_cfg d)) {} | Some raw \<Rightarrow> addCallsigns (decodeAllow raw) {})"
proof -
  obtain cfg x y where c: "Load env = Inr cfg" "LoadAllowList Sqlite_GetConfig Sqlite_SetConfig (Some db) (cf_PeerAllow cfg) = Inr (x, y)"
    and d: "da_cfg d = cfg" "da_allow d = AllowList_Pin x (DialedPeerCallsigns cfg)"
      "ws_fed (da_web d) = Some \<lparr>fd_allow = AllowList_Pin x (DialedPeerCallsigns cfg), fd_put = Sqlite_SetConfig, fd_store = y,
         fd_links = Some [], fd_peers = configuredPeers cfg\<rparr>"
    using assms(1) by (auto simp: start_def Let_def Web_New_def split: sum.splits prod.splits)
  obtain a st where a: "x = Some a" "y = Some st" "allow_ok a" "al_pinned a = {}" "\<forall>c \<in> al_allowed a. storable c" "sq_err st = None"
    "\<exists>raw. map_of (sq_config st) ConfigKVAllowKey = Some raw \<and> addCallsigns (decodeAllow raw) {} = al_allowed a"
    "al_allowed a = (case map_of (sq_config db) ConfigKVAllowKey of
       None \<Rightarrow> addCallsigns (cf_PeerAllow cfg) {} | Some raw \<Rightarrow> addCallsigns (decodeAllow raw) {})"
    using Load_synced [OF c(2) assms(2)] Load_seed_storable [OF c(1)] by blast
  define b where "b = a\<lparr>al_pinned := addCallsigns (DialedPeerCallsigns cfg) (al_pinned a)\<rparr>"
  have p: "AllowList_Pin x (DialedPeerCallsigns cfg) = Some b" by (simp add: AllowList_Pin_def a(1) b_def)
  have "allow_ok b" unfolding b_def using a(3) by (rule allow_ok_updates)
  then have "synced (da_web d) b st" using d(3) a(2,5-7) p by (auto simp: synced_def b_def)
  moreover have "al_pinned b = set (DialedPeerCallsigns cfg)"
    using a(4) dialled_norm [of cfg] by (simp add: addCallsigns_eq b_def)
  moreover have "al_allowed b = al_allowed a" by (simp add: b_def)
  ultimately show thesis using p d(2) a(8) unfolding d(1) [symmetric] by (intro that [of b st]) simp_all
qed


text \<open>A node whose configuration loads and whose database works starts.\<close>

lemma start_total: "Load env = Inr cfg \<Longrightarrow> sq_err db = None \<Longrightarrow> \<exists>d. start ord hash clk env (Inr db) = Inr d"
  by (auto simp: start_def LoadAllowList_def Sqlite_GetConfig_def PersistAllowList_def Sqlite_SetConfig_def Let_def split: option.split)

definition allow_request :: "string \<Rightarrow> string \<Rightarrow> request" where
  "allow_request action c = (get_request '''' '''' ''/peers/allow'')\<lparr>rq_method := ''POST'', rq_edit := Some (action, c)\<rparr>"


subsection \<open>Default deny\<close>

lemma ServeInboundIP_denied:
  assumes "\<And>c. \<not> AllowList_Allowed allow c"
  shows "ib_router (ServeInboundIP clk handled hnd rw r ourNode allow) = r"
    "ib_sent (ServeInboundIP clk handled hnd rw r ourNode allow) = []"
    "\<not> AllowList_Allowed (ib_allow (ServeInboundIP clk handled hnd rw r ourNode allow)) c"
proof -
  have "\<not> AllowList_Allowed (fst (AllowList_Reject allow)) c"
    using assms [of c] by (auto simp: AllowList_Allowed_def AllowList_Reject_def Let_def split: option.splits if_splits)
  then show "ib_router (ServeInboundIP clk handled hnd rw r ourNode allow) = r"
    "ib_sent (ServeInboundIP clk handled hnd rw r ourNode allow) = []"
    "\<not> AllowList_Allowed (ib_allow (ServeInboundIP clk handled hnd rw r ourNode allow)) c"
    using assms by (auto simp: ServeInboundIP_def Let_def split: option.split prod.split sum.split)
qed

lemma listener_denied:
  "(\<And>c. \<not> AllowList_Allowed allow c) \<Longrightarrow>
     fst (servePeerListener clk n accepts r allow) = r \<and> snd (snd (servePeerListener clk n accepts r allow)) = []"
proof (induction accepts arbitrary: r allow)
  case (Cons x accepts)
  show ?case
  proof (cases x)
    case None
    then show ?thesis using Cons.IH [OF Cons.prems] by simp
  next
    case (Some y)
    obtain k hnd rw where y: "y = (k, hnd, rw)" by (cases y) auto
    let ?ib = "ServeInboundIP clk k hnd rw r n allow"
    note i = ServeInboundIP_denied [OF Cons.prems, of clk k hnd rw r n]
    have "fst (servePeerListener clk n accepts r (ib_allow ?ib)) = r \<and> snd (snd (servePeerListener clk n accepts r (ib_allow ?ib))) = []"
      by (rule Cons.IH) (rule i)
    then show ?thesis using i(1,2) Some y by (simp add: Let_def split_def)
  qed
qed simp

text \<open>
  C21: a node that starts for the first time with no peer configured and nobody on its
  allow-list takes no link: whatever connections its peer listener accepts, whatever they send and
  wherever writing to them fails, hub and router stay as they were started and nothing is relayed.
\<close>

theorem default_deny:
  fixes d :: "'l daemon"
  assumes start: "start ord hash clk env (Inr db) = Inr d" "sq_err db = None" "map_of (sq_config db) ConfigKVAllowKey = None"
    and none: "cf_PeerAllow (da_cfg d) = []" "cf_Peers (da_cfg d) = []" "cf_RFPeers (da_cfg d) = []"
  shows "fst (servePeerListener lclk (BoundCallsign (da_cfg d)) accepts (da_router d) (da_allow d)) = da_router d
    \<and> snd (snd (servePeerListener lclk (BoundCallsign (da_cfg d)) accepts (da_router d) (da_allow d))) = []"
proof -
  obtain a st where a: "da_allow d = Some a" "synced (da_web d) a st" "al_pinned a = set (DialedPeerCallsigns (da_cfg d))"
    "al_allowed a = (case map_of (sq_config db) ConfigKVAllowKey of
       None \<Rightarrow> addCallsigns (cf_PeerAllow (da_cfg d)) {} | Some raw \<Rightarrow> addCallsigns (decodeAllow raw) {})"
    using start(1,2) by (rule start_list)
  then have "al_pinned a = {}" "al_allowed a = {}" using none start(3) by (simp_all add: DialedPeerCallsigns_def)
  then have "\<not> AllowList_Allowed (da_allow d) c" for c by (simp add: a(1) AllowList_Allowed_def Let_def)
  then show ?thesis by (rule listener_denied)
qed

definition lone_env :: "string \<Rightarrow> string" where
  "lone_env k = (if k = ''PDN_APP_CALLSIGN'' then ''M0LTE-4'' else '''')"

theorem default_deny_witness:
  "\<exists>d :: string daemon. start insertion_order id int lone_env (Inr Sqlite_Open) = Inr d \<and>
     fst (servePeerListener int (BoundCallsign (da_cfg d)) [None, Some (9, ''link-1'', demo_conn (rtlLogin @ [CHR 0x0D]))]
       (da_router d) (da_allow d)) = da_router d"
proof -
  have o: "sq_err Sqlite_Open = None" "map_of (sq_config Sqlite_Open) ConfigKVAllowKey = None" by (simp_all add: Sqlite_Open_def)
  obtain cfg where c: "Load lone_env = Inr cfg" "cf_PeerAllow cfg = []" "cf_Peers cfg = []" "cf_RFPeers cfg = []"
  proof -
    have "case Load lone_env of Inl _ \<Rightarrow> False | Inr cfg \<Rightarrow> cf_PeerAllow cfg = [] \<and> cf_Peers cfg = [] \<and> cf_RFPeers cfg = []" by code_simp
    then show thesis using that by (auto split: sum.splits)
  qed
  obtain d :: "string daemon" where d: "start insertion_order id int lone_env (Inr Sqlite_Open) = Inr d"
    using start_total [OF c(1) o(1)] by blast
  then have "da_cfg d = cfg" using c(1) by (auto simp: start_def Let_def split: sum.splits prod.splits)
  then show ?thesis using default_deny [OF d o] c d by blast
qed

end
