(* ===== verification/System.thy ===== *)
theory System
  imports Daemon
begin

text \<open>
  The running node: the one hub under everything that \<^verbatim>\<open>main.go\<close> starts around it. A
  state holds the web server with its open streams, the router and the user sessions; the hub is
  the one of the web server, and the router and the sessions work on it. A step is one action of
  one of them (a request, an event taken from a channel, a chunk a user sends, a line of a link, a
  link coming up or going down, one turn of the router's fan-out), so a run is any interleaving.

  Shown: the hub invariant on every run, and that the hub's channels are exactly those of the router,
  the sessions that have not ended and the open streams, one each.
\<close>

subsection \<open>What the operations do to the channels\<close>

definition same_subs :: "'s hub \<Rightarrow> 's hub \<Rightarrow> bool" where
  "same_subs h h' \<longleftrightarrow> hub_inv h' \<and> h_nextSub h' = h_nextSub h \<and> h_ourNode h' = h_ourNode h \<and>
     (\<forall>i. map_of (h_subs h') i = None \<longleftrightarrow> map_of (h_subs h) i = None)"

lemma same_subs_refl: "hub_inv h \<Longrightarrow> same_subs h h"
  by (simp add: same_subs_def)

lemma same_subs_trans: "same_subs h h1 \<Longrightarrow> same_subs h1 h2 \<Longrightarrow> same_subs h h2"
  by (simp add: same_subs_def)

lemma same_subs_inv: "same_subs h h' \<Longrightarrow> hub_inv h'"
  by (simp add: same_subs_def)

lemma same_subs_ops:
  assumes "hub_inv h"
  shows "same_subs h (fst (Hub_Post h k t))" "same_subs h (fst (Hub_Private h k c t))" "same_subs h (fst (Hub_SetTopic h k n))"
    "same_subs h (fst (Hub_SetInfo h k nm q))" "same_subs h (fst (Hub_SetFlags h k f))" "same_subs h (fst (Hub_Join h u))"
    "same_subs h (Hub_Leave h k)" "same_subs h (fst (Hub_LinkNode h c nm q))" "same_subs h (fst (Hub_UnlinkNode h c))"
    "same_subs h (snd (Hub_Seen h c))" "same_subs h (snd (Hub_recv h i))"
proof -
  note i = assms
  show "same_subs h (fst (Hub_Post h k t))" using i by (simp add: same_subs_def inv_intros) (simp add: Post_eq record_subs split: option.split)
  show "same_subs h (fst (Hub_Private h k c t))" using i by (simp add: same_subs_def inv_intros) (simp add: Private_eq record_subs)
  show "same_subs h (fst (Hub_SetTopic h k n))"
    using i by (simp add: same_subs_def inv_intros) (simp add: Hub_SetTopic_def Let_def split_def emit_subs split: option.split)
  show "same_subs h (fst (Hub_SetInfo h k nm q))"
    using i by (simp add: same_subs_def inv_intros) (simp add: Hub_SetInfo_def Let_def emit_subs split: option.split)
  show "same_subs h (fst (Hub_SetFlags h k f))"
    using i by (simp add: same_subs_def inv_intros) (simp add: Hub_SetFlags_def Let_def emit_subs split: option.split)
  show "same_subs h (fst (Hub_Join h u))"
    using i by (simp add: same_subs_def inv_intros) (simp add: Hub_Join_def Let_def split_def emit_subs split: option.split)
  show "same_subs h (Hub_Leave h k)"
    using i by (simp add: same_subs_def inv_intros) (simp add: Hub_Leave_def Let_def emit_subs split: option.split)
  show "same_subs h (fst (Hub_LinkNode h c nm q))"
    using i by (simp add: same_subs_def inv_intros) (simp add: Hub_LinkNode_def Let_def emit_subs split: option.split)
  show "same_subs h (fst (Hub_UnlinkNode h c))"
    using i by (simp add: same_subs_def inv_intros) (simp add: Hub_UnlinkNode_def Let_def emit_subs fold_dropUser_sel split: option.split)
  show "same_subs h (snd (Hub_Seen h c))" using i by (simp add: same_subs_def hub_inv_Seen)
  show "same_subs h (snd (Hub_recv h i))" for i
    using i by (simp add: same_subs_def inv_intros recv_subs) (auto simp: Hub_recv_def split: option.split list.split)
qed

text \<open>The router and the links.\<close>

lemma same_subs_ensureUser: "hub_inv h \<Longrightarrow> same_subs h (ensureUser h rc f)"
  by (auto simp: ensureUser_def Let_def split_def split: option.split intro: same_subs_refl same_subs_ops)

lemma same_subs_apply: 
  assumes "hub_inv h"
  shows "same_subs h (apply_rec h rc f)"
proof -
  have e: "same_subs h (ensureUser h rc f)" using assms by (rule same_subs_ensureUser)
  note ops = same_subs_ops [OF same_subs_inv [OF e], THEN same_subs_trans [OF e]] same_subs_ops [OF assms]
  show ?thesis unfolding apply_rec_def Let_def by (simp add: ops e same_subs_refl assms)
qed

lemma same_subs_Ingest:
  assumes "hub_inv (rt_hub r)"
  shows "same_subs (rt_hub r) (rt_hub (fst (Ingest r rc f)))"
proof -
  have s: "same_subs (rt_hub r) (snd (Hub_Seen (rt_hub r) i))" for i using assms by (rule same_subs_ops)
  have "same_subs (rt_hub r) (apply_rec (snd (Hub_Seen (rt_hub r) i)) rc f)" for i
    by (rule same_subs_trans [OF s same_subs_apply [OF same_subs_inv [OF s]]])
  then show ?thesis
    using s same_subs_refl [OF assms] same_subs_apply [OF assms] by (auto simp: Ingest_def Let_def split_def)
qed

lemma handle_cases: "snd (fst (handle t1 t2 (l, r) line)) \<in> insert r (range (\<lambda>rc. fst (Ingest r rc (l_peerCall l))))"
proof (cases "Decode line")
  case (Some rc)
  then show ?thesis by (auto simp: handle_def handleRecord_def markSeen_def Let_def split_def)
qed (simp add: handle_def)

lemma same_subs_links:
  assumes "hub_inv (rt_hub r)"
  shows "same_subs (rt_hub r) (rt_hub (snd (fst (handle t1 t2 (l, r) line))))"
    "same_subs (rt_hub r) (rt_hub (snd (serve_up t hnd (l, r))))"
    "same_subs (rt_hub r) (rt_hub (snd (serve_down (l, r))))"
    "same_subs (rt_hub r) (rt_hub (fst (fanOutLocal r)))"
proof -
  show "same_subs (rt_hub r) (rt_hub (snd (fst (handle t1 t2 (l, r) line))))"
    using handle_cases [of t1 t2 l r line] same_subs_refl [OF assms] same_subs_Ingest [OF assms] by auto
  show "same_subs (rt_hub r) (rt_hub (snd (serve_up t hnd (l, r))))" "same_subs (rt_hub r) (rt_hub (snd (serve_down (l, r))))"
    using assms by (simp_all add: serve_up_def serve_down_def Router_Add_def Router_Remove_def Let_def same_subs_ops)
  show "same_subs (rt_hub r) (rt_hub (fst (fanOutLocal r)))"
    using same_subs_ops(11) [OF assms, of "rt_sub r"] by (auto simp: fanOutLocal_def Let_def split_def split: option.split)
qed

lemma links_sel:
  "rt_sub (snd (fst (handle t1 t2 (l, r) line))) = rt_sub r" "rt_ourNode (snd (fst (handle t1 t2 (l, r) line))) = rt_ourNode r"
  "rt_links (snd (fst (handle t1 t2 (l, r) line))) = rt_links r"
  "rt_sub (snd (serve_up t hnd (l, r))) = rt_sub r" "rt_ourNode (snd (serve_up t hnd (l, r))) = rt_ourNode r"
  "rt_sub (snd (serve_down (l, r))) = rt_sub r" "rt_ourNode (snd (serve_down (l, r))) = rt_ourNode r"
  "rt_sub (fst (fanOutLocal r)) = rt_sub r" "rt_ourNode (fst (fanOutLocal r)) = rt_ourNode r" "rt_links (fst (fanOutLocal r)) = rt_links r"
  "gomap (rt_links r) \<Longrightarrow> gomap (rt_links (snd (serve_up t hnd (l, r))))"
  "gomap (rt_links r) \<Longrightarrow> gomap (rt_links (snd (serve_down (l, r))))"
  using handle_cases [of t1 t2 l r line]
  by (auto)
    (simp_all add: serve_up_def serve_down_def Router_Add_def Router_Remove_def fanOutLocal_def Let_def split_def split: option.split)

text \<open>The web server.\<close>

abbreviation same_hub :: "('s, 'c, 'k) server \<Rightarrow> ('s, 'c, 'k) server \<Rightarrow> bool" where
  "same_hub w w' \<equiv> same_subs (ws_hub w) (ws_hub w')"

lemma same_hub_presence: "hub_inv (ws_hub w) \<Longrightarrow> same_hub w (snd (enter call w))" "hub_inv (ws_hub w) \<Longrightarrow> same_hub w (leave call w)"
  by (simp_all add: enter_eq leave_eq Let_def split_def same_subs_ops same_subs_refl)

lemma same_hub_with_presence:
  assumes inv: "hub_inv (ws_hub w)" and f: "\<And>k w. hub_inv (ws_hub w) \<Longrightarrow> same_hub w (fst (f k w))"
  shows "same_hub w (fst (with_presence call f w))"
proof -
  have e: "same_hub w (snd (enter call w))" using inv by (rule same_hub_presence)
  then have g: "same_hub w (fst (f (fst (enter call w)) (snd (enter call w))))"
    using f [OF same_subs_inv [OF e]] by (blast intro: same_subs_trans)
  then have "same_hub w (leave call (fst (f (fst (enter call w)) (snd (enter call w)))))"
    using same_hub_presence(2) [OF same_subs_inv [OF g]] by (blast intro: same_subs_trans)
  then show ?thesis using f [OF inv] by (simp add: with_presence_def Let_def split_def split: option.split)
qed

lemma same_hub_settings:
  assumes "hub_inv (ws_hub w)"
  shows "same_hub w (fst (apply_settings v k w))"
proof -
  have a: "same_subs (ws_hub w) (fst (Hub_SetInfo (ws_hub w) k (sv_Name v) (sv_QTH v)))" using assms by (rule same_subs_ops)
  with same_subs_trans [OF a same_subs_ops(5) [OF same_subs_inv [OF a]]] show ?thesis
    by (auto simp: apply_settings_def Let_def split_def split: sum.split)
qed

lemma same_hub_serve:
  assumes inv: "hub_inv (ws_hub w)" and p: "rq_path r \<noteq> ''/events''"
  shows "same_hub w (fst (serve_http t r w))"
proof -
  note refl = same_subs_refl [OF inv]
  have h: "same_hub w (fst (handleSend q w))" "same_hub w (fst (handleTopic q w))" "same_hub w (fst (handleDM q w))"
    "same_hub w (fst (handleSettings q w))" for q
    using refl inv
    by (auto simp: handleSend_def handleTopic_def handleDM_def handleSettings_def handler_defs hub_reply_def Let_def split: option.splits
        intro!: same_hub_with_presence same_hub_settings same_subs_refl same_subs_ops)
  have k: "same_hub w (fst (handleClaim t q w))" "same_hub w (fst (handlePeersAllow q w))" for q
    using refl handleClaim_keeps(2) [of t q w] handlePeersAllow_keeps(1) [of q w] by simp_all
  have "same_hub w (fst (mux t q w))" if "rq_path q = rq_path r" for q
    using h [of q] k [of q] refl p that by (simp add: mux_def readers_keep)
  then show ?thesis using refl by (simp add: serve_http_def gatewayTrust_def)
qed

text \<open>
  A session: it leaves every channel but its own alone, and its own is there exactly until it has
  ended.
\<close>

definition tracks :: "nat \<Rightarrow> 's hub \<Rightarrow> 's sess \<Rightarrow> bool" where
  "tracks i h0 hs \<longleftrightarrow> hub_inv (fst hs) \<and> h_nextSub (fst hs) = h_nextSub h0 \<and> h_ourNode (fst hs) = h_ourNode h0 \<and> se_sub (snd hs) = i \<and>
     (\<forall>j. j \<noteq> i \<longrightarrow> (map_of (h_subs (fst hs)) j = None \<longleftrightarrow> map_of (h_subs h0) j = None)) \<and>
     (map_of (h_subs (fst hs)) i = None \<longleftrightarrow> se_ended (snd hs) \<noteq> None) \<and>
     la_max (se_asm (snd hs)) = MaxLine \<and> asm_ok (se_asm (snd hs))"

lemma tracks_same: "tracks i h0 hs \<Longrightarrow> same_subs (fst hs) h \<Longrightarrow> tracks i h0 (h, snd hs)"
  by (simp add: tracks_def same_subs_def)

lemma tracks_inv: "tracks i h0 hs \<Longrightarrow> hub_inv (fst hs)"
  by (simp add: tracks_def)

lemma tracks_end:
  assumes t: "tracks i h0 hs"
  shows "tracks i h0 (Session_end r hs)"
proof (cases "se_ended (snd hs)")
  case None
  have "hub_inv (Hub_cancel (fst hs) i)" using t by (simp add: tracks_def inv_intros)
  from same_subs_ops(7) [OF this, of "se_key (snd hs)"] t None show ?thesis
    by (simp add: tracks_def Session_end_def same_subs_def Hub_cancel_def)
qed (use t in \<open>simp add: Session_end_def\<close>)

interpretation tr: session_closed "tracks i h0" for i and h0 :: "'s hub"
proof unfold_locales
  fix hs :: "'s sess" and n and t data to name qth :: string and ev h
  assume t: "tracks i h0 hs"
  note s = tracks_same [OF t same_subs_ops(1) [OF tracks_inv [OF t]]] tracks_same [OF t same_subs_ops(2) [OF tracks_inv [OF t]]]
    tracks_same [OF t same_subs_ops(3) [OF tracks_inv [OF t]]] tracks_same [OF t same_subs_ops(4) [OF tracks_inv [OF t]]]
  show "tracks i h0 (fst hs, (snd hs)\<lparr>se_sends := n\<rparr>)" "tracks i h0 (fst hs, (snd hs)\<lparr>se_sends := n, se_out := t\<rparr>)"
    using t by (simp_all add: tracks_def)
  show "tracks i h0 (fst hs, (snd hs)\<lparr>se_asm := snd (Feed (se_asm (snd hs)) data)\<rparr>)"
    using t Feed_ok [of "se_asm (snd hs)" data] by (simp add: tracks_def)
  show "tracks i h0 (fst (Hub_Post (fst hs) (se_key (snd hs)) t), snd hs)" "tracks i h0 (fst (Hub_Private (fst hs) (se_key (snd hs)) to t), snd hs)"
    "tracks i h0 (fst (Hub_SetTopic (fst hs) (se_key (snd hs)) name), snd hs)" "tracks i h0 (fst (Hub_SetInfo (fst hs) (se_key (snd hs)) name qth), snd hs)"
    by (rule s)+
  show "tracks i h0 (h, snd hs)" if "Hub_recv (fst hs) (se_sub (snd hs)) = (ev, h)"
    using tracks_same [OF t same_subs_ops(11) [OF tracks_inv [OF t], of "se_sub (snd hs)"]] that by simp
qed (rule tracks_end)

text \<open>A new session has the channel it subscribed to; a refused one has none.\<close>

lemma Subscribe_subs:
  assumes "hub_inv h"
  shows "fst (Hub_Subscribe h) = h_nextSub h" "h_nextSub (snd (Hub_Subscribe h)) = Suc (h_nextSub h)"
    "map_of (h_subs (snd (Hub_Subscribe h))) j = None \<longleftrightarrow> map_of (h_subs h) j = None \<and> j \<noteq> h_nextSub h"
    "map_of (h_subs h) (h_nextSub h) = None"
proof -
  show "map_of (h_subs h) (h_nextSub h) = None"
    using hub_invD(4) [OF assms] by (cases "map_of (h_subs h) (h_nextSub h)") (auto simp: subs_ok_def)
qed (auto simp: Hub_Subscribe_def Let_def)

lemma Session_New_tracks:
  assumes inv: "hub_inv h" and new: "Session_New h fails callsign = (h', res)"
  shows "case res of Inr s \<Rightarrow> tracks (h_nextSub h) (snd (Hub_Subscribe h)) (h', s)
    | Inl e \<Rightarrow> hub_inv h' \<and> h_nextSub h' = Suc (h_nextSub h) \<and> h_ourNode h' = h_ourNode h \<and>
        (\<forall>i. map_of (h_subs h') i = None \<longleftrightarrow> map_of (h_subs h) i = None)"
proof -
  let ?u = "mk_user callsign '''' '''' \<lparr>o_node = h_ourNode h, o_local = True, o_link = ''''\<rparr>"
  let ?h0 = "snd (Hub_Subscribe h)"
  have i0: "hub_inv ?h0" using inv by (rule hub_inv_Subscribe)
  have j: "same_subs ?h0 (fst (Hub_Join ?h0 ?u))" using i0 by (rule same_subs_ops)
  show ?thesis
  proof (cases "snd (Hub_Join ?h0 ?u)")
    case (Inl e)
    then have "h' = Hub_cancel (fst (Hub_Join ?h0 ?u)) (h_nextSub h)" "res = Inl e"
      using new Subscribe_subs(1) [OF inv] by (auto simp: Session_New_def Let_def split_def split: prod.splits)
    then show ?thesis
      using j Subscribe_subs [OF inv] hub_inv_cancel [OF same_subs_inv [OF j], of "h_nextSub h"]
      by (auto simp: same_subs_def Hub_cancel_def)
  next
    case (Inr u)
    let ?s = "\<lparr>se_key = User_Key u, se_asm = NewLineAssembler (int MaxLine), se_sub = h_nextSub h, se_out = '''',
       se_fail = fails, se_sends = 0, se_ended = None\<rparr>"
    have g: "h' = fst (greet (fst (Hub_Join ?h0 ?u), ?s))" "res = Inr (snd (greet (fst (Hub_Join ?h0 ?u), ?s)))"
      using new Inr Subscribe_subs(1) [OF inv] by (auto simp: Session_New_def Let_def split_def split: prod.splits)
    have "tracks (h_nextSub h) ?h0 (fst (Hub_Join ?h0 ?u), ?s)"
      using j Subscribe_subs [OF inv] by (simp add: tracks_def same_subs_def asm_ok_def NewLineAssembler_def MaxLine_def)
    then show ?thesis using tr.showing(4) by (simp add: g)
  qed
qed

subsection \<open>The system\<close>

record ('s, 'c, 'k, 'l) system =
  sy_web :: "('s, 'c, 'k) server"
  sy_router :: "('s, 'l) router"
  sy_sessions :: "session list"
  sy_streams :: "sse list"

abbreviation sy_hub :: "('s, 'c, 'k, 'l) system \<Rightarrow> 's hub" where
  "sy_hub S \<equiv> ws_hub (sy_web S)"

definition put_hub :: "'s hub \<Rightarrow> ('s, 'c, 'k, 'l) system \<Rightarrow> ('s, 'c, 'k, 'l) system" where
  "put_hub h S = S\<lparr>sy_web := (sy_web S)\<lparr>ws_hub := h\<rparr>\<rparr>"

text \<open>The router on the shared hub.\<close>

definition get_router :: "('s, 'c, 'k, 'l) system \<Rightarrow> ('s, 'l) router" where
  "get_router S = (sy_router S)\<lparr>rt_hub := sy_hub S\<rparr>"

definition put_router :: "('s, 'l) router \<Rightarrow> ('s, 'c, 'k, 'l) system \<Rightarrow> ('s, 'c, 'k, 'l) system" where
  "put_router r S = put_hub (rt_hub r) (S\<lparr>sy_router := r\<rparr>)"

definition launch :: "'l daemon \<Rightarrow> (sql_store, sql_store, sql_store, 'l) system" where
  "launch d = \<lparr>sy_web = da_web d, sy_router = da_router d, sy_sessions = [], sy_streams = []\<rparr>"

inductive system_step :: "('s, 'c, 'k, 'l) system \<Rightarrow> ('s, 'c, 'k, 'l) system \<Rightarrow> bool" where
  request: "rq_path r \<noteq> ''/events'' \<Longrightarrow> system_step S (S\<lparr>sy_web := fst (serve_http t r (sy_web S))\<rparr>)"
| stream_open: "events_open call (sy_web S) = (es, w) \<Longrightarrow> system_step S (S\<lparr>sy_web := w, sy_streams := es # sy_streams S\<rparr>)"
| stream_event: "sy_streams S = as @ es # bs \<Longrightarrow> events_step (es, sy_web S) = (es', w) \<Longrightarrow>
    system_step S (S\<lparr>sy_web := w, sy_streams := as @ es' # bs\<rparr>)"
| stream_close: "sy_streams S = as @ es # bs \<Longrightarrow> system_step S (S\<lparr>sy_web := events_close (es, sy_web S), sy_streams := as @ bs\<rparr>)"
| connect: "Session_New (sy_hub S) fails callsign = (h, Inr s) \<Longrightarrow> system_step S (put_hub h (S\<lparr>sy_sessions := s # sy_sessions S\<rparr>))"
| refuse: "Session_New (sy_hub S) fails callsign = (h, Inl e) \<Longrightarrow> system_step S (put_hub h S)"
| session: "sy_sessions S = as @ s # bs \<Longrightarrow> session_step (sy_hub S, s) (h, s') \<Longrightarrow>
    system_step S (put_hub h (S\<lparr>sy_sessions := as @ s' # bs\<rparr>))"
| link_up: "system_step S (put_router (snd (serve_up t hnd (l, get_router S))) S)"
| link_line: "system_step S (put_router (snd (fst (handle t1 t2 (l, get_router S) line))) S)"
| link_down: "system_step S (put_router (snd (serve_down (l, get_router S))) S)"
| fan_out: "system_step S (put_router (fst (fanOutLocal (get_router S))) S)"

inductive_cases system_stepE: "system_step S S'"

inductive system_reach :: "(sql_store, sql_store, sql_store, 'l) system \<Rightarrow> bool" where
  launched: "start ord hash clk env opened = Inr d \<Longrightarrow> system_reach (launch d)"
| stepped: "system_reach S \<Longrightarrow> system_step S S' \<Longrightarrow> system_reach S'"

subsection \<open>Its channels\<close>

text \<open>The channels the parts of the node read from.\<close>

definition readers :: "('s, 'c, 'k, 'l) system \<Rightarrow> nat list" where
  "readers S = rt_sub (sy_router S) # map se_sub (filter (\<lambda>s. se_ended s = None) (sy_sessions S)) @ map ss_sub (sy_streams S)"

definition session_fits :: "'s hub \<Rightarrow> session \<Rightarrow> bool" where
  "session_fits h s \<longleftrightarrow> la_max (se_asm s) = MaxLine \<and> asm_ok (se_asm s) \<and> se_sub s < h_nextSub h \<and>
     (map_of (h_subs h) (se_sub s) = None \<longleftrightarrow> se_ended s \<noteq> None)"

definition system_inv :: "('s, 'c, 'k, 'l) system \<Rightarrow> bool" where
  "system_inv S \<longleftrightarrow> hub_inv (sy_hub S) \<and> gomap (rt_links (sy_router S)) \<and> rt_ourNode (sy_router S) = h_ourNode (sy_hub S) \<and>
     list_all (session_fits (sy_hub S)) (sy_sessions S) \<and> distinct (readers S) \<and>
     (\<forall>i. map_of (h_subs (sy_hub S)) i = None \<longleftrightarrow> i \<notin> set (readers S))"

lemma put_sel [simp]:
  "sy_hub (put_hub h S) = h" "sy_router (put_hub h S) = sy_router S" "sy_sessions (put_hub h S) = sy_sessions S"
  "sy_streams (put_hub h S) = sy_streams S" "sy_hub (put_router r S) = rt_hub r" "sy_router (put_router r S) = r"
  "sy_sessions (put_router r S) = sy_sessions S" "sy_streams (put_router r S) = sy_streams S"
  "rt_hub (get_router S) = sy_hub S" "rt_sub (get_router S) = rt_sub (sy_router S)" "rt_links (get_router S) = rt_links (sy_router S)"
  "rt_ourNode (get_router S) = rt_ourNode (sy_router S)"
  by (simp_all add: put_hub_def put_router_def get_router_def)

text \<open>An action that keeps the channels keeps the invariant.\<close>

lemma system_inv_same:
  assumes inv: "system_inv S" and hub: "same_subs (sy_hub S) (sy_hub S')"
    and rest: "sy_sessions S' = sy_sessions S" "map ss_sub (sy_streams S') = map ss_sub (sy_streams S)"
      "rt_sub (sy_router S') = rt_sub (sy_router S)" "rt_ourNode (sy_router S') = rt_ourNode (sy_router S)" "gomap (rt_links (sy_router S'))"
  shows "system_inv S'"
proof -
  have "readers S' = readers S" using rest by (simp add: readers_def)
  moreover have "session_fits (sy_hub S') s = session_fits (sy_hub S) s" for s using hub by (simp add: session_fits_def same_subs_def)
  ultimately show ?thesis using inv hub rest by (simp add: system_inv_def same_subs_def list_all_iff)
qed

lemma system_inv_router:
  assumes "system_inv S" "same_subs (sy_hub S) (rt_hub r)" "rt_sub r = rt_sub (sy_router S)" "rt_ourNode r = rt_ourNode (sy_router S)" "gomap (rt_links r)"
  shows "system_inv (put_router r S)"
  using assms by (intro system_inv_same [OF assms(1)]) simp_all

text \<open>A new channel with a new reader.\<close>

lemma session_fits_new:
  assumes "session_fits h s" "h_nextSub h \<le> h_nextSub h'" "\<And>i. i \<noteq> h_nextSub h \<Longrightarrow> map_of (h_subs h') i = None \<longleftrightarrow> map_of (h_subs h) i = None"
  shows "session_fits h' s"
  using assms(1,2) assms(3) [of "se_sub s"] by (auto simp: session_fits_def)

lemma system_inv_added:
  assumes inv: "system_inv S" and n: "n = h_nextSub (sy_hub S)"
    and hub: "hub_inv (sy_hub S')" "h_nextSub (sy_hub S') = Suc n" "h_ourNode (sy_hub S') = h_ourNode (sy_hub S)"
      "\<And>i. map_of (h_subs (sy_hub S')) i = None \<longleftrightarrow> map_of (h_subs (sy_hub S)) i = None \<and> i \<noteq> n"
    and rest: "sy_router S' = sy_router S" "mset (readers S') = add_mset n (mset (readers S))"
      "\<And>s. s \<in> set (sy_sessions S') \<Longrightarrow> s \<in> set (sy_sessions S) \<or> session_fits (sy_hub S') s"
  shows "system_inv S'"
proof -
  have new: "map_of (h_subs (sy_hub S)) n = None" using inv Subscribe_subs(4) [of "sy_hub S"] by (simp add: system_inv_def n)
  have d: "distinct (n # readers S)" using inv new by (simp add: system_inv_def)
  have m: "mset (readers S') = mset (n # readers S)" using rest(2) by simp
  have r: "distinct (readers S')" "set (readers S') = insert n (set (readers S))"
    using mset_eq_imp_distinct_iff [OF m] d mset_eq_setD [OF m] by simp_all
  have "session_fits (sy_hub S') s" if "s \<in> set (sy_sessions S)" for s
    by (rule session_fits_new [of "sy_hub S"]) (use inv that hub(2,4) n in \<open>simp_all add: system_inv_def list_all_iff\<close>)
  then have "list_all (session_fits (sy_hub S')) (sy_sessions S')" using rest(3) by (auto simp: list_all_iff)
  then show ?thesis using inv hub(1,3,4) rest(1) r by (simp add: system_inv_def) blast
qed

lemma system_inv_removed:
  assumes inv: "system_inv S"
    and hub: "hub_inv (sy_hub S')" "h_nextSub (sy_hub S') = h_nextSub (sy_hub S)" "h_ourNode (sy_hub S') = h_ourNode (sy_hub S)"
      "\<And>i. map_of (h_subs (sy_hub S')) i = None \<longleftrightarrow> map_of (h_subs (sy_hub S)) i = None \<or> i = n"
    and rest: "sy_router S' = sy_router S" "mset (readers S) = add_mset n (mset (readers S'))"
      "\<And>s. s \<in> set (sy_sessions S') \<Longrightarrow> s \<in> set (sy_sessions S) \<and> se_sub s \<noteq> n \<or> session_fits (sy_hub S') s"
  shows "system_inv S'"
proof -
  have m: "mset (readers S) = mset (n # readers S')" using rest(2) by simp
  then have "distinct (n # readers S')" using inv mset_eq_imp_distinct_iff unfolding system_inv_def by blast
  moreover have "set (readers S) = insert n (set (readers S'))" using mset_eq_setD [OF m] by simp
  moreover have "session_fits (sy_hub S') s" if "s \<in> set (sy_sessions S)" "se_sub s \<noteq> n" for s
    using inv that hub(2,4) by (auto simp: system_inv_def list_all_iff session_fits_def)
  then have "list_all (session_fits (sy_hub S')) (sy_sessions S')" using rest(3) by (auto simp: list_all_iff)
  ultimately show ?thesis using inv hub(1,3,4) rest(1) by (auto simp: system_inv_def)
qed

text \<open>A session that does not end keeps the set of channels.\<close>

lemma system_inv_session:
  assumes inv: "system_inv S" and s: "sy_sessions S = as @ s # bs" and step: "session_step (sy_hub S, s) (h, s')"
  shows "system_inv (put_hub h (S\<lparr>sy_sessions := as @ s' # bs\<rparr>))"
proof (cases "se_ended s = None")
  case False
  then have "h = sy_hub S" "s' = s" using step by (auto elim!: session_stepE simp: Session_end_def split: option.splits)
  then show ?thesis using inv s by (simp add: system_inv_def readers_def)
next
  case True
  let ?i = "se_sub s" and ?S = "put_hub h (S\<lparr>sy_sessions := as @ s' # bs\<rparr>)"
  have f: "session_fits (sy_hub S) s" and hi: "hub_inv (sy_hub S)" using inv s by (simp_all add: system_inv_def)
  have "tracks ?i (sy_hub S) (sy_hub S, s)" using f hi by (simp add: tracks_def session_fits_def)
  from tr.stepped [OF step this] have t: "tracks ?i (sy_hub S) (h, s')" .
  have fit: "session_fits h s'" using t f by (simp add: tracks_def session_fits_def)
  have other: "se_sub q \<noteq> ?i" if "q \<in> set as \<union> set bs" for q
  proof
    assume q: "se_sub q = ?i"
    have "session_fits (sy_hub S) q" using inv s that by (auto simp: system_inv_def list_all_iff)
    then have "se_ended q = None" using f True q by (simp add: session_fits_def)
    then have "?i \<in> se_sub ` {x \<in> set as. se_ended x = None} \<union> se_sub ` {x \<in> set bs. se_ended x = None}"
      using that q by (auto intro!: image_eqI [of _ _ q])
    moreover have "distinct (readers S)" using inv by (simp add: system_inv_def)
    ultimately show False using s True by (auto simp: readers_def)
  qed
  show ?thesis
  proof (cases "se_ended s' = None")
    case False
    have "map_of (h_subs h) i = None \<longleftrightarrow> map_of (h_subs (sy_hub S)) i = None \<or> i = ?i" for i
      using t False by (cases "i = ?i") (simp_all add: tracks_def)
    then show ?thesis
      by (intro system_inv_removed [OF inv, of ?S ?i])
        (use t s True False fit other in \<open>auto simp: tracks_def readers_def\<close>)
  next
    case run: True
    have fo: "session_fits h q" if "q \<in> set as \<union> set bs" for q
      using inv s that other [OF that] t by (auto simp: system_inv_def session_fits_def tracks_def list_all_iff)
    then have "list_all (session_fits h) (as @ s' # bs)" using fit by (simp add: list_all_iff)
    moreover have "readers ?S = readers S" using s t True run by (simp add: readers_def tracks_def)
    moreover have "map_of (h_subs h) i = None \<longleftrightarrow> map_of (h_subs (sy_hub S)) i = None" for i
      using t f True run by (cases "i = ?i") (auto simp: tracks_def session_fits_def)
    ultimately show ?thesis using inv t by (simp add: system_inv_def tracks_def)
  qed
qed

subsection \<open>Every step\<close>

lemma stream_not_session:
  assumes inv: "system_inv S" and es: "es \<in> set (sy_streams S)" and s: "s \<in> set (sy_sessions S)"
  shows "se_sub s \<noteq> ss_sub es"
proof
  assume eq: "se_sub s = ss_sub es"
  have "ss_sub es \<in> set (readers S)" using es by (simp add: readers_def)
  then have "map_of (h_subs (sy_hub S)) (ss_sub es) \<noteq> None" using inv by (simp add: system_inv_def)
  moreover have "session_fits (sy_hub S) s" using inv s by (auto simp: system_inv_def list_all_iff)
  ultimately have "se_ended s = None" using eq by (auto simp: session_fits_def)
  then have "ss_sub es \<in> se_sub ` {s \<in> set (sy_sessions S). se_ended s = None} \<inter> ss_sub ` set (sy_streams S)"
    using s es eq by (auto intro!: image_eqI [of _ _ s])
  moreover have "distinct (readers S)" using inv by (simp add: system_inv_def)
  ultimately show False by (auto simp: readers_def)
qed

text \<open>Channel numbers may be used up without a reader: the one of a session that did not last.\<close>

lemma system_inv_skip:
  assumes inv: "system_inv S" and hub: "hub_inv h" "h_nextSub h = Suc (h_nextSub (sy_hub S))" "h_ourNode h = h_ourNode (sy_hub S)"
      "\<And>i. map_of (h_subs h) i = None \<longleftrightarrow> map_of (h_subs (sy_hub S)) i = None"
    and ss: "filter (\<lambda>s. se_ended s = None) ss = filter (\<lambda>s. se_ended s = None) (sy_sessions S)"
      "\<And>s. s \<in> set ss \<Longrightarrow> s \<in> set (sy_sessions S) \<or> session_fits h s"
  shows "system_inv (put_hub h (S\<lparr>sy_sessions := ss\<rparr>))"
proof -
  have "session_fits h s" if "s \<in> set (sy_sessions S)" for s
    by (rule session_fits_new [of "sy_hub S"]) (use inv that hub(2,4) in \<open>simp_all add: system_inv_def list_all_iff\<close>)
  then have "list_all (session_fits h) ss" using ss(2) by (auto simp: list_all_iff)
  then show ?thesis using inv hub(1,3,4) ss(1) by (simp add: system_inv_def readers_def)
qed

lemma system_inv_hub: "system_inv S \<Longrightarrow> hub_inv (sy_hub S)"
  by (simp add: system_inv_def)

lemma system_inv_open:
  assumes inv: "system_inv S" and es: "events_open call (sy_web S) = (es, w)"
  shows "system_inv (S\<lparr>sy_web := w, sy_streams := es # sy_streams S\<rparr>)"
proof -
  let ?w = "snd (enter call (sy_web S))"
  have e: "same_hub (sy_web S) ?w" using system_inv_hub [OF inv] by (rule same_hub_presence)
  note sub = Subscribe_subs [OF same_subs_inv [OF e]] and i = hub_inv_Subscribe [OF same_subs_inv [OF e]]
  have w: "ws_hub w = snd (Hub_Subscribe (ws_hub ?w))" "ss_sub es = h_nextSub (sy_hub S)"
    using es e sub(1) by (auto simp: events_open_def Let_def split_def same_subs_def)
  show ?thesis by (rule system_inv_added [OF inv refl]) (use w e sub i in \<open>auto simp: same_subs_def readers_def\<close>)
qed

lemma system_inv_event:
  assumes inv: "system_inv S" and es: "sy_streams S = as @ es # bs" "events_step (es, sy_web S) = (es', w)"
  shows "system_inv (S\<lparr>sy_web := w, sy_streams := as @ es' # bs\<rparr>)"
proof -
  note h = system_inv_hub [OF inv]
  have "ws_hub w \<in> {sy_hub S, snd (Hub_recv (sy_hub S) (ss_sub es))}" "ss_sub es' = ss_sub es"
    using es(2) by (auto simp: events_step_def split: prod.splits option.splits)
  then have "same_subs (sy_hub S) (ws_hub w)" using same_subs_refl [OF h] same_subs_ops(11) [OF h] by auto
  then show ?thesis using inv es \<open>ss_sub es' = ss_sub es\<close> by (intro system_inv_same [OF inv]) (simp_all add: system_inv_def)
qed

lemma system_inv_close:
  assumes inv: "system_inv S" and es: "sy_streams S = as @ es # bs"
  shows "system_inv (S\<lparr>sy_web := events_close (es, sy_web S), sy_streams := as @ bs\<rparr>)"
proof -
  let ?w = "(sy_web S)\<lparr>ws_hub := Hub_cancel (sy_hub S) (ss_sub es)\<rparr>"
  have "hub_inv (ws_hub ?w)" using inv by (simp add: system_inv_def inv_intros)
  then have l: "same_hub ?w (leave (ss_call es) ?w)" by (rule same_hub_presence)
  show ?thesis
    by (rule system_inv_removed [OF inv, of _ "ss_sub es"])
      (use l es stream_not_session [OF inv, of es] in \<open>auto simp: events_close_def same_subs_def Hub_cancel_def readers_def\<close>)
qed

lemma system_inv_connect:
  assumes inv: "system_inv S" and new: "Session_New (sy_hub S) fails callsign = (h, Inr s)"
  shows "system_inv (put_hub h (S\<lparr>sy_sessions := s # sy_sessions S\<rparr>))"
proof -
  let ?n = "h_nextSub (sy_hub S)"
  have t: "tracks ?n (snd (Hub_Subscribe (sy_hub S))) (h, s)" using Session_New_tracks [OF system_inv_hub [OF inv] new] by simp
  have h: "hub_inv h" "h_nextSub h = Suc ?n" "h_ourNode h = h_ourNode (sy_hub S)"
    "map_of (h_subs h) i = None \<longleftrightarrow> map_of (h_subs (sy_hub S)) i = None \<and> (i = ?n \<longrightarrow> se_ended s \<noteq> None)" for i
    using t Subscribe_subs [OF system_inv_hub [OF inv]] by (cases "i = ?n"; simp add: tracks_def)+
  have f: "session_fits h s" using t h(2) by (simp add: tracks_def session_fits_def)
  show ?thesis
  proof (cases "se_ended s = None")
    case True
    show ?thesis by (rule system_inv_added [OF inv refl]) (use h f t True in \<open>auto simp: readers_def tracks_def\<close>)
  next
    case False
    then show ?thesis by (intro system_inv_skip [OF inv h(1-3)]) (use h(4) f in auto)
  qed
qed

lemma system_inv_links:
  assumes inv: "system_inv S"
  shows "system_inv (put_router (snd (serve_up t hnd (l, get_router S))) S)"
    "system_inv (put_router (snd (fst (handle t1 t2 (l, get_router S) line))) S)"
    "system_inv (put_router (snd (serve_down (l, get_router S))) S)"
    "system_inv (put_router (fst (fanOutLocal (get_router S))) S)"
proof -
  have g: "hub_inv (rt_hub (get_router S))" "gomap (rt_links (get_router S))" using inv by (simp_all add: system_inv_def)
  show "system_inv (put_router (snd (serve_up t hnd (l, get_router S))) S)"
    "system_inv (put_router (snd (fst (handle t1 t2 (l, get_router S) line))) S)"
    "system_inv (put_router (snd (serve_down (l, get_router S))) S)"
    "system_inv (put_router (fst (fanOutLocal (get_router S))) S)"
    using g(2) same_subs_links [OF g(1)] by (intro system_inv_router [OF inv]; simp add: links_sel)+
qed

lemma system_inv_step: "system_step S S' \<Longrightarrow> system_inv S \<Longrightarrow> system_inv S'"
proof (induction rule: system_step.induct)
  case (request r S t)
  then have "same_hub (sy_web S) (fst (serve_http t r (sy_web S)))" by (intro same_hub_serve system_inv_hub)
  with request.prems show ?case by (intro system_inv_same [OF request.prems]) (simp_all add: system_inv_def)
next
  case (refuse S fails callsign h e)
  from Session_New_tracks [OF system_inv_hub [OF refuse.prems] refuse.hyps] system_inv_skip [OF refuse.prems, of h "sy_sessions S"]
  show ?case by simp
qed (auto intro: system_inv_open system_inv_event system_inv_close system_inv_connect system_inv_session system_inv_links)

lemma launch_inv:
  assumes "start ord hash clk env opened = Inr d"
  shows "system_inv (launch d)"
proof -
  obtain cfg store where d: "da_router d = NewRouter (NewHub (BoundCallsign cfg) (Sqlite ord) store hash clk)"
    "ws_hub (da_web d) = rt_hub (da_router d)"
    using assms by (auto simp: start_def Web_New_def Let_def split: sum.splits prod.splits)
  let ?h = "NewHub (BoundCallsign cfg) (Sqlite ord) store hash clk"
  have h: "hub_inv ?h" "h_subs ?h = []" using NewHub_inv by (auto simp: NewHub_def)
  have "router_inv (da_router d)" using router_inv_New [OF h(1)] by (simp add: d(1))
  then show ?thesis
    using h by (simp add: system_inv_def launch_def readers_def d router_inv_def) (simp add: NewRouter_def Hub_Subscribe_def Let_def)
qed

text \<open>
  C3: nothing reads a channel that is not its own and no channel is left without a reader. From the
  start of the daemon on, in whatever order web requests, event streams, user sessions and peer
  links act on the one hub: the hub invariant holds; the channels the hub fans its events out to are
  exactly those of the router, of every session that has not ended and of every open event stream,
  no two of them the same one; and no session buffers more than a line of 512 bytes.
\<close>

theorem channels_have_one_reader:
  assumes "system_reach S"
  shows "hub_inv (sy_hub S) \<and> distinct (readers S) \<and> set (readers S) = fst ` set (h_subs (sy_hub S))
    \<and> (\<forall>s \<in> set (sy_sessions S). length (la_buf (se_asm s)) \<le> 512)"
proof -
  have inv: "system_inv S" using assms by (induction rule: system_reach.induct) (auto intro: launch_inv system_inv_step)
  have "i \<notin> set (readers S) \<longleftrightarrow> i \<notin> dom (map_of (h_subs (sy_hub S)))" for i
    using inv by (simp add: system_inv_def domIff del: not_None_eq)
  then have "set (readers S) = fst ` set (h_subs (sy_hub S))" unfolding dom_map_of_gomap by blast
  moreover have "length (la_buf (se_asm s)) \<le> 512" if "s \<in> set (sy_sessions S)" for s
  proof -
    have "session_fits (sy_hub S) s" using inv that by (simp add: system_inv_def list_all_iff)
    then show ?thesis by (simp add: session_fits_def asm_ok_def MaxLine_def)
  qed
  ultimately show ?thesis using inv by (simp add: system_inv_def)
qed

text \<open>A start with nothing configured, and a viewer who opens the page twice.\<close>

theorem channels_have_one_reader_witness:
  "\<exists>S :: (sql_store, sql_store, sql_store, string) system. system_reach S \<and> map ss_call (sy_streams S) = [''M0LTE'', ''M0LTE''] \<and>
     length (readers S) = 3 \<and> distinct (readers S) \<and> set (readers S) = fst ` set (h_subs (sy_hub S))"
proof -
  obtain cfg where "Load lone_env = Inr cfg"
  proof -
    have "case Load lone_env of Inl _ \<Rightarrow> False | Inr _ \<Rightarrow> True" by code_simp
    then show thesis using that by (auto split: sum.splits)
  qed
  then obtain d :: "string daemon" where d: "start insertion_order id int lone_env (Inr Sqlite_Open) = Inr d"
    using start_total [of lone_env cfg Sqlite_Open insertion_order id int] by (auto simp: Sqlite_Open_def)
  let ?open = "\<lambda>S :: (sql_store, sql_store, sql_store, string) system. S\<lparr>sy_web := snd (events_open ''M0LTE'' (sy_web S)),
    sy_streams := fst (events_open ''M0LTE'' (sy_web S)) # sy_streams S\<rparr>"
  have o: "system_reach (?open S)" if "system_reach S" for S by (rule stepped [OF that stream_open]) simp
  let ?S = "?open (?open (launch d))"
  have r: "system_reach ?S" by (intro o launched [OF d])
  have n: "map ss_call (sy_streams ?S) = [''M0LTE'', ''M0LTE'']" "length (readers ?S) = 3"
    by (simp_all add: launch_def events_open_def readers_def Let_def split_def)
  show ?thesis by (intro exI [of _ ?S] conjI r n channels_have_one_reader [OF r, THEN conjunct2, THEN conjunct1]
      channels_have_one_reader [OF r, THEN conjunct2, THEN conjunct2, THEN conjunct1])
qed

end
