(* ===== verification/Mesh_Chat.thy ===== *)
theory Mesh_Chat
  imports Peer_Link_Spec Session_Spec
begin

text \<open>
  The way of a message through two nodes: a line typed in a session of one node is posted to its hub,
  encoded by its router, written and read as a line of the link, decoded, posted to the hub of the
  other node and shown in a session there. The definitions are those of the components; this theory
  only composes them.
\<close>

subsection \<open>The normal form of a text\<close>

lemma space_len_rev_blank: "s \<noteq> [] \<Longrightarrow> space_len_rev s = 0 \<Longrightarrow> space_len_rev (s @ CHR '' '' # t) = 0"
proof (induction s rule: space_len_rev.induct)
  case (2 a)
  then show ?case by (cases t) (auto simp: sp_defs split: if_splits)
next
  case (3 a b)
  then show ?case by (cases t) (auto simp: sp_defs split: if_splits)
qed (auto split: if_splits)

lemma Join_ends:
  "list_all (\<lambda>s. nosp s \<and> s \<noteq> []) ss \<Longrightarrow> ss \<noteq> [] \<Longrightarrow>
     space_len (Join ss (CHR '' '')) = 0 \<and> space_len_rev (rev (Join ss (CHR '' ''))) = 0 \<and> Join ss (CHR '' '') \<noteq> []"
proof (induction ss "CHR '' ''" rule: Join.induct)
  case (2 s)
  then show ?case by (simp add: nosp_space_len nosp_space_len_rev)
next
  case (3 s t ss)
  then show ?case
    using space_len_blank [of s] space_len_rev_blank [of "rev (Join (t # ss) (CHR '' ''))" "rev s"]
    by (simp add: nosp_space_len)
qed simp

lemma Join_snoc_length: "length (Join (f # fs) (CHR '' '')) = length f + length (concat (map (\<lambda>f. CHR '' '' # f) fs))"
  by (induction fs arbitrary: f) simp_all

lemma Fields_from_length:
  "length (concat (map (\<lambda>f. CHR '' '' # f) (Fields_from acc s))) \<le> length acc + length s + 1"
proof (induction acc s rule: Fields_from.induct)
  case (1 acc s)
  consider "s = []" | "s \<noteq> []" "space_len s = 0" | "s \<noteq> []" "0 < space_len s" by blast
  then show ?case
  proof cases
    case 2
    then show ?thesis using "1.IH"(1) by (subst Fields_from.simps) (cases s; simp)
  next
    case 3
    have d: "length (drop (space_len s) s) + 1 \<le> length s"
      using space_len_decr [OF 3(2)] by (simp only: length_drop Suc_eq_plus1 [symmetric] Suc_le_eq)
    have "length (concat (map (\<lambda>f. CHR '' '' # f) (Fields_from [] (drop (space_len s) s)))) \<le> length (drop (space_len s) s) + 1"
      using "1.IH"(2) 3 by simp
    then show ?thesis using 3 d by (subst Fields_from.simps) simp
  qed simp
qed

text \<open>The text a link hands on: the words of the text, one blank between them.\<close>

definition words :: "string \<Rightarrow> string" where
  "words s = Join (Fields s) (CHR '' '')"

lemma length_words: "length (words s) \<le> length s"
proof (cases "Fields s")
  case (Cons f fs)
  then show ?thesis using Fields_from_length [of "[]" s] by (simp add: words_def Join_snoc_length Fields_def)
qed (simp add: words_def)

lemma Fields_from_ne: "acc \<noteq> [] \<Longrightarrow> Fields_from acc s \<noteq> []"
proof (induction acc s rule: Fields_from.induct)
  case (1 acc s)
  then show ?case by (subst Fields_from.simps) simp
qed

lemma Fields_ne: "space_len s = 0 \<Longrightarrow> s \<noteq> [] \<Longrightarrow> Fields s \<noteq> []"
  unfolding Fields_def by (subst Fields_from.simps) (simp add: Fields_from_ne)

lemma clip_words:
  assumes "clip t \<noteq> ''''"
  shows "clip (words (clip t)) = words (clip t)" "words (clip t) \<noteq> ''''"
proof -
  let ?w = "words (clip t)"
  have "Fields (clip t) \<noteq> []" using assms by (intro Fields_ne) (simp_all add: clip_def Let_def)
  then have w: "space_len ?w = 0" "space_len_rev (rev ?w) = 0" "?w \<noteq> []"
    using Join_ends [of "Fields (clip t)"] by (auto simp: words_def list_all_iff dest: Fields_sound)
  have "last ?w \<notin> {CHR 0x0D, CHR 0x0A}"
  proof
    assume a: "last ?w \<in> {CHR 0x0D, CHR 0x0A}"
    have "rev ?w = last ?w # rev (butlast ?w)" using w(3) by (cases ?w rule: rev_cases) simp_all
    with w(2) a show False using space_len_rev_sp1 [of "last ?w" "rev (butlast ?w)"] by (auto simp: sp1_def)
  qed
  then have "TrimRight ?w {CHR 0x0D, CHR 0x0A} = ?w" using prefix_last_two_cases by blast
  moreover have "length ?w \<le> MaxText" using length_words [of "clip t"] clip_length [of t] by linarith
  ultimately show "clip ?w = ?w" using w by (simp add: clip_def Let_def TrimSpace_id)
  show "?w \<noteq> ''''" using w(3) .
qed

subsection \<open>Posting\<close>

text \<open>The store of the hub takes every message that has an id.\<close>

definition saves :: "'s hub \<Rightarrow> bool" where
  "saves h \<longleftrightarrow> (\<forall>m. m_id m \<noteq> '''' \<longrightarrow> (\<exists>st. sv_SaveMessage (h_vt h) (h_store h) m = Inr st))"

text \<open>A node in working order.\<close>

definition working :: "('s, 'l) router \<Rightarrow> bool" where
  "working r \<longleftrightarrow> router_inv r \<and> saves (rt_hub r) \<and> (\<forall>x. h_hash (rt_hub r) x \<noteq> '''')"

lemma record_and_emit_saved:
  assumes "saves h" "m_id m \<noteq> ''''"
  shows "snd (record_and_emit h m ev) = Inr m"
    "map_of (h_subs (fst (record_and_emit h m ev))) i = map_option (offer (ev m)) (map_of (h_subs h) i)"
proof -
  obtain st where "sv_SaveMessage (h_vt h) (h_store h) m = Inr st" using assms by (auto simp: saves_def)
  then have "record_and_emit h m ev = (emit [ev m] ((snd (Hub_Seen h (m_id m)))\<lparr>h_store := st\<rparr>), Inr m)"
    by (simp add: record_and_emit_def Let_def)
  then show "snd (record_and_emit h m ev) = Inr m"
    "map_of (h_subs (fst (record_and_emit h m ev))) i = map_option (offer (ev m)) (map_of (h_subs h) i)"
    by (simp_all add: emit_subs)
qed

lemma Post_saved:
  assumes "saves h" "\<forall>x. h_hash h x \<noteq> ''''" "Hub_User h key = Some u" "clip text \<noteq> ''''"
  obtains h' m where "Hub_Post h key text = (h', Inr m)" "m_text m = clip text" "m_topic m = u_topic u"
    "m_fromCall m = normCall (uk_call key)" "m_originNode m = normCall (uk_node key)"
    "\<And>i. map_of (h_subs h') i = map_option (offer (TopicMessage m)) (map_of (h_subs h) i)"
    "\<And>k. map_option u_topic (Hub_User h' k) = map_option u_topic (Hub_User h k)"
proof -
  let ?h = "tick (tick (setUser (canonKey key) (u\<lparr>u_lastActive := now h\<rparr>) h))"
  let ?m = "post_msg h (canonKey key) (u_topic u) (clip text)"
  have eq: "Hub_Post h key text = record_and_emit ?h ?m TopicMessage"
    using assms(3,4) by (simp add: Post_eq Hub_User_def)
  have "m_id ?m \<noteq> ''''" using assms(2) by (simp add: post_msg_def SynthID_ne)
  moreover have "saves ?h" using assms(1) by (simp add: saves_def)
  ultimately show ?thesis
    using that [of "fst (Hub_Post h key text)" ?m] record_and_emit_saved [of ?h ?m TopicMessage] assms(3)
    by (simp add: eq prod_eq_iff post_msg_def Hub_User_def)
qed

subsection \<open>From the line to the wire\<close>

lemma typed_line:
  assumes A: "working rA" and u: "Hub_User (rt_hub rA) (se_key sA) = Some u" "se_key sA = UserKey call (rt_ourNode rA)"
    and sub: "map_of (h_subs (rt_hub rA)) (rt_sub rA) = Some []"
    and line: "TrimSpace (sanitise line) \<noteq> ''''" "TrimSpace (sanitise line) ! 0 \<noteq> CHR ''/''" "clip (TrimSpace (sanitise line)) \<noteq> ''''"
    and call: "normCall call = call"
  shows "snd (fanOutLocal (rA\<lparr>rt_hub := fst (fst (processLine line (rt_hub rA, sA)))\<rparr>)) =
    forward rA (encodeData (rt_ourNode rA) call (clip (TrimSpace (sanitise line)))) ''''"
proof -
  have inv: "router_inv rA" "saves (rt_hub rA)" "\<forall>x. h_hash (rt_hub rA) x \<noteq> ''''" using A by (simp_all add: working_def)
  have n: "normCall (rt_ourNode rA) = rt_ourNode rA" using inv(1) by (auto simp: router_inv_def hub_inv_def)
  obtain h' m where p: "Hub_Post (rt_hub rA) (se_key sA) (TrimSpace (sanitise line)) = (h', Inr m)"
    "m_text m = clip (TrimSpace (sanitise line))" "m_fromCall m = call" "m_originNode m = rt_ourNode rA"
    "map_of (h_subs h') (rt_sub rA) = Some [TopicMessage m]"
    by (rule Post_saved [OF inv(2,3) u(1) line(3)]) (simp add: u(2) call n sub offer_def subBuffer_def)
  have "fst (fst (processLine line (rt_hub rA, sA))) = h'"
    using line(1,2) p(1) by (simp add: processLine_def Let_def)
  then show ?thesis using p by (simp add: fanOutLocal_def Hub_recv_def forward_def Let_def)
qed

lemma visible_clean: "list_all visible s \<Longrightarrow> clean s"
  by (auto simp: visible_def clean_def list_all_iff)

lemma typed_visible: "list_all visible (clip (TrimSpace (sanitise line)))"
  using set_clip [of "TrimSpace (sanitise line)"] set_TrimSpace [of "sanitise line"]
  by (auto simp: list_all_iff dest!: sanitise_visible subsetD)

lemma data_line:
  assumes "token node" "token call" "clean text" "length text \<le> MaxText" "length node + length call \<le> 2000"
  shows "readLines (encodeData node call text @ [CHR 0x0D]) = [encodeData node call text]"
proof -
  have "plain (encodeData node call text)"
    using assms(1-3) clean_plain by (simp add: encodeData_def encode_def token_def FORMAT_def IDData_def eol_def)
  moreover have "length (encodeData node call text) \<le> maxLine"
    using assms(4,5) by (simp add: encodeData_def encode_def MaxText_def maxLine_def)
  ultimately show ?thesis using readLines_append [of "encodeData node call text" "CHR 0x0D" "[]"] by (simp add: readLines_plain)
qed

subsection \<open>From the wire to the screen\<close>

lemma data_posted:
  fixes rB :: "('s, 'l) router"
  assumes B: "working rB" and tok: "token node" "token call" "ToUpper node = node" "ToUpper call = call" "clean text"
    and w: "clip (words text) = words text" "words text \<noteq> ''''"
    and u: "Hub_User (rt_hub rB) (UserKey call node) = Some uB" and n: "node \<noteq> rt_ourNode rB"
    and new: "\<not> live (now (rt_hub rB)) (h_seen (rt_hub rB)) (SynthID (h_hash (rt_hub rB)) node call KindTopic (u_topic uB) (words text))"
  obtains m where "m_text m = words text" "m_fromCall m = call" "m_topic m = u_topic uB"
    "\<And>i. map_of (h_subs (rt_hub (snd (fst (handle t1 t2 (lB, rB) (encodeData node call text)))))) i =
       map_option (offer (TopicMessage m)) (map_of (h_subs (rt_hub rB)) i)"
    "\<And>k. map_option u_topic (Hub_User (rt_hub (snd (fst (handle t1 t2 (lB, rB) (encodeData node call text))))) k) =
       map_option u_topic (Hub_User (rt_hub rB) k)"
proof -
  have inv: "router_inv rB" "saves (rt_hub rB)" "\<forall>x. h_hash (rt_hub rB) x \<noteq> ''''" using B by (simp_all add: working_def)
  obtain rc where rc: "Decode (encodeData node call text) = Some rc" "r_Type rc = IDData" "r_Node rc = node"
    "r_User rc = call" "Tail rc 0 = words text"
    using encodeData_roundtrip [OF tok(1,2,5)] tok(3,4) by (auto simp: words_def)
  have ok: "record_ok rc" and ctl: "IsControl (encodeData node call text)"
    using Decode_exact [of "encodeData node call text"] rc(1) by (simp_all add: encodeData_def encode_def IsControl_def)
  let ?h = "snd (Hub_Seen (rt_hub rB) (recordID rB rc))"
  have id: "recordID rB rc = SynthID (h_hash (rt_hub rB)) node call KindTopic (u_topic uB) (words text)"
    using u by (simp add: recordID_def rc topicOf_def Let_def)
  have h: "Hub_User ?h k = Hub_User (rt_hub rB) k" "saves ?h" "h_hash ?h = h_hash (rt_hub rB)" "h_subs ?h = h_subs (rt_hub rB)" for k
    using inv(2) by (simp_all add: Hub_User_def saves_def)
  have "rt_hub (snd (fst (handle t1 t2 (lB, rB) (encodeData node call text)))) = apply_rec ?h rc (l_peerCall (markSeen t1 lB))"
    using new by (simp add: handle_def ctl rc handleRecord_def Ingest_eq [OF inv(1) ok _ inv(3)] n id split_def ID_defs Let_def)
  also have "\<dots> = fst (Hub_Post ?h (UserKey call node) (words text))"
    using u h(1) by (simp add: apply_rec_def rc ID_defs ensureUser_def Let_def)
  finally have eq: "rt_hub (snd (fst (handle t1 t2 (lB, rB) (encodeData node call text)))) = fst (Hub_Post ?h (UserKey call node) (words text))" .
  have nc: "normCall call = call" using tok(2,4) by (simp add: normCall_def token_def nosp_TrimSpace)
  show thesis
    by (rule Post_saved [of ?h "UserKey call node" uB "words text"]) (use inv(3) h u w nc eq in \<open>simp_all add: that\<close>)
qed

lemma message_rendered:
  assumes "map_of (h_subs h) (se_sub s) = Some [TopicMessage m]" "inMyTopic (h, s) (m_topic m)" "\<not> se_fail s (se_sends s)"
  shows "\<exists>ev h'. Hub_recv h (se_sub s) = (Some ev, h') \<and>
    se_out (snd (render ev (h', s))) = se_out s @ ''<'' @ m_fromCall m @ ''> '' @ m_text m @ [CR]"
  using assms
  by (simp add: Hub_recv_def inMyTopic_def Hub_User_def sendLine_def send_def formatMsg_def Let_def)

text \<open>
  C2: a message reaches the users of the next node. A user of node A types a line that is neither
  blank nor a command. What the router of A then sends to its link with B is one record; written to
  the connection it is read as one line however the text looks, B accepts it, and the session of a
  B user who is in the topic the sender has at B prints it as the sender's callsign in angle brackets
  and the text with its control bytes gone and every run of white space one blank. Both nodes work
  (their stores take messages), B knows the sender and has not seen the same text of the same sender in
  that topic within the time-to-live.
\<close>

theorem message_crosses_link:
  assumes A: "working rA" "Hub_User (rt_hub rA) (se_key sA) = Some uA" "se_key sA = UserKey call (rt_ourNode rA)"
      "map_of (h_subs (rt_hub rA)) (rt_sub rA) = Some []" "map_of (rt_links rA) peer = Some lnk" "peer \<noteq> ''''"
    and names: "token (rt_ourNode rA)" "token call" "ToUpper call = call" "length (rt_ourNode rA) + length call \<le> 2000"
    and line: "text = clip (TrimSpace (sanitise line))" "text \<noteq> ''''" "TrimSpace (sanitise line) ! 0 \<noteq> CHR ''/''"
    and B: "working rB" "rt_ourNode rB \<noteq> rt_ourNode rA" "Hub_User (rt_hub rB) (UserKey call (rt_ourNode rA)) = Some uB"
      "\<not> live (now (rt_hub rB)) (h_seen (rt_hub rB))
         (SynthID (h_hash (rt_hub rB)) (rt_ourNode rA) call KindTopic (u_topic uB) (words text))"
    and reader: "inMyTopic (rt_hub rB, sB) (u_topic uB)" "map_of (h_subs (rt_hub rB)) (se_sub sB) = Some []" "\<not> se_fail sB (se_sends sB)"
  shows "\<exists>raw ev h. (lnk, raw) \<in> set (snd (fanOutLocal (rA\<lparr>rt_hub := fst (fst (processLine line (rt_hub rA, sA)))\<rparr>)))
    \<and> readLines (raw @ [CHR 0x0D]) = [raw]
    \<and> Hub_recv (rt_hub (snd (fst (handle t1 t2 (lB, rB) raw)))) (se_sub sB) = (Some ev, h)
    \<and> se_out (snd (render ev (h, sB))) = se_out sB @ ''<'' @ call @ ''> '' @ words text @ [CR]"
proof -
  let ?raw = "encodeData (rt_ourNode rA) call text"
  have r: "router_inv rA" using A(1) by (simp add: working_def)
  have nt: "TrimSpace (sanitise line) \<noteq> ''''" using line(1,2) by (auto simp: clip_def TrimRight_def Let_def)
  have call: "normCall call = call" using names(2,3) by (simp add: normCall_def token_def nosp_TrimSpace)
  have cl: "clean text" "length text \<le> MaxText" using typed_visible [of line] clip_length line(1) by (auto intro: visible_clean)
  have w: "clip (words text) = words text" "words text \<noteq> []" using clip_words line(1,2) by blast+
  have "(lnk, ?raw) \<in> set (snd (fanOutLocal (rA\<lparr>rt_hub := fst (fst (processLine line (rt_hub rA, sA)))\<rparr>)))"
    using typed_line [OF A(1-4) nt line(3) _ call] line(1,2) A(5,6) r forward_targets [of rA]
    by (auto simp: router_inv_def)
  moreover have "readLines (?raw @ [CHR 0x0D]) = [?raw]" using data_line [OF names(1,2) cl names(4)] .
  moreover have up: "ToUpper (rt_ourNode rA) = rt_ourNode rA" using r by (simp add: router_inv_def upper_ourNode)
  obtain m where m: "m_text m = words text" "m_fromCall m = call" "m_topic m = u_topic uB"
    "\<And>i. map_of (h_subs (rt_hub (snd (fst (handle t1 t2 (lB, rB) ?raw))))) i = map_option (offer (TopicMessage m)) (map_of (h_subs (rt_hub rB)) i)"
    "\<And>k. map_option u_topic (Hub_User (rt_hub (snd (fst (handle t1 t2 (lB, rB) ?raw)))) k) = map_option u_topic (Hub_User (rt_hub rB) k)"
    using data_posted [OF B(1) names(1,2) up names(3) cl(1) w B(3) B(2) [symmetric] B(4), where ?t1.0 = t1 and ?t2.0 = t2 and lB = lB]
    by blast
  moreover have "map_of (h_subs (rt_hub (snd (fst (handle t1 t2 (lB, rB) ?raw))))) (se_sub sB) = Some [TopicMessage m]"
    using m(4) reader(2) by (simp add: offer_def subBuffer_def)
  moreover have "inMyTopic (rt_hub (snd (fst (handle t1 t2 (lB, rB) ?raw))), sB) (m_topic m)"
    using reader(1) m(3) m(5) [of "se_key sB"] by (auto simp: inMyTopic_def split: option.splits)
  ultimately show ?thesis using message_rendered [of _ sB m] reader(3) by metis
qed

text \<open>Two nodes that know the same user, each with one session.\<close>

definition near_node :: "(mem_store, string) router" where
  "near_node = Router_Add (NewRouter (fst (Hub_Join (NewHub ''M0LTE-4'' MemStore NewMemStore (\<lambda>x. ''#'' @ x) int)
     (demo_user ''G8PZT'' ''M0LTE-4'' '''' '''')))) ''GB7RDG-4'' ''link-b''"

definition far_node :: "(mem_store, string) router" where
  "far_node = NewRouter (snd (Hub_Subscribe (fst (Hub_Join (fst (Hub_Join (NewHub ''GB7RDG-4'' MemStore NewMemStore (\<lambda>x. ''#'' @ x) int)
     (demo_user ''2E0XYZ'' ''GB7RDG-4'' '''' ''''))) (demo_user ''G8PZT'' ''M0LTE-4'' ''M0LTE-4'' '''')))))"

definition demo_session :: "string \<Rightarrow> string \<Rightarrow> session" where
  "demo_session call node = \<lparr>se_key = UserKey call node, se_asm = NewLineAssembler 0, se_sub = 0, se_out = '''',
     se_fail = (\<lambda>_. False), se_sends = 0, se_ended = None\<rparr>"

lemma saves_MemStore: "h_vt h = MemStore \<Longrightarrow> saves h"
  by (auto simp: saves_def MemStore_SaveMessage_def Let_def)

lemma demo_nodes_working: "working near_node" "working far_node"
proof -
  have s: "saves (rt_hub near_node)" "saves (rt_hub far_node)"
    by (auto intro!: saves_MemStore simp: near_node_def far_node_def NewRouter_def Router_Add_def Hub_Subscribe_def Let_def split_def Join_vt NewHub_vt)
  have j: "h_hash (fst (Hub_Join h u)) = h_hash h" for h :: "mem_store hub" and u
    by (simp add: Hub_Join_def Let_def split_def split: option.split)
  have h: "h_hash (rt_hub near_node) = (\<lambda>x. ''#'' @ x)" "h_hash (rt_hub far_node) = (\<lambda>x. ''#'' @ x)"
    by (simp_all add: near_node_def far_node_def NewRouter_def Router_Add_def Hub_Subscribe_def Let_def split_def j NewHub_def)
  have "router_inv near_node" "router_inv far_node"
    unfolding near_node_def far_node_def
    by (intro router_inv_Add router_inv_New hub_inv_Subscribe hub_inv_Join NewHub_inv)+
  then show "working near_node" "working far_node" using s h by (simp_all add: working_def)
qed

theorem message_crosses_link_witness:
  "working near_node \<and> working far_node \<and>
   (\<exists>raw ev h. (''link-b'', raw) \<in> set (snd (fanOutLocal (near_node\<lparr>rt_hub :=
        fst (fst (processLine '' hello   all'' (rt_hub near_node, demo_session ''G8PZT'' ''M0LTE-4'')))\<rparr>)))
    \<and> Hub_recv (rt_hub (snd (fst (handle 0 0 (demo_link False ''M0LTE-4'' ''GB7RDG-4'' '''', far_node) raw)))) 0 = (Some ev, h)
    \<and> se_out (snd (render ev (h, demo_session ''2E0XYZ'' ''GB7RDG-4''))) = ''<G8PZT> hello all'' @ [CR])"
proof -
  let ?line = "'' hello   all''" and ?text = "''hello   all''"
  have a: "map_option u_topic (Hub_User (rt_hub near_node) (UserKey ''G8PZT'' ''M0LTE-4'')) = Some ''General''"
    "map_option u_topic (Hub_User (rt_hub far_node) (UserKey ''G8PZT'' ''M0LTE-4'')) = Some ''General''"
    "rt_ourNode near_node = ''M0LTE-4''" "rt_ourNode far_node = ''GB7RDG-4''"
    "map_of (h_subs (rt_hub near_node)) (rt_sub near_node) = Some []" "map_of (rt_links near_node) ''GB7RDG-4'' = Some ''link-b''"
    "token ''M0LTE-4''" "token ''G8PZT''" "ToUpper ''G8PZT'' = ''G8PZT''" "clip (TrimSpace (sanitise ?line)) = ?text"
    "TrimSpace (sanitise ?line) ! 0 \<noteq> CHR ''/''" "words ?text = ''hello all''"
    by code_simp+
  have b: "ss_entries (h_seen (rt_hub far_node)) = []" "inMyTopic (rt_hub far_node, demo_session ''2E0XYZ'' ''GB7RDG-4'') ''General''"
    "map_of (h_subs (rt_hub far_node)) 0 = Some []"
    by code_simp+
  obtain uA uB where u: "Hub_User (rt_hub near_node) (UserKey ''G8PZT'' ''M0LTE-4'') = Some uA"
    "Hub_User (rt_hub far_node) (UserKey ''G8PZT'' ''M0LTE-4'') = Some uB" "u_topic uB = ''General''" using a(1,2) by auto
  have s: "se_key (demo_session c n) = UserKey c n" "se_sub (demo_session c n) = 0" "se_out (demo_session c n) = ''''"
    "\<not> se_fail (demo_session c n) k" for c n k by (simp_all add: demo_session_def)
  show ?thesis
    using message_crosses_link [OF demo_nodes_working(1), of "demo_session ''G8PZT'' ''M0LTE-4''" uA "''G8PZT''" "''GB7RDG-4''" "''link-b''"
        ?text ?line far_node uB "demo_session ''2E0XYZ'' ''GB7RDG-4''" 0 0 "demo_link False ''M0LTE-4'' ''GB7RDG-4'' ''''"]
      demo_nodes_working u a b s by (auto simp: live_def)
qed

end
