(* ===== verification/Chat_Roster.thy ===== *)
theory Chat_Roster
  imports Chat_Hub_Spec
begin

text \<open>
  What the hub promises about presence, without its tables: a roster of who is present with which
  particulars and in which topic, the topics that exist and the linked nodes. The specification
  \<open>roster_do\<close> answers every operation of the hub on this abstract state; the hub refines it
  over any sequence of operations, in state and in answers. Messages, subscriptions and the seen-set
  do not show here, and neither does a failing store, whose error is passed on unchanged by
  \<^verbatim>\<open>Post\<close> and \<^verbatim>\<open>Private\<close>.
\<close>

subsection \<open>Runs and their refinement\<close>

fun trace :: "('c \<Rightarrow> 'o \<Rightarrow> 'c \<times> 'r) \<Rightarrow> 'c \<Rightarrow> 'o list \<Rightarrow> 'c \<times> 'r list" where
  "trace step c [] = (c, [])"
| "trace step c (x # xs) = (let (c, r) = step c x; (c, rs) = trace step c xs in (c, r # rs))"

locale refines =
  fixes abs :: "'c \<Rightarrow> 'a" and inv :: "'c \<Rightarrow> bool"
    and step :: "'c \<Rightarrow> 'o \<Rightarrow> 'c \<times> 'r" and spec :: "'a \<Rightarrow> 'o \<Rightarrow> 'a \<times> 'r"
  assumes keeps: "inv c \<Longrightarrow> inv (fst (step c x))"
    and sim: "inv c \<Longrightarrow> map_prod abs id (step c x) = spec (abs c) x"
begin

lemma trace_inv: "inv c \<Longrightarrow> inv (fst (trace step c xs))"
proof (induction xs arbitrary: c)
  case (Cons x xs)
  then show ?case using keeps by (simp add: Let_def split_def)
qed simp

lemma trace_refines: "inv c \<Longrightarrow> map_prod abs id (trace step c xs) = trace spec (abs c) xs"
proof (induction xs arbitrary: c)
  case (Cons x xs)
  from Cons.prems have "inv (fst (step c x))" by (rule keeps)
  note ih = Cons.IH [OF this]
  show ?case
    unfolding trace.simps sim [OF Cons.prems, symmetric] Let_def split_def fst_map_prod snd_map_prod ih [symmetric] by simp
qed simp

end

subsection \<open>The specification\<close>

record particulars =
  p_name :: string
  p_qth :: string
  p_flags :: user_flags
  p_origin :: origin
  p_topic :: string

record roster =
  ro_users :: "user_key \<rightharpoonup> particulars"
  ro_topics :: "string set"
  ro_nodes :: "string set"

definition new_roster :: roster where
  "new_roster = \<lparr>ro_users = Map.empty, ro_topics = {normTopicKey DefaultTopic}, ro_nodes = {}\<rparr>"

text \<open>Change the entry of a present user, or say that there is none.\<close>

definition amend :: "roster \<Rightarrow> user_key \<Rightarrow> (particulars \<Rightarrow> particulars) \<Rightarrow> roster \<times> hub_error option" where
  "amend R key f =
     (case ro_users R (canonKey key) of
        None \<Rightarrow> (R, Some ErrNoSuchUser)
      | Some p \<Rightarrow> (R\<lparr>ro_users := (ro_users R)(canonKey key \<mapsto> f p)\<rparr>, None))"

fun roster_do :: "roster \<Rightarrow> hub_op \<Rightarrow> roster \<times> hub_error option" where
  "roster_do R (OpJoin u) =
     (let call = normCall (u_call u); node = normCall (o_node (u_origin u));
          topic = normTopicKey (if u_topic u = '''' then DefaultTopic else u_topic u)
      in if call = '''' \<or> node = '''' then (R, Some ErrNoSuchUser)
         else (R\<lparr>ro_users := (ro_users R)(UserKey call node \<mapsto>
                  \<lparr>p_name = u_name u, p_qth = u_qth u, p_flags = u_flags u, p_origin = (u_origin u)\<lparr>o_node := node\<rparr>, p_topic = topic\<rparr>),
                ro_topics := insert topic (ro_topics R)\<rparr>, None))"
| "roster_do R (OpLeave key) = (R\<lparr>ro_users := (ro_users R)(canonKey key := None)\<rparr>, None)"
| "roster_do R (OpPost key txt) =
     (if clip txt = '''' then (R, Some ErrEmptyText)
      else if ro_users R (canonKey key) = None then (R, Some ErrNoSuchUser) else (R, None))"
| "roster_do R (OpPrivate key call txt) =
     (if clip txt = '''' then (R, Some ErrEmptyText)
      else if ro_users R (canonKey key) = None \<or> (\<forall>node. ro_users R (UserKey (normCall call) node) = None)
      then (R, Some ErrNoSuchUser) else (R, None))"
| "roster_do R (OpSetTopic key name) =
     (if normTopicKey name = '''' then (R, Some ErrNoSuchTopic)
      else case amend R key (\<lambda>p. p\<lparr>p_topic := normTopicKey name\<rparr>) of
             (R, None) \<Rightarrow> (R\<lparr>ro_topics := insert (normTopicKey name) (ro_topics R)\<rparr>, None)
           | (R, Some e) \<Rightarrow> (R, Some e))"
| "roster_do R (OpSetInfo key name qth) = amend R key (\<lambda>p. p\<lparr>p_name := name, p_qth := qth\<rparr>)"
| "roster_do R (OpSetFlags key flags) = amend R key (\<lambda>p. p\<lparr>p_flags := flags\<rparr>)"
| "roster_do R (OpLinkNode call _ _) =
     (if normCall call = '''' then (R, None) else (R\<lparr>ro_nodes := insert (normCall call) (ro_nodes R)\<rparr>, None))"
| "roster_do R (OpUnlinkNode call) =
     (if normCall call \<notin> ro_nodes R then (R, None)
      else (R\<lparr>ro_nodes := ro_nodes R - {normCall call},
              ro_users := (\<lambda>k. case ro_users R k of None \<Rightarrow> None
                | Some p \<Rightarrow> if normCall call \<in> {o_link (p_origin p), o_node (p_origin p)} then None else Some p)\<rparr>, None))"
| "roster_do R _ = (R, None)"

subsection \<open>The hub refines it\<close>

definition particulars_of :: "user \<Rightarrow> particulars" where
  "particulars_of u = \<lparr>p_name = u_name u, p_qth = u_qth u, p_flags = u_flags u, p_origin = u_origin u, p_topic = normTopicKey (u_topic u)\<rparr>"

definition roster_of :: "'s hub \<Rightarrow> roster" where
  "roster_of h = \<lparr>ro_users = (\<lambda>k. map_option particulars_of (map_of (h_users h) k)),
     ro_topics = dom (map_of (h_topics h)), ro_nodes = dom (map_of (h_nodes h))\<rparr>"

text \<open>What an operation answers, a failure of the store apart.\<close>

fun answer :: "hub_error option \<Rightarrow> hub_error option" where
  "answer (Some (StoreError _)) = None"
| "answer e = e"

definition hub_obs :: "'s hub \<Rightarrow> hub_op \<Rightarrow> 's hub \<times> hub_error option" where
  "hub_obs h x = map_prod id answer (hub_do h x)"

lemma roster_of_cong:
  "h_users h' = h_users h \<Longrightarrow> h_topics h' = h_topics h \<Longrightarrow> h_nodes h' = h_nodes h \<Longrightarrow> roster_of h' = roster_of h"
  by (simp add: roster_of_def)

lemma roster_of_emit [simp]: "roster_of (emit es h) = roster_of h" "roster_of (tick h) = roster_of h"
  by (rule roster_of_cong; simp)+

lemma roster_of_record [simp]: "roster_of (fst (record_and_emit h m ev)) = roster_of h"
  by (rule roster_of_cong) simp_all

lemma roster_of_setUser: "roster_of (setUser k u h) = (roster_of h)\<lparr>ro_users := (ro_users (roster_of h))(k \<mapsto> particulars_of u)\<rparr>"
  by (simp add: roster_of_def fun_eq_iff)

lemma record_obs [simp]:
  "map_prod roster_of id (map_prod id answer (map_prod id err_of (record_and_emit h m ev))) = (roster_of h, None)"
proof -
  have "answer (err_of (snd (record_and_emit h m ev))) = None" by (simp add: record_and_emit_def Let_def split: sum.split)
  then show ?thesis by (simp add: prod_eq_iff)
qed

lemma present_iff:
  "userPresentLocked h call \<longleftrightarrow> (\<exists>node. map_of (h_users h) (UserKey call node) \<noteq> None)"
proof -
  have "userPresentLocked h call \<longleftrightarrow> (\<exists>k \<in> dom (map_of (h_users h)). uk_call k = call)"
    by (force simp: userPresentLocked_def list_ex_iff dom_map_of_conv_image_fst)
  then show ?thesis by (metis domIff user_key.collapse user_key.sel(1))
qed

lemma sim_Join:
  assumes inv: "hub_inv h"
  shows "map_prod roster_of id (hub_obs h (OpJoin u)) = roster_do (roster_of h) (OpJoin u)"
proof (cases "normCall (u_call u) = '''' \<or> normCall (o_node (u_origin u)) = ''''")
  case False
  have t: "normTopicKey (u_topic (joined h u)) = normTopicKey (if u_topic u = '''' then DefaultTopic else u_topic u)"
    using normTopicKey_joined [OF hub_invD(1) [OF inv]] by (simp add: joining_def)
  have o: "u_origin (joined h u) = (u_origin u)\<lparr>o_node := normCall (o_node (u_origin u))\<rparr>" by (simp add: joined_def joining_def)
  obtain ks where "Hub_Join h u = (emit [UserJoined (joined h u)]
          ((setUser (User_Key (joined h u)) (joined h u) (tick (snd (ensureTopicLocked h (u_topic (joining h u))))))
             \<lparr>h_member := ks\<rparr>), Inr (joined h u))"
    using False by (auto elim: Join_accepted [OF inv])
  then show ?thesis
    using False t o
    by (simp add: hub_obs_def roster_of_def Let_def particulars_of_def ensureTopic_topics joining_def canonKey_def fun_eq_iff)
qed (auto simp: hub_obs_def Join_refused Let_def)

lemma sim_SetTopic:
  assumes inv: "hub_inv h"
  shows "map_prod roster_of id (hub_obs h (OpSetTopic key name)) = roster_do (roster_of h) (OpSetTopic key name)"
proof (cases "normTopicKey name = '''' \<or> map_of (h_users h) (canonKey key) = None")
  case True
  then show ?thesis
    by (cases "normTopicKey name = ''''") (simp_all add: hub_obs_def SetTopic_stays amend_def roster_of_def)
next
  case False
  then obtain u where n: "normTopicKey name \<noteq> ''''" and u: "map_of (h_users h) (canonKey key) = Some u" by auto
  show ?thesis
  proof (cases "normTopicKey (u_topic u) = normTopicKey name")
    case True
    have "user_ok h (canonKey key) u" using hub_invD(2) [OF inv] u by (simp add: users_ok_def)
    then have "normTopicKey name \<in> dom (map_of (h_topics h))" using True by (auto simp: user_ok_def)
    then show ?thesis
      using SetTopic_stays(3) [OF n u True] n u True
      by (auto simp: hub_obs_def amend_def roster_of_def particulars_of_def fun_eq_iff insert_absorb)
  next
    case False
    obtain ks canon where c: "normTopicKey canon = normTopicKey name"
      "Hub_SetTopic h key name = (emit [TopicChanged (u\<lparr>u_topic := canon\<rparr>) (u_topic u)]
          ((setUser (canonKey key) (u\<lparr>u_topic := canon\<rparr>)
             (snd (ensureTopicLocked (delMember (normTopicKey (u_topic u)) (canonKey key) h) name))) \<lparr>h_member := ks\<rparr>), Inr True)"
      by (rule SetTopic_moves [OF inv n u False]) blast
    then show ?thesis
      using n u by (simp add: hub_obs_def amend_def roster_of_def particulars_of_def ensureTopic_topics fun_eq_iff)
  qed
qed

lemma sim_amend:
  assumes "hub_inv h"
  shows "map_prod roster_of id (hub_obs h (OpSetInfo key name qth)) = roster_do (roster_of h) (OpSetInfo key name qth)"
    "map_prod roster_of id (hub_obs h (OpSetFlags key flags)) = roster_do (roster_of h) (OpSetFlags key flags)"
  by (cases "map_of (h_users h) (canonKey key)";
      auto simp: hub_obs_def Hub_SetInfo_def Hub_SetFlags_def Let_def amend_def roster_of_setUser;
      auto simp: roster_of_def particulars_of_def fun_eq_iff)+

lemma sim_Unlink:
  assumes inv: "hub_inv h"
  shows "map_prod roster_of id (hub_obs h (OpUnlinkNode call)) = roster_do (roster_of h) (OpUnlinkNode call)"
proof (cases "map_of (h_nodes h) (normCall call)")
  case None
  then show ?thesis by (auto simp: hub_obs_def Hub_UnlinkNode_def roster_of_def)
next
  case (Some n)
  have "map_of (h_nodes (fst (Hub_UnlinkNode h call))) = (map_of (h_nodes h))(normCall call := None)"
    "h_topics (fst (Hub_UnlinkNode h call)) = h_topics h"
    by (simp_all add: UnlinkNode_known [OF Some] fun_eq_iff)
  then show ?thesis
    using Some UnlinkNode_users [OF inv Some]
    by (auto simp: hub_obs_def roster_of_def particulars_of_def fun_eq_iff dom_def split: option.splits if_splits)
qed

lemma sim_rest:
  assumes inv: "hub_inv h"
  shows "map_prod roster_of id (hub_obs h (OpPost key txt)) = roster_do (roster_of h) (OpPost key txt)"
    "map_prod roster_of id (hub_obs h (OpPrivate key call txt)) = roster_do (roster_of h) (OpPrivate key call txt)"
    "map_prod roster_of id (hub_obs h (OpLeave key)) = roster_do (roster_of h) (OpLeave key)"
    "map_prod roster_of id (hub_obs h (OpLinkNode c a v)) = roster_do (roster_of h) (OpLinkNode c a v)"
proof -
  show "map_prod roster_of id (hub_obs h (OpPost key txt)) = roster_do (roster_of h) (OpPost key txt)"
    by (cases "map_of (h_users h) (canonKey key)")
      (simp_all add: hub_obs_def Post_eq roster_of_setUser, auto simp: roster_of_def particulars_of_def fun_eq_iff)
  show "map_prod roster_of id (hub_obs h (OpPrivate key call txt)) = roster_do (roster_of h) (OpPrivate key call txt)"
    by (auto simp: hub_obs_def Private_eq present_iff, auto simp: roster_of_def)
  show "map_prod roster_of id (hub_obs h (OpLeave key)) = roster_do (roster_of h) (OpLeave key)"
    by (auto simp: hub_obs_def Hub_Leave_def Let_def roster_of_def fun_eq_iff split: option.split)
  show "map_prod roster_of id (hub_obs h (OpLinkNode c a v)) = roster_do (roster_of h) (OpLinkNode c a v)"
    by (auto simp: hub_obs_def Hub_LinkNode_def Let_def roster_of_def split: option.split)
qed

interpretation hub_roster: refines roster_of hub_inv hub_obs roster_do
proof
  fix h :: "'s hub" and x
  assume inv: "hub_inv h"
  then show "hub_inv (fst (hub_obs h x))" by (simp add: hub_obs_def hub_do_inv)
  have quiet: "roster_of (snd (Hub_Seen h i)) = roster_of h" "roster_of (snd (Hub_Subscribe h)) = roster_of h"
    "roster_of (Hub_cancel h j) = roster_of h" "roster_of (snd (Hub_recv h j)) = roster_of h" for i j
    by (rule roster_of_cong; simp add: Hub_Subscribe_def Hub_cancel_def Hub_recv_def Let_def split: option.split list.split)+
  show "map_prod roster_of id (hub_obs h x) = roster_do (roster_of h) x"
    by (cases x) (simp_all only: sim_Join sim_SetTopic sim_amend sim_Unlink sim_rest inv, simp_all add: hub_obs_def quiet)
qed

text \<open>The listings name the keys of the tables.\<close>

lemma keyed_image:
  assumes "gomap m" "\<And>k v. map_of m k = Some v \<Longrightarrow> f v = k"
  shows "(\<lambda>p. f (snd p)) ` set m = dom (map_of m)"
  unfolding dom_map_of_conv_image_fst using assms by (intro image_cong) (auto simp: gomap_def)

lemma listed_keys:
  assumes "hub_inv h"
  shows "User_Key ` set (Hub_Users h) = dom (map_of (h_users h))" "n_call ` set (Hub_Nodes h) = dom (map_of (h_nodes h))"
    "(normTopicKey \<circ> fst) ` set (Hub_Topics h) = dom (map_of (h_topics h))"
proof -
  show "User_Key ` set (Hub_Users h) = dom (map_of (h_users h))"
    using keyed_image [of "h_users h" User_Key] hub_invD(2) [OF assms] by (simp add: Hub_Users_def users_ok_def user_ok_def image_image)
  show "n_call ` set (Hub_Nodes h) = dom (map_of (h_nodes h))"
    using keyed_image [of "h_nodes h" n_call] hub_invD(3) [OF assms] by (simp add: Hub_Nodes_def nodes_ok_def image_image)
  show "(normTopicKey \<circ> fst) ` set (Hub_Topics h) = dom (map_of (h_topics h))"
    using keyed_image [of "h_topics h" normTopicKey] hub_invD(1) [OF assms]
    by (simp add: Hub_Topics_def topics_ok_def image_image split_def)
qed

text \<open>
  C4: the hub keeps a roster. Over any sequence of operations from a new hub, whatever its store
  does, who is present, with which name, QTH, flags, home and topic, which topics exist and which
  nodes are linked is exactly what the specification says, and so is every answer that is not a
  failure of the store; the listings of users, nodes and topics are those of the roster.
\<close>

theorem hub_refines_roster:
  assumes h: "(h, errs) = trace hub_obs (NewHub ourNode vt st hash clk) ops" and R: "(R, errs') = trace roster_do new_roster ops"
  shows "roster_of h = R \<and> errs = errs'
    \<and> (\<forall>key. map_option particulars_of (Hub_User h key) = ro_users R (canonKey key))
    \<and> User_Key ` set (Hub_Users h) = dom (ro_users R) \<and> n_call ` set (Hub_Nodes h) = ro_nodes R
    \<and> (normTopicKey \<circ> fst) ` set (Hub_Topics h) = ro_topics R"
proof -
  let ?new = "NewHub ourNode vt st hash clk"
  have new: "roster_of ?new = new_roster" by (auto simp: roster_of_def new_roster_def NewHub_def ensureTopic_topics)
  have inv: "hub_inv h" using hub_roster.trace_inv [of ?new ops, OF NewHub_inv] by (simp add: h [symmetric])
  have "map_prod roster_of id (h, errs) = (R, errs')"
    using hub_roster.trace_refines [of ?new ops, OF NewHub_inv] unfolding h [symmetric] new R [symmetric] .
  then have R': "roster_of h = R" "errs = errs'" by simp_all
  have "dom (ro_users (roster_of h)) = dom (map_of (h_users h))" by (simp add: roster_of_def dom_def)
  moreover have "map_option particulars_of (Hub_User h key) = ro_users (roster_of h) (canonKey key)" for key
    by (simp add: roster_of_def Hub_User_def)
  moreover have "ro_nodes (roster_of h) = dom (map_of (h_nodes h))" "ro_topics (roster_of h) = dom (map_of (h_topics h))"
    by (simp_all add: roster_of_def)
  ultimately show ?thesis unfolding R'(1) [symmetric] using R'(2) listed_keys [OF inv] by simp
qed

theorem hub_refines_roster_witness:
  "\<exists>h errs. (h, errs) = trace hub_obs (NewHub ''M0LTE-4'' MemStore NewMemStore id int)
       [OpJoin (demo_user ''g8pzt'' ''m0lte-4'' '''' ''lounge''), OpSetTopic (UserKey ''G8PZT'' ''M0LTE-4'') ''DX'', OpPost (UserKey ''X'' ''Y'') ''hi'']
   \<and> map_option p_topic (ro_users (roster_of h) (UserKey ''G8PZT'' ''M0LTE-4'')) = Some ''dx''
   \<and> ''lounge'' \<in> ro_topics (roster_of h) \<and> errs = [None, None, Some ErrNoSuchUser]"
proof -
  let ?ops = "[OpJoin (demo_user ''g8pzt'' ''m0lte-4'' '''' ''lounge''), OpSetTopic (UserKey ''G8PZT'' ''M0LTE-4'') ''DX'', OpPost (UserKey ''X'' ''Y'') ''hi'']"
  obtain h errs R errs' where h: "(h, errs) = trace hub_obs (NewHub ''M0LTE-4'' MemStore NewMemStore id int) ?ops"
    and R: "(R, errs') = trace roster_do new_roster ?ops" by (metis surj_pair)
  have n: "normCall ''g8pzt'' = ''G8PZT''" "normCall ''m0lte-4'' = ''M0LTE-4''" "normTopicKey ''lounge'' = ''lounge''" "normTopicKey ''DX'' = ''dx''"
    "canonKey (UserKey ''G8PZT'' ''M0LTE-4'') = UserKey ''G8PZT'' ''M0LTE-4''" "canonKey (UserKey ''X'' ''Y'') = UserKey ''X'' ''Y''" "clip ''hi'' \<noteq> ''''"
    by code_simp+
  have "map_option p_topic (ro_users R (UserKey ''G8PZT'' ''M0LTE-4'')) = Some ''dx''" "''lounge'' \<in> ro_topics R" "errs' = [None, None, Some ErrNoSuchUser]"
    using R by (simp_all add: demo_user_def mk_user_def new_roster_def amend_def n Let_def)
  then show ?thesis using hub_refines_roster [OF h R] h by blast
qed

end
