(* ===== verification/Chat_Hub_Conc.thy ===== *)
theory Chat_Hub_Conc
  imports Chat_Hub_Spec "HOL-Library.Multiset"
begin

text \<open>
  The hub under concurrent callers. Each operation of \<^verbatim>\<open>chat/hub.go\<close> changes the tables in one
  section under \<^verbatim>\<open>h.mu\<close> and sends its events after releasing it, under
  \<^verbatim>\<open>subMu\<close>; \<^verbatim>\<open>Post\<close> and \<^verbatim>\<open>Private\<close> also record the id
  and save the message in between, each under a lock of its own. Here an operation is its locked
  section, with what it computes from local values and the clock around it, which leaves a task, and
  the steps of its task; the steps of all callers interleave in any order.

  Run alone, an operation is the one of \<open>Chat_Hub\<close>. In every interleaving the invariant of
  the tables holds, no nil map is written and every announced event is sent exactly once; but events
  of one user may overtake each other.
\<close>

subsection \<open>The locked sections\<close>

datatype hub_task = Emitting "event list" | Recording message | Saving message

fun msg_event :: "message \<Rightarrow> event" where
  "msg_event m = (case m_kind m of KindTopic \<Rightarrow> TopicMessage m | KindPrivate \<Rightarrow> PrivateMessage m)"

definition Join_locked :: "'s hub \<Rightarrow> user \<Rightarrow> 's hub \<times> hub_task list \<times> hub_error option" where
  "Join_locked h u0 =
     (let u = u0\<lparr>u_call := normCall (u_call u0),
                 u_origin := (u_origin u0)\<lparr>o_node := normCall (o_node (u_origin u0))\<rparr>\<rparr>
      in if u_call u = '''' \<or> o_node (u_origin u) = '''' then (h, [], Some ErrNoSuchUser)
         else
           let t = now h;
               h = tick h;
               u = (if u_topic u = '''' then u\<lparr>u_topic := DefaultTopic\<rparr> else u);
               u = u\<lparr>u_joined := t, u_lastActive := t\<rparr>;
               (canon, h) = ensureTopicLocked h (u_topic u);
               u = u\<lparr>u_topic := canon\<rparr>;
               h = setUser (User_Key u) u h
           in case map_of (h_member h) (normTopicKey canon) of
                None \<Rightarrow> (h, [], Some NilMapPanic)
              | Some ks \<Rightarrow>
                  (h\<lparr>h_member := AList.update (normTopicKey canon) (List.insert (User_Key u) ks) (h_member h)\<rparr>,
                   [Emitting [UserJoined u]], None))"

definition Leave_locked :: "'s hub \<Rightarrow> user_key \<Rightarrow> 's hub \<times> hub_task list \<times> hub_error option" where
  "Leave_locked h key0 =
     (let key = canonKey key0
      in case map_of (h_users h) key of
           None \<Rightarrow> (h, [], None)
         | Some u \<Rightarrow>
             (delMember (normTopicKey (u_topic u)) key (h\<lparr>h_users := AList.delete key (h_users h)\<rparr>),
              [Emitting [UserLeft u]], None))"

definition Post_locked :: "'s hub \<Rightarrow> user_key \<Rightarrow> string \<Rightarrow> 's hub \<times> hub_task list \<times> hub_error option" where
  "Post_locked h key0 text0 =
     (let text = clip text0
      in if text = '''' then (h, [], Some ErrEmptyText)
         else
           let key = canonKey key0
           in case map_of (h_users h) key of
                None \<Rightarrow> (h, [], Some ErrNoSuchUser)
              | Some u \<Rightarrow>
                  let topic = u_topic u;
                      h1 = tick (setUser key (u\<lparr>u_lastActive := now h\<rparr>) h);
                      m = \<lparr>m_id = SynthID (h_hash h) (uk_node key) (uk_call key) KindTopic topic text,
                           m_originNode = uk_node key, m_fromCall = uk_call key, m_kind = KindTopic,
                           m_topic = topic, m_toCall = '''', m_time = now h1, m_text = text\<rparr>
                  in (tick h1, [Recording m], None))"

definition Private_locked :: "'s hub \<Rightarrow> user_key \<Rightarrow> string \<Rightarrow> string \<Rightarrow> 's hub \<times> hub_task list \<times> hub_error option" where
  "Private_locked h from0 toCall0 text0 =
     (let text = clip text0
      in if text = '''' then (h, [], Some ErrEmptyText)
         else
           let from = canonKey from0;
               toCall = normCall toCall0
           in if map_of (h_users h) from = None then (h, [], Some ErrNoSuchUser)
              else if \<not> userPresentLocked h toCall then (h, [], Some ErrNoSuchUser)
              else
                let m = \<lparr>m_id = SynthID (h_hash h) (uk_node from) (uk_call from) KindPrivate toCall text,
                         m_originNode = uk_node from, m_fromCall = uk_call from, m_kind = KindPrivate,
                         m_topic = '''', m_toCall = toCall, m_time = now h, m_text = text\<rparr>
                in (tick h, [Recording m], None))"

definition SetTopic_locked :: "'s hub \<Rightarrow> user_key \<Rightarrow> string \<Rightarrow> 's hub \<times> hub_task list \<times> hub_error option" where
  "SetTopic_locked h key0 name =
     (let key = canonKey key0
      in if normTopicKey name = '''' then (h, [], Some ErrNoSuchTopic)
         else case map_of (h_users h) key of
           None \<Rightarrow> (h, [], Some ErrNoSuchUser)
         | Some u \<Rightarrow>
             if normTopicKey (u_topic u) = normTopicKey name then (h, [], None)
             else
               let from = u_topic u;
                   h = delMember (normTopicKey from) key h;
                   (canon, h) = ensureTopicLocked h name;
                   u = u\<lparr>u_topic := canon\<rparr>;
                   h = setUser key u h
               in case map_of (h_member h) (normTopicKey canon) of
                    None \<Rightarrow> (h, [], Some NilMapPanic)
                  | Some ks \<Rightarrow>
                      (h\<lparr>h_member := AList.update (normTopicKey canon) (List.insert key ks) (h_member h)\<rparr>,
                       [Emitting [TopicChanged u from]], None))"

definition SetInfo_locked :: "'s hub \<Rightarrow> user_key \<Rightarrow> string \<Rightarrow> string \<Rightarrow> 's hub \<times> hub_task list \<times> hub_error option" where
  "SetInfo_locked h key0 name qth =
     (let key = canonKey key0
      in case map_of (h_users h) key of
           None \<Rightarrow> (h, [], Some ErrNoSuchUser)
         | Some u \<Rightarrow>
             if u_name u = name \<and> u_qth u = qth then (h, [], None)
             else let u = u\<lparr>u_name := name, u_qth := qth\<rparr>
                  in (setUser key u h, [Emitting [UserInfoChanged u]], None))"

definition SetFlags_locked :: "'s hub \<Rightarrow> user_key \<Rightarrow> user_flags \<Rightarrow> 's hub \<times> hub_task list \<times> hub_error option" where
  "SetFlags_locked h key0 flags =
     (let key = canonKey key0
      in case map_of (h_users h) key of
           None \<Rightarrow> (h, [], Some ErrNoSuchUser)
         | Some u \<Rightarrow>
             if u_flags u = flags then (h, [], None)
             else let u = u\<lparr>u_flags := flags\<rparr>
                  in (setUser key u h, [Emitting [UserInfoChanged u]], None))"

definition LinkNode_locked :: "'s hub \<Rightarrow> string \<Rightarrow> string \<Rightarrow> string \<Rightarrow> 's hub \<times> hub_task list \<times> hub_error option" where
  "LinkNode_locked h call0 alias version =
     (let call = normCall call0
      in if call = '''' then (h, [], None)
         else
           let t = now h; h = tick h
           in case map_of (h_nodes h) call of
                Some n \<Rightarrow>
                  let n = n\<lparr>n_linked := t\<rparr>;
                      n = (if version \<noteq> '''' then n\<lparr>n_version := version\<rparr> else n)
                  in (h\<lparr>h_nodes := AList.update call n (h_nodes h)\<rparr>, [], None)
              | None \<Rightarrow>
                  let n = \<lparr>n_call = call, n_alias = alias, n_version = version, n_linked = t\<rparr>
                  in (h\<lparr>h_nodes := AList.update call n (h_nodes h)\<rparr>, [Emitting [NodeLinked n]], None))"

definition UnlinkNode_locked :: "'s hub \<Rightarrow> string \<Rightarrow> 's hub \<times> hub_task list \<times> hub_error option" where
  "UnlinkNode_locked h call0 =
     (let call = normCall call0
      in case map_of (h_nodes h) call of
           None \<Rightarrow> (h, [], None)
         | Some n \<Rightarrow>
             let h1 = h\<lparr>h_nodes := AList.delete call (h_nodes h)\<rparr>;
                 left = filter (\<lambda>(_, u). learnedVia call u) (h_users h1);
                 h2 = fold dropUser left h1
             in (h2, [Emitting (map (\<lambda>(_, u). UserLeft u) left @ [NodeUnlinked n])], None))"

text \<open>
  The first section of an operation. \<^verbatim>\<open>Seen\<close>, \<^verbatim>\<open>Subscribe\<close>, the
  cancel function and a receive are one section each.
\<close>

fun locked :: "'s hub \<Rightarrow> hub_op \<Rightarrow> 's hub \<times> hub_task list \<times> hub_error option" where
  "locked h (OpJoin u) = Join_locked h u"
| "locked h (OpLeave k) = Leave_locked h k"
| "locked h (OpPost k t) = Post_locked h k t"
| "locked h (OpPrivate k c t) = Private_locked h k c t"
| "locked h (OpSetTopic k n) = SetTopic_locked h k n"
| "locked h (OpSetInfo k n q) = SetInfo_locked h k n q"
| "locked h (OpSetFlags k f) = SetFlags_locked h k f"
| "locked h (OpLinkNode c a v) = LinkNode_locked h c a v"
| "locked h (OpUnlinkNode c) = UnlinkNode_locked h c"
| "locked h x = (fst (hub_do h x), [], None)"

subsection \<open>The steps of a task\<close>

fun task_step :: "'s hub \<Rightarrow> hub_task \<Rightarrow> 's hub \<times> hub_task list \<times> hub_error option" where
  "task_step h (Emitting es) = (emit es h, [], None)"
| "task_step h (Recording m) = (snd (Hub_Seen h (m_id m)), [Saving m], None)"
| "task_step h (Saving m) =
     (case sv_SaveMessage (h_vt h) (h_store h) m of
        Inl e \<Rightarrow> (h, [], Some (StoreError e))
      | Inr st \<Rightarrow> (h\<lparr>h_store := st\<rparr>, [Emitting [msg_event m]], None))"

fun rank :: "hub_task \<Rightarrow> nat" where
  "rank (Emitting _) = 1"
| "rank (Saving _) = 2"
| "rank (Recording _) = 3"

lemma task_step_rank: "sum_list (map rank (fst (snd (task_step h t)))) < rank t"
  by (cases t) (simp_all split: sum.split)

text \<open>A caller that is not interrupted.\<close>

function finish :: "'s hub \<Rightarrow> hub_task list \<Rightarrow> hub_error option \<Rightarrow> 's hub \<times> hub_error option" where
  "finish h [] e = (h, e)"
| "finish h (t # ts) e =
     (let (h, ts', e') = task_step h t in finish h (ts' @ ts) (case e' of None \<Rightarrow> e | Some x \<Rightarrow> Some x))"
  by pat_completeness auto
termination
  by (relation "measure (\<lambda>(h, ts, e). sum_list (map rank ts))")
    (auto, metis fst_conv snd_conv task_step_rank)

text \<open>Alone, an operation is the one of the sequential hub.\<close>

lemma finish_locked: "(case locked h x of (h', ts, e) \<Rightarrow> finish h' ts e) = hub_do h x"
proof (cases x)
  case (OpJoin u)
  then show ?thesis by (simp add: Join_locked_def Hub_Join_def Let_def split_def split: option.split)
next
  case (OpLeave k)
  then show ?thesis by (simp add: Leave_locked_def Hub_Leave_def Let_def split: option.split)
next
  case (OpPost k t)
  then show ?thesis
    by (simp add: Post_locked_def Hub_Post_def record_and_emit_def Let_def split: option.split sum.split)
next
  case (OpPrivate k c t)
  then show ?thesis
    by (simp add: Private_locked_def Hub_Private_def record_and_emit_def Let_def split: sum.split)
next
  case (OpSetTopic k n)
  then show ?thesis by (simp add: SetTopic_locked_def Hub_SetTopic_def Let_def split_def split: option.split)
next
  case (OpSetInfo k n q)
  then show ?thesis by (simp add: SetInfo_locked_def Hub_SetInfo_def Let_def split: option.split)
next
  case (OpSetFlags k f)
  then show ?thesis by (simp add: SetFlags_locked_def Hub_SetFlags_def Let_def split: option.split)
next
  case (OpLinkNode c a v)
  then show ?thesis by (simp add: LinkNode_locked_def Hub_LinkNode_def Let_def split: option.split)
next
  case (OpUnlinkNode c)
  then show ?thesis by (simp add: UnlinkNode_locked_def Hub_UnlinkNode_def Let_def split: option.split)
qed simp_all

subsection \<open>Runs of many callers\<close>

definition announced :: "hub_task list \<Rightarrow> event list" where
  "announced ts = concat (map (\<lambda>t. case t of Emitting es \<Rightarrow> es | _ \<Rightarrow> []) ts)"

text \<open>
  Calls satisfying \<open>P\<close> and steps of tasks, in any order. The run collects the events its
  steps decide to send.
\<close>

inductive conc_run ::
    "(hub_op \<Rightarrow> bool) \<Rightarrow> 's hub \<times> hub_task multiset \<Rightarrow> event list \<Rightarrow> 's hub \<times> hub_task multiset \<Rightarrow> bool" for P s where
  idle: "conc_run P s [] s"
| call: "conc_run P s evs (h, T) \<Longrightarrow> P x \<Longrightarrow> locked h x = (h', ts, e) \<Longrightarrow> conc_run P s (evs @ announced ts) (h', T + mset ts)"
| task: "conc_run P s evs (h, T) \<Longrightarrow> t \<in># T \<Longrightarrow> task_step h t = (h', ts, e) \<Longrightarrow>
    conc_run P s (evs @ announced ts) (h', T - {#t#} + mset ts)"

text \<open>What a locked section keeps.\<close>

definition subs_op :: "hub_op \<Rightarrow> bool" where
  "subs_op x \<longleftrightarrow> x = OpSubscribe \<or> (\<exists>i. x = OpCancel i \<or> x = OpRecv i)"

lemmas locked_defs = Join_locked_def Leave_locked_def Post_locked_def Private_locked_def SetTopic_locked_def SetInfo_locked_def
  SetFlags_locked_def LinkNode_locked_def UnlinkNode_locked_def Let_def split_def

lemma locked_subs: "\<not> subs_op x \<Longrightarrow> h_subs (fst (locked h x)) = h_subs h \<and> h_nextSub (fst (locked h x)) = h_nextSub h"
  by (cases x) (auto simp: subs_op_def locked_defs split: option.split)

lemma locked_tasks:
  "(\<exists>es. fst (snd (locked h x)) = [Emitting es] \<and> \<not> subs_op x)
   \<or> (\<exists>m. fst (snd (locked h x)) = [Recording m] \<and> (\<exists>k c t. x = OpPost k t \<or> x = OpPrivate k c t))
   \<or> fst (snd (locked h x)) = []"
  by (cases x) (auto simp: subs_op_def locked_defs split: option.split)

lemma hub_inv_unemit: "hub_inv (emit es h') \<Longrightarrow> hub_inv h \<Longrightarrow> h_subs h' = h_subs h \<Longrightarrow> h_nextSub h' = h_nextSub h \<Longrightarrow> hub_inv h'"
  using subs_ok_cong [of h' h] by (simp add: hub_inv_def [of h] hub_inv_def [of h'])

lemma hub_inv_locked:
  assumes inv: "hub_inv h"
  shows "hub_inv (fst (locked h x))"
proof -
  obtain h' ts e where l: "locked h x = (h', ts, e)" by (cases "locked h x")
  have d: "finish h' ts e = hub_do h x" using finish_locked [of h x] by (simp add: l)
  have i: "hub_inv (fst (finish h' ts e))" unfolding d using inv by (rule hub_do_inv)
  consider (emit) es where "ts = [Emitting es]" "\<not> subs_op x"
    | (rec) m k c t where "ts = [Recording m]" "x = OpPost k t \<or> x = OpPrivate k c t" | (none) "ts = []"
    using locked_tasks [of h x] by (force simp: l)
  then have "hub_inv h'"
  proof cases
    case emit
    then show ?thesis using i locked_subs [of x h] hub_inv_unemit [OF _ inv, of es h'] by (simp add: l)
  next
    case rec
    have "hub_inv (setUser (canonKey k) (u\<lparr>u_lastActive := t\<rparr>) h)" if "map_of (h_users h) (canonKey k) = Some u" for u t
      using inv that by (rule hub_inv_modify) (simp_all add: User_Key_def)
    then show ?thesis using rec l inv by (auto simp: Post_locked_def Private_locked_def Let_def split: option.splits if_splits)
  next
    case none
    then show ?thesis using i by simp
  qed
  then show ?thesis by (simp add: l)
qed

lemma hub_inv_task: "hub_inv h \<Longrightarrow> hub_inv (fst (task_step h t))"
  by (cases t) (simp_all add: hub_inv_Seen hub_inv_emitI del: hub_inv_emit split: sum.split)

lemma conc_run_inv: "conc_run P s evs s' \<Longrightarrow> hub_inv (fst s) \<Longrightarrow> hub_inv (fst s')"
proof (induction rule: conc_run.induct)
  case (call evs h T x h' ts e)
  then show ?case using hub_inv_locked [of h x] by simp
next
  case (task evs h T t h' ts e)
  then show ?case using hub_inv_task [of h t] by simp
qed

subsection \<open>Every event is sent once\<close>

fun pending :: "hub_task \<Rightarrow> event multiset" where
  "pending (Emitting es) = mset es"
| "pending _ = {#}"

lemma mset_announced: "mset (announced ts) = sum_list (map pending ts)"
  by (induction ts) (auto simp: announced_def split: hub_task.split)

lemma pending_mset: "\<Sum>\<^sub># (image_mset pending (mset ts)) = mset (announced ts)"
  by (simp add: mset_announced flip: sum_mset_sum_list mset_map)

lemma task_pending:
  assumes "map_of (h_subs h) i = Some ch" "length ch + size (pending t) \<le> subBuffer"
  shows "\<exists>es. map_of (h_subs (fst (task_step h t))) i = Some (ch @ es) \<and> mset es = pending t"
  using assms by (cases t) (auto simp: emit_subs fold_offer_fits split: sum.split)

lemma call_subs:
  assumes "hub_inv h" "map_of (h_subs h) i = Some ch" "x \<noteq> OpCancel i" "x \<noteq> OpRecv i"
  shows "map_of (h_subs (fst (locked h x))) i = Some ch"
proof (cases "subs_op x")
  case True
  have "i < h_nextSub h" using hub_invD(4) [OF assms(1)] assms(2) by (auto simp: subs_ok_def)
  then show ?thesis
    using True assms
    by (auto simp: subs_op_def Hub_Subscribe_def Hub_cancel_def Hub_recv_def Let_def delete_conv update_conv' split: option.splits list.splits if_splits)
qed (use locked_subs [of x h] assms in simp)

lemma conc_run_delivers:
  assumes "conc_run (\<lambda>x. x \<noteq> OpCancel i \<and> x \<noteq> OpRecv i) (h0, {#}) evs s" "hub_inv h0" "map_of (h_subs h0) i = Some ch"
    "length ch + length evs \<le> subBuffer"
  shows "\<exists>es. map_of (h_subs (fst s)) i = Some (ch @ es) \<and> mset es + \<Sum>\<^sub># (image_mset pending (snd s)) = mset evs"
  using assms(1,4)
proof (induction rule: conc_run.induct)
  case idle
  then show ?case using assms(3) by simp
next
  case (call evs h T x h' ts e)
  then obtain es where es: "map_of (h_subs h) i = Some (ch @ es)" "mset es + \<Sum>\<^sub># (image_mset pending T) = mset evs" by auto
  have "hub_inv h" using conc_run_inv [OF call.hyps(1)] assms(2) by simp
  then have "map_of (h_subs h') i = Some (ch @ es)" using call_subs [of h i "ch @ es" x] es(1) call.hyps(2,3) by simp
  then show ?case using es(2) by (auto simp: pending_mset)
next
  case (task evs h T t h' ts e)
  then obtain es where es: "map_of (h_subs h) i = Some (ch @ es)" "mset es + \<Sum>\<^sub># (image_mset pending T) = mset evs" by auto
  obtain T' where T: "T = add_mset t T'" using multi_member_split [OF task.hyps(2)] by blast
  have "size (mset es + \<Sum>\<^sub># (image_mset pending T)) = length evs" by (simp add: es(2))
  then have "length (ch @ es) + size (pending t) \<le> subBuffer" using task.prems by (simp add: T)
  from task_pending [OF es(1) this] obtain es' where "map_of (h_subs h') i = Some (ch @ es @ es')" "mset es' = pending t"
    using task.hyps(3) by auto
  then show ?case using es(2) by (intro exI [of _ "es @ es'"]) (auto simp: T pending_mset)
qed

text \<open>
  C6: the hub under concurrent callers. An operation that is not interrupted is the sequential one.
  In every interleaving of the sections and tasks of any calls, the invariant of the tables holds and
  no locked section writes to a nil map; and once every task is done, a subscriber that stayed
  subscribed, received nothing and had room has each event that was decided on exactly once after what
  it had before, and nothing else.
\<close>

theorem hub_concurrent_safe:
  assumes "hub_inv h0"
  shows "(case locked h0 x of (h', ts, e) \<Rightarrow> finish h' ts e) = hub_do h0 x
    \<and> (\<forall>P evs h T y. conc_run P (h0, {#}) evs (h, T) \<longrightarrow> hub_inv h \<and> snd (snd (locked h y)) \<noteq> Some NilMapPanic)
    \<and> (\<forall>i ch evs h. conc_run (\<lambda>x. x \<noteq> OpCancel i \<and> x \<noteq> OpRecv i) (h0, {#}) evs (h, {#}) \<longrightarrow> map_of (h_subs h0) i = Some ch \<longrightarrow>
         length ch + length evs \<le> subBuffer \<longrightarrow> (\<exists>es. map_of (h_subs h) i = Some (ch @ es) \<and> mset es = mset evs))"
proof (intro conjI allI impI)
  show "(case locked h0 x of (h', ts, e) \<Rightarrow> finish h' ts e) = hub_do h0 x" by (rule finish_locked)
  fix P evs h T y
  assume "conc_run P (h0, {#}) evs (h, T)"
  from conc_run_inv [OF this] assms show inv: "hub_inv h" by simp
  obtain h' ts e where l: "locked h y = (h', ts, e)" by (cases "locked h y")
  have "snd (finish h' ts e) = snd (hub_do h y)" using finish_locked [of h y] by (simp add: l)
  moreover have "e = Some NilMapPanic \<Longrightarrow> ts = []" using l by (cases y) (auto simp: locked_defs split: option.splits if_splits)
  ultimately show "snd (snd (locked h y)) \<noteq> Some NilMapPanic" using hub_do_no_panic [OF inv, of y] by (auto simp: l)
next
  fix i ch evs h
  assume "conc_run (\<lambda>x. x \<noteq> OpCancel i \<and> x \<noteq> OpRecv i) (h0, {#}) evs (h, {#})" "map_of (h_subs h0) i = Some ch" "length ch + length evs \<le> subBuffer"
  from conc_run_delivers [OF this(1) assms this(2,3)] show "\<exists>es. map_of (h_subs h) i = Some (ch @ es) \<and> mset es = mset evs" by simp
qed

subsection \<open>Events of one user may overtake each other\<close>

lemma Join_locked_accepted:
  assumes inv: "hub_inv h" and c: "normCall (u_call u) \<noteq> ''''" "normCall (o_node (u_origin u)) \<noteq> ''''"
  obtains h' where "Join_locked h u = (h', [Emitting [UserJoined (joined h u)]], None)" "h_subs h' = h_subs h"
    "map_of (h_users h') (User_Key (joined h u)) = Some (joined h u)"
proof -
  obtain h' ts e where l: "Join_locked h u = (h', ts, e)" by (cases "Join_locked h u")
  have f: "finish h' ts e = hub_do h (OpJoin u)" using finish_locked [of h "OpJoin u"] by (simp add: l)
  obtain h'' where j: "Hub_Join h u = (emit [UserJoined (joined h u)] h'', Inr (joined h u))"
    "map_of (h_users h'') (User_Key (joined h u)) = Some (joined h u)"
    by (rule Join_accepted [OF inv c]) (auto simp: that)
  have ts: "ts = [Emitting [UserJoined v]] \<and> e = None \<or> ts = [] \<and> e \<noteq> None"
    if "v = (joining h u)\<lparr>u_topic := fst (ensureTopicLocked (tick h) (u_topic (joining h u)))\<rparr>" for v
    using l that c by (auto simp: Join_locked_def joining_def Let_def split_def split: option.splits if_splits)
  have "ts = [Emitting [UserJoined (joined h u)]]" "e = None"
    using ts [OF refl] f j by (auto simp: joined_def)
  moreover have "h_subs h' = h_subs h" using locked_subs [of "OpJoin u" h] l by (simp add: subs_op_def)
  moreover have "h_users (emit [UserJoined (joined h u)] h') = h_users (emit [UserJoined (joined h u)] h'')"
    using f j calculation(1,2) by simp
  ultimately show thesis using that [of h'] l j(2) by simp
qed

text \<open>
  A join and a leave of the same identity that overlap: the join changes the tables, then the leave
  does, and the event of the leave is sent before that of the join. All calls are done, the user is
  absent, and the last event every subscriber with room has of the user is that it joined; the router
  among them tells the links so.
\<close>

theorem join_overtaken_by_leave:
  assumes inv: "hub_inv h" and c: "normCall (u_call u) \<noteq> ''''" "normCall (o_node (u_origin u)) \<noteq> ''''"
    and ch: "map_of (h_subs h) i = Some ch" "length ch + 2 \<le> subBuffer"
  shows "\<exists>h' v. conc_run (\<lambda>x. x \<in> {OpJoin u, OpLeave (UserKey (u_call u) (o_node (u_origin u)))}) (h, {#}) [UserJoined v, UserLeft v] (h', {#})
    \<and> Hub_User h' (UserKey (u_call u) (o_node (u_origin u))) = None
    \<and> map_of (h_subs h') i = Some (ch @ [UserLeft v, UserJoined v])"
proof -
  let ?k = "UserKey (u_call u) (o_node (u_origin u))" and ?v = "joined h u"
  let ?P = "\<lambda>x. x \<in> {OpJoin u, OpLeave ?k}"
  have key: "User_Key ?v = canonKey ?k" by simp
  obtain h1 where h1: "Join_locked h u = (h1, [Emitting [UserJoined ?v]], None)" "h_subs h1 = h_subs h"
    "map_of (h_users h1) (canonKey ?k) = Some ?v" using Join_locked_accepted [OF inv c] unfolding key by blast
  define h2 where "h2 = fst (Leave_locked h1 ?k)"
  have l: "Leave_locked h1 ?k = (h2, [Emitting [UserLeft ?v]], None)" using h1(3) by (simp add: Leave_locked_def h2_def Let_def)
  have h2: "h_subs h2 = h_subs h" "Hub_User h2 ?k = None"
    using h1(2,3) by (simp_all add: h2_def Leave_locked_def Hub_User_def Let_def)
  have "conc_run ?P (h, {#}) ([] @ announced [Emitting [UserJoined ?v]]) (h1, {#} + mset [Emitting [UserJoined ?v]])"
    by (rule call [OF idle, of _ "OpJoin u"]) (simp_all add: h1(1))
  from call [OF this, of "OpLeave ?k"] l
  have r: "conc_run ?P (h, {#}) [UserJoined ?v, UserLeft ?v] (h2, {#Emitting [UserJoined ?v], Emitting [UserLeft ?v]#})"
    by (simp add: announced_def add_mset_commute)
  from task [OF r, of "Emitting [UserLeft ?v]"]
  have r: "conc_run ?P (h, {#}) [UserJoined ?v, UserLeft ?v] (emit [UserLeft ?v] h2, {#Emitting [UserJoined ?v]#})"
    by (simp add: announced_def)
  from task [OF r, of "Emitting [UserJoined ?v]"]
  have "conc_run ?P (h, {#}) [UserJoined ?v, UserLeft ?v] (emit [UserJoined ?v] (emit [UserLeft ?v] h2), {#})"
    by (simp add: announced_def)
  moreover have "map_of (h_subs (emit [UserJoined ?v] (emit [UserLeft ?v] h2))) i = Some (ch @ [UserLeft ?v, UserJoined ?v])"
    using ch by (simp add: emit_subs h2(1) offer_def)
  moreover have "Hub_User (emit [UserJoined ?v] (emit [UserLeft ?v] h2)) ?k = None" using h2(2) by (simp add: Hub_User_def)
  ultimately show ?thesis by blast
qed

definition race_hub :: "mem_store hub" where
  "race_hub = snd (Hub_Subscribe (NewHub ''M0LTE-4'' MemStore NewMemStore id int))"

lemma race_hub_ok: "hub_inv race_hub" "map_of (h_subs race_hub) 0 = Some []"
proof -
  show "hub_inv race_hub" unfolding race_hub_def by (intro hub_inv_Subscribe NewHub_inv)
  show "map_of (h_subs race_hub) 0 = Some []" by code_simp
qed

theorem join_overtaken_by_leave_witness:
  "\<exists>h' v. map_of (h_subs h') 0 = Some [UserLeft v, UserJoined v] \<and> Hub_User h' (UserKey ''G8PZT'' ''M0LTE-4'') = None \<and>
     conc_run (\<lambda>x. x \<in> {OpJoin (demo_user ''G8PZT'' ''M0LTE-4'' '''' ''''), OpLeave (UserKey ''G8PZT'' ''M0LTE-4'')})
       (race_hub, {#}) [UserJoined v, UserLeft v] (h', {#})"
proof -
  let ?u = "demo_user ''G8PZT'' ''M0LTE-4'' '''' ''''"
  have c: "normCall (u_call ?u) \<noteq> ''''" "normCall (o_node (u_origin ?u)) \<noteq> ''''" by code_simp+
  have s: "u_call ?u = ''G8PZT''" "o_node (u_origin ?u) = ''M0LTE-4''" by (simp_all add: demo_user_def)
  show ?thesis
    using join_overtaken_by_leave [OF race_hub_ok(1) c race_hub_ok(2)] by (simp add: subBuffer_def s) blast
qed

theorem hub_concurrent_safe_witness:
  "\<exists>h v es. conc_run (\<lambda>x. x \<noteq> OpCancel 0 \<and> x \<noteq> OpRecv 0) (race_hub, {#}) [UserJoined v] (h, {#}) \<and> hub_inv h \<and>
     map_of (h_subs h) 0 = Some es \<and> mset es = {#UserJoined v#}"
proof -
  let ?u = "demo_user ''G8PZT'' ''M0LTE-4'' '''' ''''" and ?P = "\<lambda>x. x \<noteq> OpCancel 0 \<and> x \<noteq> OpRecv 0"
  let ?v = "joined race_hub ?u"
  have c: "normCall (u_call ?u) \<noteq> ''''" "normCall (o_node (u_origin ?u)) \<noteq> ''''" by code_simp+
  obtain h1 where h1: "Join_locked race_hub ?u = (h1, [Emitting [UserJoined ?v]], None)" by (rule Join_locked_accepted [OF race_hub_ok(1) c])
  have "conc_run ?P (race_hub, {#}) ([] @ announced [Emitting [UserJoined ?v]]) (h1, {#} + mset [Emitting [UserJoined ?v]])"
    by (rule call [OF idle, of _ "OpJoin ?u"]) (simp_all add: h1)
  then have "conc_run ?P (race_hub, {#}) [UserJoined ?v] (h1, {#Emitting [UserJoined ?v]#})" by (simp add: announced_def)
  from task [OF this, of "Emitting [UserJoined ?v]"]
  have r: "conc_run ?P (race_hub, {#}) [UserJoined ?v] (emit [UserJoined ?v] h1, {#})" by (simp add: announced_def)
  note t = hub_concurrent_safe [OF race_hub_ok(1)]
  have "hub_inv (emit [UserJoined ?v] h1)" using t r by blast
  moreover obtain es where "map_of (h_subs (emit [UserJoined ?v] h1)) 0 = Some ([] @ es)" "mset es = mset [UserJoined ?v]"
    using t r race_hub_ok(2) by (fastforce simp: subBuffer_def)
  ultimately show ?thesis using r by (intro exI [of _ "emit [UserJoined ?v] h1"] exI [of _ ?v] exI [of _ es]) (simp del: hub_inv_emit)
qed

end
