(* ===== verification/Peer_Sync.thy ===== *)
theory Peer_Sync
  imports Peer_Serve
begin

text \<open>
  The resync on link-up, from end to end: the lines \<^verbatim>\<open>stateTell\<close> writes when a link
  comes up, as the other end reads them, and the hub they leave there. A user is carried faithfully
  if it fits the wire (\<open>wire_user\<close>): a callsign and a topic of one word, a name and a QTH of
  printable ASCII without underscores, and a record no longer than a line.
\<close>

subsection \<open>What is told\<close>

text \<open>The lines about one user, and about all of them.\<close>

definition told :: "string \<Rightarrow> user \<Rightarrow> string list" where
  "told our u =
     (if o_node (u_origin u) \<noteq> our then []
      else encodeJoin our (u_call u) (u_name u) (u_qth u) #
        (if EqualFold (u_topic u) DefaultTopic then [] else [encodeTopic our (u_call u) (u_topic u)]))"

definition on_wire :: "string list \<Rightarrow> string" where
  "on_wire lines = concat (map (\<lambda>l. l @ [CHR 0x0D]) lines)"

lemma on_wire_simps [simp]: "on_wire [] = []" "on_wire (l # ls) = l @ CHR 0x0D # on_wire ls" "on_wire (ls @ ms) = on_wire ls @ on_wire ms"
  by (simp_all add: on_wire_def)

text \<open>A connection whose writes succeed.\<close>

definition sound :: "link \<Rightarrow> bool" where
  "sound l \<longleftrightarrow> (\<forall>i. \<not> c_wfail (l_conn l) i)"

lemma sendRaw_sound:
  "sound l \<Longrightarrow> sound (fst (sendRaw l s))" "sound l \<Longrightarrow> c_out (l_conn (fst (sendRaw l s))) = c_out (l_conn l) @ s @ [CHR 0x0D]"
  by (simp_all add: sound_def sendRaw_def conn_write_def)

lemma tellUser_sound:
  assumes "sound l"
  shows "sound (tellUser u l)" "l_ourNode (tellUser u l) = l_ourNode l"
    "c_out (l_conn (tellUser u l)) = c_out (l_conn l) @ on_wire (told (l_ourNode l) u)"
  using assms by (simp_all add: tellUser_def told_def Let_def sendRaw_sound)

lemma stateTell_out:
  assumes "sound l"
  shows "c_out (l_conn (stateTell h l)) = c_out (l_conn l) @ on_wire (concat (map (told (l_ourNode l)) (Hub_Users h)))"
proof -
  have "c_out (l_conn (fold tellUser us l)) = c_out (l_conn l) @ on_wire (concat (map (told (l_ourNode l)) us))" for us
    using assms by (induction us arbitrary: l) (simp_all add: tellUser_sound)
  then show ?thesis by (simp add: stateTell_def)
qed

lemma readLines_on_wire: "list_all (\<lambda>l. plain l \<and> length l \<le> maxLine) ls \<Longrightarrow> readLines (on_wire ls) = ls"
  by (induction ls) (simp_all add: readLines_plain readLines_append)

text \<open>Users whose records the wire carries.\<close>

definition wire_text :: "string \<Rightarrow> bool" where
  "wire_text s \<longleftrightarrow> printable s \<and> CHR ''_'' \<notin> set s \<and> s \<noteq> ''?'' \<and> (s = '''' \<or> TrimSpace s \<noteq> '''')"

definition wire_user :: "string \<Rightarrow> user \<Rightarrow> bool" where
  "wire_user our u \<longleftrightarrow> token our \<and> token (u_call u) \<and> token (u_topic u) \<and> wire_text (u_name u) \<and> wire_text (u_qth u) \<and>
     length our + length (u_call u) + length (u_topic u) + length (u_name u) + length (u_qth u) \<le> 4000"

lemma orDash_length: "length (orDash s) \<le> length s + 1"
  by (simp add: orDash_def ReplaceAll_def)

lemma told_framed:
  assumes "wire_user our u"
  shows "list_all (\<lambda>l. plain l \<and> length l \<le> maxLine) (told our u)"
proof -
  have t: "clean our" "clean (u_call u)" "clean (u_topic u)" "clean (orDash (u_name u))" "clean (orDash (u_qth u))"
    using assms by (simp_all add: wire_user_def wire_text_def token_def printable_orDash printable_clean)
  moreover have "length (orDash (u_name u)) + length (orDash (u_qth u)) \<le> length (u_name u) + length (u_qth u) + 2"
    using orDash_length [of "u_name u"] orDash_length [of "u_qth u"] by linarith
  ultimately show ?thesis
    using assms
    by (simp add: told_def encodeJoin_def encodeTopic_def encode_def wire_user_def clean_plain ID_defs FORMAT_def eol_def maxLine_def)
qed

subsection \<open>What the other end does with it\<close>

text \<open>The id is not, and will not by itself become, a duplicate.\<close>

definition fresh_id :: "'s hub \<Rightarrow> string \<Rightarrow> bool" where
  "fresh_id h i \<longleftrightarrow> (\<forall>j \<ge> h_reads h. \<not> live (h_clock h j) (h_seen h) i)"

text \<open>A node that takes records of the node \<open>our\<close>.\<close>

definition takes :: "string \<Rightarrow> ('s, 'l) router \<Rightarrow> bool" where
  "takes our r \<longleftrightarrow> router_inv r \<and> (\<forall>x. h_hash (rt_hub r) x \<noteq> '''') \<and> our \<noteq> rt_ourNode r"

definition presence :: "wire_record \<Rightarrow> bool" where
  "presence rc \<longleftrightarrow> r_Type rc = IDJoin \<or> r_Type rc = IDTopic"

lemma presence_type: "presence rc \<Longrightarrow> r_Type rc \<noteq> IDKeepalive \<and> r_Type rc \<noteq> IDPoll \<and> r_Type rc \<noteq> IDPollResp \<and> r_Type rc \<noteq> IDUnlink"
  by (auto simp: presence_def ID_defs)

lemma presence_id: "presence rc \<Longrightarrow> recordID r rc = ''rec:'' @ [r_Type rc] @ '':'' @ r_Raw rc"
proof -
  have "IDJoin \<noteq> IDData" "IDJoin \<noteq> IDSend" "IDTopic \<noteq> IDData" "IDTopic \<noteq> IDSend"
    "string_of_byte IDJoin = [IDJoin]" "string_of_byte IDTopic = [IDTopic]"
    by (simp_all add: ID_defs string_of_byte_def)
  then show "presence rc \<Longrightarrow> recordID r rc = ''rec:'' @ [r_Type rc] @ '':'' @ r_Raw rc"
    using recordID_plain [of rc r] by (auto simp: presence_def)
qed

text \<open>Records with one id are one record.\<close>

lemma presence_id_eq:
  assumes "presence a" "presence b" "record_ok a" "record_ok b" "recordID r a = recordID r' b"
  shows "a = b"
proof -
  have "r_Raw a = r_Raw b" using assms(5) by (simp add: presence_id [OF assms(1)] presence_id [OF assms(2)])
  moreover have "Decode (r_Raw a) = Some a" "Decode (r_Raw b) = Some b" using assms(3,4) unfolding record_ok_def by blast+
  ultimately show ?thesis by (metis option.inject)
qed

text \<open>One line of the resync at the receiver.\<close>

abbreviation after :: "('s, 'l) router \<Rightarrow> wire_record \<Rightarrow> string \<Rightarrow> 's hub" where
  "after r rc f \<equiv> apply_rec (snd (Hub_Seen (rt_hub r) (recordID r rc))) rc f"

lemma takes_after:
  assumes r: "takes our r" and rc: "record_ok rc" "presence rc" "r_Node rc = our"
  shows "takes our (r\<lparr>rt_hub := after r rc f\<rparr>)"
    and "k \<noteq> UserKey (r_User rc) our \<Longrightarrow> map_of (h_users (after r rc f)) k = map_of (h_users (rt_hub r)) k"
    and "fresh_id (rt_hub r) i \<Longrightarrow> i \<noteq> recordID r rc \<Longrightarrow> fresh_id (after r rc f) i"
proof -
  let ?h = "snd (Hub_Seen (rt_hub r) (recordID r rc))"
  have inv: "hub_inv (rt_hub r)" "hub_inv ?h" using r by (simp_all add: takes_def router_inv_def hub_inv_Seen)
  show "takes our (r\<lparr>rt_hub := after r rc f\<rparr>)"
    using r inv by (auto simp: takes_def router_inv_def inv_intros)
  have c: "canonKey (UserKey (r_User rc) (r_Node rc)) = UserKey (r_User rc) (r_Node rc)" "normCall (r_Node rc) \<noteq> rt_ourNode r"
    using record_ok_normCall [OF rc(1)] r rc(3) by (simp_all add: canonKey_def takes_def)
  then show "map_of (h_users (after r rc f)) k = map_of (h_users (rt_hub r)) k" if "k \<noteq> UserKey (r_User rc) our"
    using touches_apply_rec [OF inv(2) c(2), of f] presence_type [OF rc(2)] that by (simp add: touches_def rc(3))
  have a: "h_clock (after r rc f) = h_clock (rt_hub r)" "h_reads (rt_hub r) \<le> h_reads (after r rc f)"
    using advances_apply_rec [OF inv(2), of rc f] by (simp_all add: advances_def)
  then show "fresh_id (after r rc f) i" if "fresh_id (rt_hub r) i" "i \<noteq> recordID r rc"
    using that live_Seen [OF hub_invD(5) [OF inv(1)]] inv(2) rc(2) by (auto simp: fresh_id_def presence_def presence_seen)
qed

lemma handle_presence:
  assumes r: "takes our r" and rc: "Decode line = Some rc" "presence rc" "r_Node rc = our"
    and new: "fresh_id (rt_hub r) (recordID r rc)"
  shows "fst (handle t1 t2 (l, r) line) = (markSeen t1 l, r\<lparr>rt_hub := after r rc (l_peerCall l)\<rparr>)"
proof -
  have ok: "record_ok rc" and ctl: "IsControl line" using Decode_exact [of line] rc(1) by (auto simp: IsControl_def FORMAT_def)
  have "\<not> live (now (rt_hub r)) (h_seen (rt_hub r)) (recordID r rc)" using new by (auto simp: fresh_id_def now_def)
  then show ?thesis
    using r Ingest_eq [of r rc "l_peerCall l"] presence_type [OF rc(2)] rc ok
    by (simp add: handle_def ctl handleRecord_def takes_def split_def Let_def markSeen_def)
qed

text \<open>The user at the other end that stands for \<open>u\<close>, learned via the link \<open>f\<close>.\<close>

definition mirrors :: "string \<Rightarrow> user \<Rightarrow> user \<Rightarrow> bool" where
  "mirrors f u v \<longleftrightarrow> u_name v = u_name u \<and> u_qth v = u_qth u \<and> normTopicKey (u_topic v) = normTopicKey (u_topic u) \<and>
     o_link (u_origin v) = f"

text \<open>What a J record makes of a user who is not there, and a T record of one who is.\<close>

lemma apply_Join_new:
  assumes inv: "hub_inv h" and j: "record_ok j" "r_Type j = IDJoin" and absent: "Hub_User h (UserKey (r_User j) (r_Node j)) = None"
  shows "\<exists>v. Hub_User (apply_rec h j f) (UserKey (r_User j) (r_Node j)) = Some v \<and>
    u_name v = unDash (Field j 0) \<and> u_qth v = unDash (Field j 1) \<and> u_topic v = DefaultTopic \<and> o_link (u_origin v) = f"
proof -
  let ?u = "mk_user (r_User j) (unDash (Field j 0)) (unDash (Field j 1)) \<lparr>o_node = r_Node j, o_local = False, o_link = f\<rparr>"
  let ?k = "UserKey (r_User j) (r_Node j)"
  have nc: "normCall (r_User j) \<noteq> ''''" "normCall (r_Node j) \<noteq> ''''"
    using record_ok_normCall [OF j(1)] j(1) by (simp_all add: record_ok_def)
  have e: "ensureUser h j f = fst (Hub_Join h ?u)" using absent j(2) by (simp add: ensureUser_def)
  have U: "Hub_User (fst (Hub_Join h ?u)) ?k = Some (joined h ?u)" using Join_result(1) [OF inv, of ?u] nc by simp
  have "u_topic (joined h ?u) = DefaultTopic"
    using topics_okD(7) [OF hub_invD(1) [OF inv]] by (simp add: joined_def ensureTopic_fst joining_topic)
  moreover have "apply_rec h j f = fst (Hub_Join h ?u)"
    using U by (simp add: apply_rec_def j(2) e Let_def Hub_SetInfo_def Hub_User_def)
  ultimately show ?thesis using U by simp
qed

lemma apply_Topic_known:
  assumes inv: "hub_inv h" and t: "r_Type t = IDTopic" "token (Field t 0)" and u: "Hub_User h (UserKey (r_User t) (r_Node t)) = Some u"
  shows "\<exists>v. Hub_User (apply_rec h t f) (UserKey (r_User t) (r_Node t)) = Some v \<and> u_name v = u_name u \<and> u_qth v = u_qth u \<and>
    normTopicKey (u_topic v) = normTopicKey (Field t 0) \<and> u_origin v = u_origin u"
proof -
  have n: "normTopicKey (Field t 0) \<noteq> ''''" using t(2) by (simp add: token_def normTopicKey_def nosp_TrimSpace)
  have "apply_rec h t f = fst (Hub_SetTopic h (UserKey (r_User t) (r_Node t)) (Field t 0))"
    using u by (simp add: apply_rec_def t(1) ID_defs Let_def ensureUser_def)
  then show ?thesis using SetTopic_user [OF inv n u] by auto
qed

text \<open>The records behind the lines about a local user.\<close>

lemma told_records:
  assumes "wire_user our u" "ToUpper our = our" "ToUpper (u_call u) = u_call u"
  obtains j t where "Decode (encodeJoin our (u_call u) (u_name u) (u_qth u)) = Some j" "r_Type j = IDJoin"
    "r_Node j = our" "r_User j = u_call u" "unDash (Field j 0) = u_name u" "unDash (Field j 1) = u_qth u"
    "Decode (encodeTopic our (u_call u) (u_topic u)) = Some t" "r_Type t = IDTopic"
    "r_Node t = our" "r_User t = u_call u" "Field t 0 = u_topic u" "record_ok j" "record_ok t"
proof -
  have w: "token our" "token (u_call u)" "token (u_topic u)" "wire_text (u_name u)" "wire_text (u_qth u)"
    using assms(1) by (simp_all add: wire_user_def)
  obtain j where j: "Decode (encodeJoin our (u_call u) (u_name u) (u_qth u)) = Some j" "r_Type j = IDJoin"
    "r_Node j = our" "r_User j = u_call u" "unDash (Field j 0) = u_name u" "unDash (Field j 1) = u_qth u"
    using encodeJoin_fields [OF w(1,2), of "u_name u" "u_qth u"] w(4,5) assms(2,3) by (auto simp: wire_text_def)
  obtain t where t: "Decode (encodeTopic our (u_call u) (u_topic u)) = Some t" "r_Type t = IDTopic"
    "r_Node t = our" "r_User t = u_call u" "Field t 0 = u_topic u"
    using encodeTopic_fields [OF w(1-3)] assms(2,3) by auto
  have "record_ok j" "record_ok t" using Decode_exact j(1) t(1) by blast+
  with j t show thesis by (rule that)
qed

text \<open>No presence record of the user at that node is a duplicate here.\<close>

definition unheard :: "string \<Rightarrow> ('s, 'l) router \<Rightarrow> string \<Rightarrow> bool" where
  "unheard our r call \<longleftrightarrow> (\<forall>rc. record_ok rc \<and> presence rc \<and> r_Node rc = our \<and> r_User rc = call \<longrightarrow> fresh_id (rt_hub r) (recordID r rc))"

lemma unheard_after:
  assumes "takes our r" "record_ok rc" "presence rc" "r_Node rc = our" "unheard our r call" "r_User rc \<noteq> call"
  shows "unheard our (r\<lparr>rt_hub := after r rc f\<rparr>) call"
  unfolding unheard_def
proof (intro allI impI, elim conjE)
  fix rc' assume rc': "record_ok rc'" "presence rc'" "r_Node rc' = our" "r_User rc' = call"
  then have "fresh_id (rt_hub r) (recordID r rc')" using assms(5) by (simp add: unheard_def)
  moreover have "recordID r rc' \<noteq> recordID r rc"
    using presence_id_eq [OF rc'(2) assms(3) rc'(1) assms(2)] rc'(4) assms(6) by blast
  ultimately show "fresh_id (rt_hub (r\<lparr>rt_hub := after r rc f\<rparr>)) (recordID (r\<lparr>rt_hub := after r rc f\<rparr>) rc')"
    using takes_after(3) [OF assms(1-4)] by (simp add: presence_id [OF rc'(2)])
qed

lemma handleLines_fst:
  "fst (handleLines clk k (x # xs) lr) = fst (handleLines clk (k + 2) xs (fst (handle (clk k) (clk (Suc k)) lr x)))"
  by (simp add: Let_def split_def)

lemma handleLines_append:
  "fst (handleLines clk k (xs @ ys) lr) = fst (handleLines clk (k + 2 * length xs) ys (fst (handleLines clk k xs lr)))"
  by (induction xs arbitrary: k lr) (simp_all add: Let_def split_def)

lemma markSeen_peer [simp]: "l_peerCall (markSeen t l) = l_peerCall l"
  by (simp add: markSeen_def)

text \<open>
  What one user of the sender becomes at the receiver: the receiver stays ready, the user is
  mirrored, nobody else is touched, and the records of other users stay unheard.
\<close>

definition synced :: "string \<Rightarrow> string \<Rightarrow> user \<Rightarrow> ('s, 'l) router \<Rightarrow> link \<times> ('s, 'l) router \<Rightarrow> bool" where
  "synced our f u r lr \<longleftrightarrow> takes our (snd lr) \<and> l_peerCall (fst lr) = f
   \<and> (\<exists>v. map_of (h_users (rt_hub (snd lr))) (UserKey (u_call u) our) = Some v \<and> mirrors f u v)
   \<and> (\<forall>k. k \<noteq> UserKey (u_call u) our \<longrightarrow> map_of (h_users (rt_hub (snd lr))) k = map_of (h_users (rt_hub r)) k)
   \<and> (\<forall>c. c \<noteq> u_call u \<longrightarrow> unheard our r c \<longrightarrow> unheard our (snd lr) c)"

text \<open>The J record leaves the user in General, the T record moves it.\<close>

lemma sync_join:
  assumes r: "takes our r" and j: "Decode line = Some j" "r_Type j = IDJoin" "r_Node j = our" "r_User j = u_call u"
      "unDash (Field j 0) = u_name u" "unDash (Field j 1) = u_qth u"
    and absent: "map_of (h_users (rt_hub r)) (UserKey (u_call u) our) = None" and new: "fresh_id (rt_hub r) (recordID r j)"
  shows "synced our (l_peerCall l) (u\<lparr>u_topic := DefaultTopic\<rparr>) r (fst (handle t1 t2 (l, r) line))"
    and "fresh_id (rt_hub r) i \<Longrightarrow> i \<noteq> recordID r j \<Longrightarrow> fresh_id (rt_hub (snd (fst (handle t1 t2 (l, r) line)))) i"
proof -
  have ok: "record_ok j" and p: "presence j" using Decode_exact j(1,2) by (blast, simp add: presence_def)
  let ?f = "l_peerCall l" and ?k = "UserKey (r_User j) (r_Node j)"
  note s = takes_after [OF r ok p j(3), where f = ?f] and h = handle_presence [OF r j(1) p j(3) new, of t1 t2 l]
  have ck: "canonKey ?k = ?k" using record_ok_normCall [OF ok] by (simp add: canonKey_def)
  have i: "hub_inv (snd (Hub_Seen (rt_hub r) (recordID r j)))" using r by (simp add: takes_def router_inv_def hub_inv_Seen)
  have U: "Hub_User (snd (Hub_Seen (rt_hub r) (recordID r j))) ?k = None" using absent ck by (simp add: Hub_User_def j(3,4))
  from apply_Join_new [OF i ok j(2) U, of ?f] j(5,6)
  obtain v where v: "Hub_User (after r j ?f) ?k = Some v" "mirrors ?f (u\<lparr>u_topic := DefaultTopic\<rparr>) v" by (auto simp: mirrors_def)
  have "unheard our (r\<lparr>rt_hub := after r j ?f\<rparr>) c" if "c \<noteq> u_call u" "unheard our r c" for c
    using unheard_after [OF r ok p j(3) that(2)] that(1) j(4) by auto
  then show "synced our ?f (u\<lparr>u_topic := DefaultTopic\<rparr>) r (fst (handle t1 t2 (l, r) line))"
    using s(1,2) v ck by (simp add: synced_def h Hub_User_def j(3,4))
  show "fresh_id (rt_hub (snd (fst (handle t1 t2 (l, r) line)))) i" if "fresh_id (rt_hub r) i" "i \<noteq> recordID r j"
    using s(3) [OF that] by (simp add: h)
qed

lemma sync_topic:
  assumes sy: "synced our f (u\<lparr>u_topic := topic\<rparr>) r (l, r1)"
    and t: "Decode line = Some t" "r_Type t = IDTopic" "r_Node t = our" "r_User t = u_call u" "Field t 0 = u_topic u" "token (u_topic u)"
    and new: "fresh_id (rt_hub r1) (recordID r1 t)"
  shows "synced our f u r (fst (handle t1 t2 (l, r1) line))"
proof -
  have ok: "record_ok t" and p: "presence t" using Decode_exact t(1,2) by (blast, simp add: presence_def)
  let ?k = "UserKey (r_User t) (r_Node t)"
  have r1: "takes our r1" and f: "l_peerCall l = f" using sy by (simp_all add: synced_def)
  note s = takes_after [OF r1 ok p t(3), where f = f] and h = handle_presence [OF r1 t(1) p t(3) new, of t1 t2 l]
  have ck: "canonKey ?k = ?k" using record_ok_normCall [OF ok] by (simp add: canonKey_def)
  obtain v where v: "map_of (h_users (rt_hub r1)) ?k = Some v" "mirrors f (u\<lparr>u_topic := topic\<rparr>) v"
    using sy by (auto simp: synced_def t(3,4))
  have i: "hub_inv (snd (Hub_Seen (rt_hub r1) (recordID r1 t)))" using r1 by (simp add: takes_def router_inv_def hub_inv_Seen)
  have U: "Hub_User (snd (Hub_Seen (rt_hub r1) (recordID r1 t))) ?k = Some v" using v(1) ck by (simp add: Hub_User_def)
  have "token (Field t 0)" by (simp add: t(5,6))
  from apply_Topic_known [OF i t(2) this U, of f] t(5) v(2)
  obtain w where w: "Hub_User (after r1 t f) ?k = Some w" "mirrors f u w" by (auto simp: mirrors_def)
  have "unheard our (r1\<lparr>rt_hub := after r1 t f\<rparr>) c" if "c \<noteq> u_call u" "unheard our r c" for c
    using unheard_after [OF r1 ok p t(3), of c f] sy that t(4) by (auto simp: synced_def)
  then show ?thesis using s(1,2) sy w ck by (simp add: synced_def h f Hub_User_def t(3,4))
qed

lemma sync_user:
  assumes r: "takes our r" and u: "wire_user our u" "o_node (u_origin u) = our" "normCall our = our" "normCall (u_call u) = u_call u"
    and absent: "map_of (h_users (rt_hub r)) (UserKey (u_call u) our) = None" and new: "unheard our r (u_call u)"
  shows "synced our (l_peerCall l) u r (fst (handleLines clk k (told our u) (l, r)))"
proof -
  let ?join = "encodeJoin our (u_call u) (u_name u) (u_qth u)" and ?topic = "encodeTopic our (u_call u) (u_topic u)"
  have up: "ToUpper our = our" "ToUpper (u_call u) = u_call u" using u(3,4) normCall_ToUpper(2) by metis+
  obtain j t where j: "Decode ?join = Some j" "r_Type j = IDJoin" "r_Node j = our" "r_User j = u_call u"
      "unDash (Field j 0) = u_name u" "unDash (Field j 1) = u_qth u"
    and t: "Decode ?topic = Some t" "r_Type t = IDTopic" "r_Node t = our" "r_User t = u_call u" "Field t 0 = u_topic u"
    and ok: "record_ok j" "record_ok t"
    using told_records [OF u(1) up] by blast
  have pr: "presence j" "presence t" "t \<noteq> j" using j(2) t(2) by (auto simp: presence_def ID_defs)
  have fj: "fresh_id (rt_hub r) (recordID r j)" "fresh_id (rt_hub r) (recordID r t)" using new pr ok j t by (simp_all add: unheard_def)
  let ?lr = "fst (handle (clk k) (clk (Suc k)) (l, r) ?join)"
  have s: "synced our (l_peerCall l) (u\<lparr>u_topic := DefaultTopic\<rparr>) r ?lr" by (rule sync_join(1) [OF r j absent fj(1)])
  have "recordID r t \<noteq> recordID r j" using presence_id_eq [OF pr(2,1) ok(2,1)] pr(3) by blast
  then have ft: "fresh_id (rt_hub (snd ?lr)) (recordID (snd ?lr) t)"
    using sync_join(2) [OF r j absent fj(1) fj(2)] by (simp add: presence_id [OF pr(2)])
  have "synced our (l_peerCall l) u r ?lr" if "EqualFold (u_topic u) DefaultTopic"
    using s that TrimSpace_ToLower [of "u_topic u"] TrimSpace_ToLower [of DefaultTopic]
    by (simp add: synced_def mirrors_def EqualFold_def normTopicKey_def)
  moreover have "synced our (l_peerCall l) u r (fst (handle t1 t2 ?lr ?topic))" for t1 t2
    by (rule sync_topic [where l = "fst ?lr" and ?r1.0 = "snd ?lr", unfolded prod.collapse, OF s t _ ft]) (use u(1) in \<open>simp add: wire_user_def\<close>)
  ultimately show ?thesis using u(2) by (simp add: told_def handleLines_fst del: handleLines.simps(2))
qed

text \<open>All lines of the resync.\<close>

lemma told_local: "concat (map (told our) us) = concat (map (told our) (filter (\<lambda>u. o_node (u_origin u) = our) us))"
  by (induction us) (simp_all add: told_def)

lemma sync_users:
  assumes "takes our r" "normCall our = our" "distinct (map u_call us)"
    and "\<forall>u \<in> set us. o_node (u_origin u) = our \<and> wire_user our u \<and> normCall (u_call u) = u_call u \<and>
      map_of (h_users (rt_hub r)) (UserKey (u_call u) our) = None \<and> unheard our r (u_call u)"
    and lr': "lr' = fst (handleLines clk k (concat (map (told our) us)) (l, r))"
  shows "(\<forall>u \<in> set us. \<exists>v. map_of (h_users (rt_hub (snd lr'))) (UserKey (u_call u) our) = Some v \<and> mirrors (l_peerCall l) u v)
   \<and> (\<forall>key. key \<notin> (\<lambda>u. UserKey (u_call u) our) ` set us \<longrightarrow>
        map_of (h_users (rt_hub (snd lr'))) key = map_of (h_users (rt_hub r)) key)"
  using assms
proof (induction us arbitrary: k l r)
  case (Cons u us)
  let ?lr = "fst (handleLines clk k (told our u) (l, r))" and ?k = "k + 2 * length (told our u)"
  have s: "synced our (l_peerCall l) u r ?lr" by (rule sync_user) (use Cons.prems in auto)
  have other: "u_call x \<noteq> u_call u" if "x \<in> set us" for x using that Cons.prems(3) by (metis distinct.simps(2) image_eqI list.simps(9) set_map)
  have p: "\<forall>x \<in> set us. o_node (u_origin x) = our \<and> wire_user our x \<and> normCall (u_call x) = u_call x \<and>
      map_of (h_users (rt_hub (snd ?lr))) (UserKey (u_call x) our) = None \<and> unheard our (snd ?lr) (u_call x)"
    using Cons.prems(4) s other by (auto simp: synced_def)
  have e: "lr' = fst (handleLines clk ?k (concat (map (told our) us)) ?lr)" using Cons.prems(5) by (simp add: handleLines_append)
  have g: "takes our (snd ?lr)" "l_peerCall (fst ?lr) = l_peerCall l" "distinct (map u_call us)"
    using s Cons.prems(3) by (simp_all add: synced_def)
  note ih = Cons.IH [of "snd ?lr" ?k "fst ?lr", unfolded prod.collapse, OF g(1) Cons.prems(2) g(3) p e, unfolded g(2)]
  have "UserKey (u_call u) our \<notin> (\<lambda>u. UserKey (u_call u) our) ` set us" using other by fastforce
  then show ?case using ih s by (auto simp: synced_def)
qed simp

text \<open>The users of a hub that are homed on its node, by callsign.\<close>

lemma local_users:
  assumes "hub_inv h" and us: "us = filter (\<lambda>u. o_node (u_origin u) = our) (Hub_Users h)"
  shows "distinct (map u_call us)" "u \<in> set us \<Longrightarrow> normCall (u_call u) = u_call u"
    "normCall our = our \<Longrightarrow> normCall call = call \<Longrightarrow> map_of (h_users h) (UserKey call our) = Some u \<longleftrightarrow> u \<in> set us \<and> u_call u = call"
proof -
  have g: "gomap (h_users h)" and ok: "\<And>k u. map_of (h_users h) k = Some u \<Longrightarrow> user_ok h k u"
    using hub_invD(2) [OF assms(1)] by (auto simp: users_ok_def)
  have m: "u \<in> set us \<longleftrightarrow> map_of (h_users h) (UserKey (u_call u) our) = Some u \<and> o_node (u_origin u) = our" for u
    using Users_set [OF g] ok by (auto simp: us user_ok_def User_Key_def)
  show "normCall (u_call u) = u_call u" if "u \<in> set us" using that ok [of "UserKey (u_call u) our" u] by (auto simp: m user_ok_def canonKey_def)
  show "map_of (h_users h) (UserKey call our) = Some u \<longleftrightarrow> u \<in> set us \<and> u_call u = call"
    using ok [of "UserKey call our" u] by (auto simp: m user_ok_def User_Key_def)
  have "map User_Key (map snd (h_users h)) = map fst (h_users h)" using g ok by (auto simp: gomap_def user_ok_def)
  moreover have "distinct (map fst (h_users h))" using g by (simp add: gomap_def)
  ultimately have "distinct (map User_Key (map snd (h_users h)))" by presburger
  moreover have "mset (map User_Key (Hub_Users h)) = mset (map User_Key (map snd (h_users h)))" by (simp add: Hub_Users_def multiset.map_comp)
  ultimately have "distinct (map User_Key (Hub_Users h))" using mset_eq_imp_distinct_iff by blast
  then have "distinct (map User_Key us)" by (simp add: us distinct_map_filter)
  moreover have "map User_Key us = map (\<lambda>c. UserKey c our) (map u_call us)" by (auto simp: us User_Key_def)
  ultimately show "distinct (map u_call us)" using distinct_map by metis
qed

text \<open>What a link writes when it comes up, as lines.\<close>

lemma serve_up_lines:
  assumes "l_ourNode l = our" "sound l" "c_out (l_conn l) = ''''"
    and us: "us = filter (\<lambda>u. o_node (u_origin u) = our) (Hub_Users (rt_hub r))" "\<forall>u \<in> set us. wire_user our u"
  shows "readLines (c_out (l_conn (fst (serve_up t hnd (l, r))))) = concat (map (told our) us)"
proof -
  have "Hub_Users (fst (Hub_LinkNode (rt_hub r) c a v)) = Hub_Users (rt_hub r)" for c a v by (simp add: Hub_Users_def)
  then have "c_out (l_conn (fst (serve_up t hnd (l, r)))) = on_wire (concat (map (told our) us))"
    using stateTell_out [of "l\<lparr>l_lastSeen := t, l_linkedAt := t\<rparr>" "fst (Hub_LinkNode (rt_hub r) (l_peerCall l) [] (l_version l))"] assms(1-3)
    by (simp add: serve_up_def Let_def sound_def Router_Add_def us(1) flip: told_local)
  moreover have "list_all (\<lambda>l. plain l \<and> length l \<le> maxLine) (concat (map (told our) us))"
    using told_framed us(2) by (fastforce simp: list_all_iff)
  ultimately show ?thesis by (simp add: readLines_on_wire)
qed



end
