(* ===== verification/Peer_Live.thy ===== *)
theory Peer_Live
  imports Peer_Serve
begin

text \<open>
  A link while it is served, with its two goroutines: the keepalive ticker and the loop over the
  lines read. They share the link (its clock fields under \<^verbatim>\<open>statMu\<close>, its writes under
  \<^verbatim>\<open>wmu\<close>) and run in any order: a run is a list of events, each a tick of the ticker, a
  line handled by the read loop or a record the router relays to this link. A tick after the
  keepalive loop has ended has no effect.
\<close>

subsection \<open>The run of a served link\<close>

datatype served_event = Tick time | Line time time string | Relay string

record ('s, 'l) served =
  sv_link :: link
  sv_router :: "('s, 'l) router"
  sv_exit :: "keepalive_exit option"

fun served_step :: "served_event \<Rightarrow> ('s, 'l) served \<Rightarrow> ('s, 'l) served" where
  "served_step (Tick t) s =
     (case sv_exit s of
        Some _ \<Rightarrow> s
      | None \<Rightarrow> let (l, e) = keepaliveTick t (sv_link s) in s\<lparr>sv_link := l, sv_exit := e\<rparr>)"
| "served_step (Line t1 t2 line) s =
     (let (lr, _) = handle t1 t2 (sv_link s, sv_router s) line in s\<lparr>sv_link := fst lr, sv_router := snd lr\<rparr>)"
| "served_step (Relay raw) s = s\<lparr>sv_link := fst (sendRaw (sv_link s) raw)\<rparr>"

definition served_run :: "served_event list \<Rightarrow> ('s, 'l) served \<Rightarrow> ('s, 'l) served" where
  "served_run es s = fold served_step es s"

text \<open>A link that \<^verbatim>\<open>serve\<close> has just brought up.\<close>

definition served_up :: "time \<Rightarrow> 'l \<Rightarrow> link \<times> ('s, 'l) router \<Rightarrow> ('s, 'l) served" where
  "served_up t hnd lr = \<lparr>sv_link = fst (serve_up t hnd lr), sv_router = snd (serve_up t hnd lr), sv_exit = None\<rparr>"

subsection \<open>What a tick decides on\<close>

text \<open>When the peer was last heard: the last line that decodes as a record, or the link-up.\<close>

fun hear :: "served_event \<Rightarrow> time \<Rightarrow> time" where
  "hear (Line t1 _ line) t = (if Decode line = None then t else t1)"
| "hear _ t = t"

definition heard :: "served_event list \<Rightarrow> time \<Rightarrow> time" where
  "heard es t = fold hear es t"

lemma Decode_IsControl: "Decode line \<noteq> None \<Longrightarrow> IsControl line"
  using Decode_exact [of line] by (auto simp: IsControl_def FORMAT_def)

lemma link_sel [simp]:
  "l_lastSeen (fst (sendRaw l s)) = l_lastSeen l" "l_lastSeen (markPingSent t l) = l_lastSeen l"
  "l_lastSeen (fst (sendKeepalive l)) = l_lastSeen l" "l_lastSeen (recordPong t l) = l_lastSeen l"
  "l_conn (markPingSent t l) = l_conn l" "l_ourNode (markPingSent t l) = l_ourNode l"
  "l_peerCall (markPingSent t l) = l_peerCall l" "l_version (markPingSent t l) = l_version l"
  by (simp_all add: sendRaw_def sendKeepalive_def markPingSent_def recordPong_def split_def Let_def)

lemma stateTell_lastSeen [simp]: "l_lastSeen (stateTell h l) = l_lastSeen l"
proof -
  have "l_lastSeen (fold tellUser us l) = l_lastSeen l" for us
    by (induction us arbitrary: l) (simp_all add: tellUser_def Let_def)
  then show ?thesis by (simp add: stateTell_def)
qed

lemma handle_lastSeen: "l_lastSeen (fst (fst (handle t1 t2 lr line))) = (if Decode line = None then l_lastSeen (fst lr) else t1)"
  using Decode_IsControl [of line]
  by (auto simp: handle_def handleRecord_def markSeen_def Let_def split_def split: option.split)

lemma step_lastSeen: "l_lastSeen (sv_link (served_step e s)) = hear e (l_lastSeen (sv_link s))"
  by (cases e)
    (simp_all add: handle_lastSeen keepaliveTick_def Let_def split_def split: option.split prod.split)

subsection \<open>Dead peers, and only those, are dropped\<close>

definition writes_succeed :: "link \<Rightarrow> bool" where
  "writes_succeed l \<longleftrightarrow> (\<forall>i. \<not> c_wfail (l_conn l) i)"

lemma sendRaw_wfail [simp]: "c_wfail (l_conn (fst (sendRaw l s))) = c_wfail (l_conn l)"
  by (simp add: sendRaw_def conn_write_def Let_def)

lemma sendRaw_ok: "writes_succeed l \<Longrightarrow> snd (sendRaw l s) = None"
  by (simp add: writes_succeed_def sendRaw_def conn_write_def)

lemma stateTell_wfail [simp]: "c_wfail (l_conn (stateTell h l)) = c_wfail (l_conn l)"
proof -
  have "c_wfail (l_conn (fold tellUser us l)) = c_wfail (l_conn l)" for us
    by (induction us arbitrary: l) (simp_all add: tellUser_def Let_def)
  then show ?thesis by (simp add: stateTell_def)
qed

lemma handle_wfail: "c_wfail (l_conn (fst (fst (handle t1 t2 lr line)))) = c_wfail (l_conn (fst lr))"
  by (simp add: handle_def handleRecord_def markSeen_def recordPong_def Let_def split_def split: option.split)

lemma step_wfail: "writes_succeed (sv_link s) \<Longrightarrow> writes_succeed (sv_link (served_step e s))"
  by (cases e)
    (auto simp: writes_succeed_def handle_wfail keepaliveTick_def sendKeepalive_def Let_def split_def split: option.split prod.split
      dest!: arg_cong [of "sendRaw _ _" _ "\<lambda>p. c_wfail (l_conn (fst p))"])

lemma step_exit:
  "writes_succeed (sv_link s) \<Longrightarrow> sv_exit (served_step e s) =
     (case e of Tick t \<Rightarrow> if sv_exit s = None \<and> LinkTimeout < t - l_lastSeen (sv_link s) then Some PeerDead else sv_exit s
      | _ \<Rightarrow> sv_exit s)"
  using sendRaw_ok [of "markPingSent t (sv_link s)" for t]
  by (cases e; cases "sv_exit s")
    (auto simp: keepaliveTick_def sendKeepalive_def sinceLastSeen_def writes_succeed_def Let_def split_def split: prod.splits)

text \<open>The peer has been silent for longer than the timeout when some tick comes.\<close>

definition found_dead :: "served_event list \<Rightarrow> time \<Rightarrow> bool" where
  "found_dead es t0 \<longleftrightarrow> (\<exists>es1 t es2. es = es1 @ Tick t # es2 \<and> LinkTimeout < t - heard es1 t0)"

lemma found_dead_snoc:
  "found_dead (es @ [e]) t0 \<longleftrightarrow> found_dead es t0 \<or> (\<exists>t. e = Tick t \<and> LinkTimeout < t - heard es t0)"
  unfolding found_dead_def
proof (intro iffI; elim exE conjE disjE)
  fix es1 t es2 assume a: "es @ [e] = es1 @ Tick t # es2" "LinkTimeout < t - heard es1 t0"
  show "(\<exists>es1 t es2. es = es1 @ Tick t # es2 \<and> LinkTimeout < t - heard es1 t0) \<or> (\<exists>t. e = Tick t \<and> LinkTimeout < t - heard es t0)"
  proof (cases es2 rule: rev_cases)
    case (snoc es3 e3)
    then have "es = es1 @ Tick t # es3" using a(1) by (metis append_Cons append_assoc butlast_snoc)
    then show ?thesis using a(2) by blast
  qed (use a in auto)
next
  fix es1 t es2 assume "es = es1 @ Tick t # es2" "LinkTimeout < t - heard es1 t0"
  then show "\<exists>es1 t es2. es @ [e] = es1 @ Tick t # es2 \<and> LinkTimeout < t - heard es1 t0" by (metis append_Cons append_assoc)
qed blast

lemma served_run_verdict:
  assumes "writes_succeed (sv_link s)" "sv_exit s = None"
  shows "writes_succeed (sv_link (served_run es s)) \<and> l_lastSeen (sv_link (served_run es s)) = heard es (l_lastSeen (sv_link s)) \<and>
    sv_exit (served_run es s) = (if found_dead es (l_lastSeen (sv_link s)) then Some PeerDead else None)"
proof (induction es rule: rev_induct)
  case Nil
  then show ?case using assms by (simp add: served_run_def heard_def found_dead_def)
next
  case (snoc e es)
  have r: "served_run (es @ [e]) s = served_step e (served_run es s)" by (simp add: served_run_def)
  have h: "heard (es @ [e]) t = hear e (heard es t)" for t by (simp add: heard_def)
  show ?case
    unfolding r h found_dead_snoc
    using snoc step_wfail [of "served_run es s" e] step_lastSeen [of e "served_run es s"] step_exit [of "served_run es s" e]
    by (cases e) auto
qed

lemma found_dead_silent:
  assumes silent: "\<forall>t1 t2 line. Line t1 t2 line \<in> set es \<longrightarrow> Decode line = None"
    and ticks: "{t. Tick t \<in> set es} = {t0 + d * i |i. 1 \<le> i \<and> i \<le> n}" "0 < d"
  shows "found_dead es t0 \<longleftrightarrow> LinkTimeout < d * n"
proof -
  have "heard es1 t0 = t0" if "set es1 \<subseteq> set es" for es1
    using that
  proof (induction es1 rule: rev_induct)
    case (snoc e es1)
    then show ?case using silent by (cases e) (auto simp: heard_def)
  qed (simp add: heard_def)
  then have "found_dead es t0 \<longleftrightarrow> (\<exists>t \<in> {t. Tick t \<in> set es}. LinkTimeout < t - t0)"
    unfolding found_dead_def by (fastforce dest: split_list)
  also have "\<dots> \<longleftrightarrow> (\<exists>i. 1 \<le> i \<and> i \<le> n \<and> LinkTimeout < d * i)" unfolding ticks(1) by auto
  also have "\<dots> \<longleftrightarrow> LinkTimeout < d * n"
  proof
    assume "\<exists>i. 1 \<le> i \<and> i \<le> n \<and> LinkTimeout < d * i"
    then obtain i where "i \<le> n" "LinkTimeout < d * i" by blast
    then show "LinkTimeout < d * n" using mult_left_mono [of i n d] ticks(2) by linarith
  next
    assume a: "LinkTimeout < d * n"
    then have "0 < d * n" by (simp add: LinkTimeout_def second_def)
    then have "1 \<le> n" using ticks(2) by (simp add: zero_less_mult_iff)
    with a show "\<exists>i. 1 \<le> i \<and> i \<le> n \<and> LinkTimeout < d * i" by auto
  qed
  finally show ?thesis .
qed



subsection \<open>The poll and its answer\<close>

lemma poll_lines:
  assumes "token node" "token peer" "clean version" "length node + length peer + length version \<le> 4000"
  shows "readLines (encodeKeepalive node peer version @ [CHR 0x0D]) = [encodeKeepalive node peer version]"
    "readLines (encodePollResp node peer @ [CHR 0x0D]) = [encodePollResp node peer]"
    "\<exists>k. Decode (encodeKeepalive node peer version) = Some k \<and> r_Type k = IDKeepalive"
    "\<exists>p. Decode (encodePollResp node peer) = Some p \<and> r_Type p = IDPollResp"
proof -
  have "plain (encodeKeepalive node peer version)" "plain (encodePollResp node peer)"
    using assms(1-3) clean_plain by (simp_all add: encodeKeepalive_def encodePollResp_def encode_def token_def FORMAT_def ID_defs eol_def)
  moreover have "length (encodeKeepalive node peer version) \<le> maxLine" "length (encodePollResp node peer) \<le> maxLine"
    using assms(4) by (simp_all add: encodeKeepalive_def encodePollResp_def encode_def maxLine_def)
  ultimately show "readLines (encodeKeepalive node peer version @ [CHR 0x0D]) = [encodeKeepalive node peer version]"
    "readLines (encodePollResp node peer @ [CHR 0x0D]) = [encodePollResp node peer]"
    by (simp_all add: readLines_append readLines_plain)
  show "\<exists>k. Decode (encodeKeepalive node peer version) = Some k \<and> r_Type k = IDKeepalive"
    "\<exists>p. Decode (encodePollResp node peer) = Some p \<and> r_Type p = IDPollResp"
    using Decode_encode [OF assms(1,2), of "[version]" IDKeepalive] Decode_encode [OF assms(1,2), of "[]" IDPollResp] assms(3)
    by (simp_all add: encodeKeepalive_def encodePollResp_def)
qed

lemma handle_poll:
  assumes "Decode line = Some rc"
  shows "r_Type rc = IDKeepalive \<Longrightarrow> handle t1 t2 (l, r) line = ((fst (sendRaw (markSeen t1 l) (encodePollResp (l_ourNode l) (l_peerCall l))), r), [])"
    "r_Type rc = IDPollResp \<Longrightarrow> handle t1 t2 (l, r) line = ((recordPong t2 (markSeen t1 l), r), [])"
  using Decode_IsControl [of line] assms by (simp_all add: handle_def handleRecord_def Let_def markSeen_def ID_defs)

text \<open>
  C28: a keepalive is answered once and measures the round trip. A tick on a link with no ping
  outstanding writes one K record; the other end, reading it as a line, writes one poll response and
  leaves its hub alone; the response, read at our end, sets the round-trip time to the time since
  the tick, re-arms the measurement and is answered by nothing.
\<close>

theorem keepalive_round_trip:
  assumes names: "token (l_ourNode a)" "token (l_peerCall a)" "l_peerCall b = l_ourNode a" "l_ourNode b = l_peerCall a" "clean (l_version a)"
      "length (l_ourNode a) + length (l_peerCall a) + length (l_version a) \<le> 4000"
    and conns: "\<forall>i. \<not> c_wfail (l_conn a) i" "\<forall>i. \<not> c_wfail (l_conn b) i" "c_out (l_conn a) = ''''" "c_out (l_conn b) = ''''"
    and t: "t - l_lastSeen a \<le> LinkTimeout" "l_sentPing a = 0" "t \<noteq> 0"
    and run: "keepaliveTick t a = (a1, e)" "handleLines clkB j (readLines (c_out (l_conn a1))) (b, rB) = ((b1, rB1), outB)"
      "handle t1 t2 (a1, rA) (hd (readLines (c_out (l_conn b1)))) = ((a2, rA1), outA)"
  shows "e = None \<and> readLines (c_out (l_conn a1)) = [encodeKeepalive (l_ourNode a) (l_peerCall a) (l_version a)]
    \<and> rB1 = rB \<and> outB = [] \<and> readLines (c_out (l_conn b1)) = [encodePollResp (l_ourNode b) (l_peerCall b)]
    \<and> rA1 = rA \<and> outA = [] \<and> c_out (l_conn a2) = c_out (l_conn a1) \<and> l_rtt a2 = t2 - t \<and> l_sentPing a2 = 0 \<and> l_lastSeen a2 = t1"
proof -
  let ?K = "encodeKeepalive (l_ourNode a) (l_peerCall a) (l_version a)" and ?P = "encodePollResp (l_ourNode b) (l_peerCall b)"
  have "length (l_peerCall a) + length (l_ourNode a) + length (l_version a) \<le> 4000" using names(6) by linarith
  note K = poll_lines [OF names(1,2,5,6)] and P = poll_lines [OF names(2,1,5) this, folded names(3,4)]
  have a1: "e = None" "c_out (l_conn a1) = ?K @ [CHR 0x0D]" "l_sentPing a1 = t"
    using run(1) t conns(1,3)
    by (auto simp: keepaliveTick_def sinceLastSeen_def sendKeepalive_def markPingSent_def sendRaw_def conn_write_def isZero_def)
  obtain k p where k: "Decode ?K = Some k" "r_Type k = IDKeepalive" and p: "Decode ?P = Some p" "r_Type p = IDPollResp"
    using K(3) P(4) by blast
  have b1: "b1 = fst (sendRaw (markSeen (clkB j) b) ?P)" "rB1 = rB" "outB = []"
    using run(2) by (simp_all add: a1(2) K(1) handle_poll(1) [OF k])
  then have "c_out (l_conn b1) = ?P @ [CHR 0x0D]" using conns(2,4) by (simp add: sendRaw_def conn_write_def markSeen_def)
  then have rP: "readLines (c_out (l_conn b1)) = [?P]" by (simp add: P(2))
  then have "a2 = recordPong t2 (markSeen t1 a1)" "rA1 = rA" "outA = []"
    using run(3) by (simp_all add: handle_poll(2) [OF p])
  moreover have "l_rtt (recordPong t2 (markSeen t1 a1)) = t2 - t" "l_sentPing (recordPong t2 (markSeen t1 a1)) = 0"
    using a1(3) t(3) by (simp_all add: recordPong_def markSeen_def isZero_def)
  ultimately show ?thesis using a1 b1 rP by (simp add: K(1) recordPong_def markSeen_def)
qed

theorem keepalive_round_trip_witness:
  "\<exists>a1 b1 a2. keepaliveTick 60 (demo_link True ''GB7RDG-4'' ''M0LTE-4'' '''') = (a1, None)
   \<and> handleLines int 0 (readLines (c_out (l_conn a1))) (demo_link False ''M0LTE-4'' ''GB7RDG-4'' '''', demo_router) = ((b1, demo_router), [])
   \<and> handle 62 63 (a1, demo_router) (hd (readLines (c_out (l_conn b1)))) = ((a2, demo_router), []) \<and> l_rtt a2 = 3"
proof -
  let ?a = "demo_link True ''GB7RDG-4'' ''M0LTE-4'' ''''" and ?b = "demo_link False ''M0LTE-4'' ''GB7RDG-4'' ''''"
  have n: "token (l_ourNode ?a)" "token (l_peerCall ?a)" "l_peerCall ?b = l_ourNode ?a" "l_ourNode ?b = l_peerCall ?a" "clean (l_version ?a)"
    "length (l_ourNode ?a) + length (l_peerCall ?a) + length (l_version ?a) \<le> 4000" "l_sentPing ?a = 0" "60 - l_lastSeen ?a \<le> LinkTimeout"
    by code_simp+
  have c: "\<forall>i. \<not> c_wfail (l_conn ?a) i" "\<forall>i. \<not> c_wfail (l_conn ?b) i" "c_out (l_conn ?a) = ''''" "c_out (l_conn ?b) = ''''"
    by (simp_all add: demo_conn_def)
  obtain a1 e where r1: "keepaliveTick 60 ?a = (a1, e)" by fastforce
  obtain b1 rB1 outB where r2: "handleLines int 0 (readLines (c_out (l_conn a1))) (?b, demo_router) = ((b1, rB1), outB)" by (metis surj_pair)
  obtain a2 rA1 outA where r3: "handle 62 63 (a1, demo_router) (hd (readLines (c_out (l_conn b1)))) = ((a2, rA1), outA)" by (metis surj_pair)
  from keepalive_round_trip [OF n(1-6) c n(8,7) _ r1 r2 r3] r1 r2 r3 show ?thesis by auto
qed

end
