(* ===== verification/Spec2Isabelle.thy ===== *)
theory Spec2Isabelle
  imports System Mesh_Chat Chat_Roster Chat_Hub_Conc Peer_Sync Peer_Live
begin

text \<open>
  A verification library for \<^verbatim>\<open>pdn-bpqchat\<close>, a chat node that speaks the inter-node
  protocol of BPQ Chat. The theories model the Go code of \<^verbatim>\<open>cmd/\<close> and
  \<^verbatim>\<open>internal/\<close>; this one only puts them together.

  \<^bold>\<open>The program.\<close> A hub (\<^verbatim>\<open>internal/chat\<close>) is the one place that knows the
  users, the topics and the mesh nodes. Users reach it through a text session over packet radio
  (\<^verbatim>\<open>internal/session\<close>) or through a web server (\<^verbatim>\<open>internal/web\<close>); other nodes
  reach it through links (\<^verbatim>\<open>internal/peer\<close>), over TCP or over radio. A router keeps the
  links, applies what comes in on one of them to the hub, relays it to the others and sends what local
  users do to all of them. Radio comes in through RHP, a framed JSON protocol of the packet node
  (\<^verbatim>\<open>internal/rhp\<close>), which \<^verbatim>\<open>internal/node\<close> turns into byte streams that are
  either a user session or a peer link. A store (\<^verbatim>\<open>internal/store/sqlite\<close>, or the in-memory
  one) keeps messages, settings, the allow-list and the callsigns web users have claimed.
  \<^verbatim>\<open>cmd/pdn-bpqchat\<close> reads the configuration (\<^verbatim>\<open>internal/config\<close>) and starts
  all of it.

  \<^bold>\<open>How code becomes definitions.\<close>
  \<^item> A struct is a record, an interface value the record of its methods next to the state they work
    on, a Go map an association list with distinct keys whose order is the unspecified iteration order,
    a string the list of its bytes. A method that changes its receiver returns the new one.
  \<^item> Errors, early returns and refusals are values of a sum or option type or of the response record.
    A write to a nil map, which panics, is the error \<open>NilMapPanic\<close> of the hub, and a send on a
    closed channel is recorded in \<open>cl_fault\<close> of the RHP client, so that they can be proved absent.
  \<^item> A clock reading is an argument. Times and durations are whole nanoseconds.
  \<^item> Goroutines are not scheduled: what they do to shared state under a lock is one operation, and
    every order of these operations is allowed, as a list of operations or an inductive step relation.
    Where the code releases a lock in between, the model has two operations
    (\<open>enter_count\<close> and \<open>enter_hub\<close>).
  \<^item> Code outside the repository is an argument: the hash of the content id, the JSON codec, the
    order in which the SQL engine returns rows with equal times, the environment, the answers of the
    packet node and of the dialled address.

  \<^bold>\<open>The theories\<close>, with the source each one models.
  \<^descr> \<open>Prelude\<close>, \<open>Go_Strings\<close>, \<open>Go_Runes\<close>: Go maps, the functions of \<^verbatim>\<open>strings\<close>
    the program calls, UTF-8 and \<^verbatim>\<open>unicode\<close>; their laws are shared by all the others.
  \<^descr> \<open>Chat_Model\<close> (\<^verbatim>\<open>chat/model.go\<close>, \<^verbatim>\<open>event.go\<close>): users, nodes,
    messages, events and normal forms of names.
  \<^descr> \<open>Chat_Seen\<close> (\<^verbatim>\<open>chat/seen.go\<close>): the duplicate filter. The locale
    \<open>dedup\<close> says what a filter with a time-to-live promises; \<open>ss\<close> interprets it on the code.
  \<^descr> \<open>Chat_Store\<close> (\<^verbatim>\<open>chat/store.go\<close>) and \<open>Sqlite\<close>
    (\<^verbatim>\<open>store/sqlite/sqlite.go\<close>): the two stores. \<open>config_kv\<close> and
    \<open>chat_store\<close> are the contract of the interface, interpreted on the in-memory store
    (\<open>mem_kv\<close>, \<open>mem\<close>) and, by a sublocale of \<open>sql_engine\<close>, on the tables
    (\<open>sq_kv\<close>, \<open>eng\<close>).
  \<^descr> \<open>Chat_Hub\<close>, \<open>Chat_Hub_Inv\<close>, \<open>Chat_Hub_Spec\<close>
    (\<^verbatim>\<open>chat/hub.go\<close>): every operation of the hub; that each keeps the invariant of its
    tables; what the reachable hubs satisfy: no nil map is written, the lists of users are exact unless
    a re-join moves somebody, a lost link takes its users with it, fan-out is ordered and bounded.
  \<^descr> \<open>Chat_Roster\<close>: what the hub promises about presence as an abstract specification, a
    roster with an answer to every operation, and that the hub refines it. The locale \<open>refines\<close>
    carries a simulation of single operations to whole runs; \<open>hub_roster\<close> interprets it on the hub.
  \<^descr> \<open>Chat_Hub_Conc\<close>: the hub under concurrent callers, each operation split where the code
    releases its lock: alone it is the sequential operation, in every interleaving the invariant holds
    and each event is sent once, but the events of one user may overtake each other.
  \<^descr> \<open>Peer_Proto\<close> (\<^verbatim>\<open>peer/proto.go\<close>): the records and their wire form.
  \<^descr> \<open>Peer_Router\<close>, \<open>Peer_Mesh\<close> (\<^verbatim>\<open>peer/router.go\<close>): what one router does
    with a record, and a network of routers that pass it on. The locale \<open>flood_relay\<close> holds the
    argument that a flood ends and reaches every connected node, for any relay that forwards an unseen record
    to all links but one; \<open>mesh\<close> interprets it on \<open>Ingest\<close>.
  \<^descr> \<open>Peer_Allow\<close> (\<^verbatim>\<open>peer/allow.go\<close>, \<^verbatim>\<open>allow_store.go\<close>): who may
    link in, refined to the set of pinned and listed callsigns.
  \<^descr> \<open>Peer_Link\<close>, \<open>Peer_Link_Spec\<close>, \<open>Peer_Serve\<close>
    (\<^verbatim>\<open>peer/link.go\<close>, \<^verbatim>\<open>dialer.go\<close>): handshakes, connect scripts, the
    gate, the life of a link and the dial loop; that the two handshakes meet, that a caller who is not
    allowed changes nothing and that an ended link leaves nothing behind.
  \<^descr> \<open>Peer_Sync\<close>, \<open>Peer_Live\<close> (the same files): what a link writes when it comes up
    gives the other side exactly our users; the keepalive ticker interleaved with the read loop drops a
    dead peer and no other, and a poll is answered once.
  \<^descr> \<open>Session_Assembler\<close>, \<open>Session\<close>, \<open>Session_Spec\<close>
    (\<^verbatim>\<open>session/assembler.go\<close>, \<^verbatim>\<open>session.go\<close>): lines from chunks, the commands,
    and the run loop as a step relation with its invariant.
  \<^descr> \<open>Rhp_Wire\<close>, \<open>Rhp_Client\<close> (\<^verbatim>\<open>rhp/\<close>): frames and payload text
    with their round trips, and concurrent calls over one connection as a step relation: no call is
    answered with the reply of another, none blocks the read loop and none is stuck.
  \<^descr> \<open>Config\<close> (\<^verbatim>\<open>config/config.go\<close>): the parsers and \<open>Load\<close>.
  \<^descr> \<open>Node_Stream\<close>, \<open>Node\<close>, \<open>Node_Spec\<close>
    (\<^verbatim>\<open>node/stream.go\<close>, \<^verbatim>\<open>node.go\<close>): the demultiplexer, the walk over
    callsigns to bind, and inbound and outbound radio connections.
  \<^descr> \<open>Web\<close>, \<open>Web_Spec\<close>, \<open>Web_Presence\<close> (\<^verbatim>\<open>web/\<close>): every
    handler behind the gateway check and the routes; who may change what, the claim of a callsign, what
    a stream shows, the count of open streams and the settings. The locale \<open>claim_store\<close> is the
    interface \<^verbatim>\<open>ClaimStore\<close> of the server; \<open>sc\<close> interprets it on the tables.
  \<^descr> \<open>Mesh_Chat\<close>: session, hub, router and link composed: the way of a typed line to the
    screen of a user of the next node.
  \<^descr> \<open>Daemon\<close> (\<^verbatim>\<open>cmd/pdn-bpqchat/main.go\<close>): the start of all parts from the
    environment and a database; whom the node admits as a peer after a first start, after any requests
    to the web server, and after a restart.
  \<^descr> \<open>System\<close>: the running node, every interleaving of the actions of web requests, streams,
    sessions and links on the one hub: the hub invariant holds and every channel of the hub has
    exactly one reader. The locale \<open>session_closed\<close> (\<open>Session_Spec\<close>) carries what the
    primitive actions of a session keep to whole commands and turns of its loop; \<open>si\<close> and \<open>tr\<close>
    interpret it for a session on its own and for one among others.

  \<^bold>\<open>Bounds.\<close> Frame lengths are 16-bit words; the counter of refused links and the times of the
  database are 64-bit words, which wrap. The id of an RHP request is an unbounded integer: the
  64-bit counter of the code would need \<open>2 ^ 63\<close> requests to wrap. A peer line is cut at 4096
  bytes, a session line at 512 and an event channel at 256, as in the code. No definition uses fuel. The
  loops that run until a connection ends take what happens to them as a list (the lines read, the
  connections accepted, the outcomes of dial attempts) or the number of lines they handle, so they end
  with it, and a statement for every list or number covers every prefix of a run.

  \<^bold>\<open>Deviations shown.\<close> Some theorems state behaviour that the comments or documents of the
  repository do not intend; their text says so. A re-join to another topic leaves the user listed in
  the old one; a peer's \<open>N\<close> and \<open>Q\<close> records naming our node evict our own users, and
  the two record types read one field too far; a join repeated within the time-to-live is lost; a carriage
  return in a message from the web forges a record on the links; when a join and a leave of one user
  overlap, the event of the leave can be sent first; a claim with a blank before the SSID
  is granted although another user holds the callsign; settings posted without an open stream are lost.

  \<^bold>\<open>Not modelled.\<close> \<^verbatim>\<open>web/index.go\<close> is one HTML and JavaScript document in a
  string constant. The text of HTML, JSON and event-stream responses is replaced by the values it is
  made from. Logging, signals, contexts as such (only that a wait may be cancelled), socket options,
  file paths (\<^verbatim>\<open>DBPath\<close>) and the SQL text are left out; the SQL statements appear as what they
  do to the tables. \<^verbatim>\<open>reference/\<close> is the C source of another program, kept for
  comparison.
\<close>

end
